(* ===== verification/Py.thy ===== *)
theory Py
  imports Main "HOL-Library.AList" "HOL-Library.Sublist" "HOL-Library.List_Lexorder"
    "HOL-Library.Product_Lexorder"
begin

text \<open>
  Prelude: what the program uses of Python. Strings as lists of code points, the
  \<open>str\<close> and \<open>int\<close> operations the code calls, insertion-ordered dictionaries, list
  slices, and computations that pass a state and may raise (the state an exception
  leaves behind is kept, as in Python). A weakest-precondition calculus for those
  computations, in the collection \<open>wp_simps\<close>, carries most proofs of the development.
\<close>

named_theorems wp_simps \<open>weakest preconditions of the combinators\<close>
named_theorems act_simps \<open>running a computation step by step\<close>

section \<open>Strings\<close>

text \<open>
  A Python string is a sequence of Unicode code points: \<open>len\<close>, comparison, slicing and
  \<open>startswith\<close> all work on code points. \<open>u\<close> turns a literal into one.
\<close>

type_synonym uchar = int
type_synonym pystr = "uchar list"

definition u :: "string \<Rightarrow> pystr" where
  "u s = map of_char s"

lemma u_inject [simp]: "u s = u t \<longleftrightarrow> s = t"
  by (simp add: u_def inj_map_eq_map inj_def)

lemma u_Nil [simp]: "u [] = []"
  by (simp add: u_def)

lemma u_eq_Nil [simp]: "u s = [] \<longleftrightarrow> s = []" "[] = u s \<longleftrightarrow> s = []"
  by (auto simp: u_def)

lemma length_u [simp]: "length (u s) = length s"
  by (simp add: u_def)

text \<open>\<open>str.isspace\<close> on one character: the 29 code points that \<open>str.strip\<close> and
  \<open>str.split\<close> treat as whitespace too.\<close>

definition is_space :: "uchar \<Rightarrow> bool" where
  "is_space c \<longleftrightarrow> (9 \<le> c \<and> c \<le> 13) \<or> (28 \<le> c \<and> c \<le> 32) \<or> c = 133 \<or> c = 160 \<or> c = 5760
     \<or> (8192 \<le> c \<and> c \<le> 8202) \<or> c = 8232 \<or> c = 8233 \<or> c = 8239 \<or> c = 8287 \<or> c = 12288"

definition strip_by :: "(uchar \<Rightarrow> bool) \<Rightarrow> pystr \<Rightarrow> pystr" where
  "strip_by p s = rev (dropWhile p (rev (dropWhile p s)))"

definition strip :: "pystr \<Rightarrow> pystr" where
  "strip s = strip_by is_space s"

lemma strip_by_Nil [simp]: "strip_by p [] = []"
  by (simp add: strip_by_def)

lemma dropWhile_eq_self: "xs = [] \<or> \<not> p (hd xs) \<Longrightarrow> dropWhile p xs = xs"
  by (cases xs) auto

lemma hd_dropWhile_not: "dropWhile p xs \<noteq> [] \<Longrightarrow> \<not> p (hd (dropWhile p xs))"
  by (induction xs) auto

lemma strip_by_ends:
  assumes "strip_by p s \<noteq> []"
  shows "\<not> p (hd (strip_by p s))" and "\<not> p (last (strip_by p s))"
proof -
  let ?d = "dropWhile p s"
  from assms have ne: "dropWhile p (rev ?d) \<noteq> []" by (simp add: strip_by_def)
  show "\<not> p (last (strip_by p s))"
    using hd_dropWhile_not [OF ne] ne by (simp add: strip_by_def last_rev)
  have "?d \<noteq> []" using ne by (metis dropWhile.simps(1) rev.simps(1))
  then have hd: "\<not> p (hd ?d)" by (rule hd_dropWhile_not)
  have "rev ?d = takeWhile p (rev ?d) @ dropWhile p (rev ?d)" by simp
  then have "?d = rev (dropWhile p (rev ?d)) @ rev (takeWhile p (rev ?d))"
    by (metis rev_append rev_rev_ident)
  then have "hd ?d = hd (strip_by p s)"
    using ne by (metis hd_append2 rev_is_Nil_conv strip_by_def)
  with hd show "\<not> p (hd (strip_by p s))" by simp
qed

lemma strip_by_id: "s = [] \<or> (\<not> p (hd s) \<and> \<not> p (last s)) \<Longrightarrow> strip_by p s = s"
  by (auto simp: strip_by_def dropWhile_eq_self hd_rev)

lemma strip_by_idem [simp]: "strip_by p (strip_by p s) = strip_by p s"
  by (rule strip_by_id) (metis strip_by_ends)

lemma set_strip_by: "set (strip_by p s) \<subseteq> set s"
  unfolding strip_by_def by (metis set_dropWhileD set_rev subsetI)

lemma strip_by_all: "(\<And>c. c \<in> set s \<Longrightarrow> p c) \<Longrightarrow> strip_by p s = []"
  by (simp add: strip_by_def dropWhile_eq_Nil_conv [THEN iffD2])

text \<open>\<open>str.startswith\<close> is \<open>prefix\<close>. \<open>str.split()\<close>: the maximal runs of
  non-whitespace; \<open>re.findall\<close> of a one-class pattern \<open>[...]+\<close> is the same on the class.\<close>

fun runs_of :: "(uchar \<Rightarrow> bool) \<Rightarrow> pystr \<Rightarrow> pystr \<Rightarrow> pystr list" where
  "runs_of p acc [] = (if acc = [] then [] else [rev acc])"
| "runs_of p acc (c # cs) =
     (if p c then runs_of p (c # acc) cs
      else if acc = [] then runs_of p [] cs
      else rev acc # runs_of p [] cs)"

definition findall_runs :: "(uchar \<Rightarrow> bool) \<Rightarrow> pystr \<Rightarrow> pystr list" where
  "findall_runs p s = runs_of p [] s"

definition split_ws :: "pystr \<Rightarrow> pystr list" where
  "split_ws s = findall_runs (\<lambda>c. \<not> is_space c) s"

text \<open>\<open>sep.join(ss)\<close>, and \<open>s.split(c)\<close> for a single character.\<close>

fun join :: "pystr \<Rightarrow> pystr list \<Rightarrow> pystr" where
  "join sep [] = []"
| "join sep [s] = s"
| "join sep (s # t # ss) = s @ sep @ join sep (t # ss)"

fun split_on :: "uchar \<Rightarrow> pystr \<Rightarrow> pystr list" where
  "split_on c [] = [[]]"
| "split_on c (x # xs) =
     (if x = c then [] # split_on c xs
      else (case split_on c xs of [] \<Rightarrow> [[x]] | p # ps \<Rightarrow> (x # p) # ps))"

lemma split_on_Nil [simp]: "split_on c s \<noteq> []"
  by (cases s) (auto split: list.splits)

lemma join_Cons: "join sep (s # ss) = s @ (if ss = [] then [] else sep @ join sep ss)"
  by (cases ss) simp_all

lemma join_split_on [simp]: "join [c] (split_on c s) = s"
proof (induction s)
  case (Cons x s)
  then show ?case
    by (cases "split_on c s"; cases "tl (split_on c s)") (auto simp: join_Cons)
qed simp

lemma split_on_piece: "c \<notin> set s \<Longrightarrow> split_on c s = [s]"
  by (induction s) auto

lemma split_on_append: "c \<notin> set s \<Longrightarrow> split_on c (s @ c # t) = s # split_on c t"
  by (induction s) auto

lemma split_on_pieces: "p \<in> set (split_on c s) \<Longrightarrow> c \<notin> set p"
  by (induction s arbitrary: p) (auto split: if_splits list.splits)

definition is_ascii :: "pystr \<Rightarrow> bool" where
  "is_ascii s \<longleftrightarrow> list_all (\<lambda>c. c < 128) s"

section \<open>Integers and their text\<close>

fun nat_digits :: "nat \<Rightarrow> pystr" where
  "nat_digits n =
     (if n < 10 then [48 + int n] else nat_digits (n div 10) @ [48 + int (n mod 10)])"

declare nat_digits.simps [simp del]

definition int_str :: "int \<Rightarrow> pystr" where
  "int_str z = (if z < 0 then 45 # nat_digits (nat (- z)) else nat_digits (nat z))"

text \<open>The first code points of the blocks of ten decimal digits (category Nd) outside ASCII.\<close>

definition digit_zeros :: "int list" where
  "digit_zeros = [1632, 1776, 1984, 2406, 2534, 2662, 2790, 2918, 3046, 3174, 3302, 3430, 3558,
     3664, 3792, 3872, 4160, 4240, 6112, 6160, 6470, 6608, 6784, 6800, 6992, 7088, 7232, 7248,
     42528, 43216, 43264, 43472, 43504, 43600, 44016, 65296, 66720, 68912, 69734, 69872, 69942,
     70096, 70384, 70736, 70864, 71248, 71360, 71472, 71904, 72016, 72784, 73040, 73120, 73552,
     92768, 92864, 93008, 120782, 120792, 120802, 120812, 120822, 123200, 123632, 124144, 125264,
     130032]"

definition digit_value :: "uchar \<Rightarrow> int option" where
  "digit_value c =
     (if 48 \<le> c \<and> c \<le> 57 then Some (c - 48)
      else map_option (\<lambda>z. c - z) (find (\<lambda>z. z \<le> c \<and> c < z + 10) digit_zeros))"

text \<open>\<open>int(s)\<close>: surrounding whitespace dropped (of ASCII, only tab to carriage return and
  the space), one sign, digits with single underscores between them; \<open>None\<close> is ValueError,
  which it also raises past 4300 digits.\<close>

definition int_space :: "uchar \<Rightarrow> bool" where
  "int_space c \<longleftrightarrow> (9 \<le> c \<and> c \<le> 13) \<or> c = 32 \<or> (c > 127 \<and> is_space c)"

fun digits_of :: "bool \<Rightarrow> pystr \<Rightarrow> int list option" where
  "digits_of after_digit [] = (if after_digit then Some [] else None)"
| "digits_of after_digit (c # cs) =
     (case digit_value c of
        Some d \<Rightarrow> map_option ((#) d) (digits_of True cs)
      | None \<Rightarrow> if c = 95 \<and> after_digit then digits_of False cs else None)"

definition digits_value :: "int list \<Rightarrow> int" where
  "digits_value ds = foldl (\<lambda>a d. 10 * a + d) 0 ds"

definition max_str_digits :: nat where
  "max_str_digits = 4300"

lemma max_str_digits_pos: "0 < max_str_digits"
  by (simp add: max_str_digits_def)

definition unsigned_int :: "pystr \<Rightarrow> int option" where
  "unsigned_int s =
     (case digits_of False s of
        None \<Rightarrow> None
      | Some ds \<Rightarrow> if length ds > max_str_digits then None else Some (digits_value ds))"

definition py_int :: "pystr \<Rightarrow> int option" where
  "py_int s =
     (case strip_by int_space s of
        [] \<Rightarrow> None
      | c # cs \<Rightarrow>
          if c = 45 then map_option uminus (unsigned_int cs)
          else if c = 43 then unsigned_int cs
          else unsigned_int (c # cs))"

lemma nat_digits_Nil [simp]: "nat_digits n \<noteq> []"
  by (subst nat_digits.simps) simp

lemma nat_digits_range: "c \<in> set (nat_digits n) \<Longrightarrow> 48 \<le> c \<and> c \<le> 57"
proof (induction n rule: nat_digits.induct)
  case (1 n)
  then show ?case
    by (cases "n < 10") (auto simp: nat_digits.simps [of n])
qed

lemma digits_of_ascii:
  "(\<And>c. c \<in> set s \<Longrightarrow> 48 \<le> c \<and> c \<le> 57) \<Longrightarrow> s \<noteq> [] \<or> b
   \<Longrightarrow> digits_of b s = Some (map (\<lambda>c. c - 48) s)"
  by (induction s arbitrary: b) (auto simp: digit_value_def)

lemma digits_value_snoc: "digits_value (ds @ [d]) = 10 * digits_value ds + d"
  by (simp add: digits_value_def)

lemma digits_value_nat_digits: "digits_value (map (\<lambda>c. c - 48) (nat_digits n)) = int n"
proof (induction n rule: nat_digits.induct)
  case (1 n)
  show ?case
  proof (cases "n < 10")
    case True
    then show ?thesis by (simp add: nat_digits.simps [of n] digits_value_def)
  next
    case False
    with 1 have "digits_value (map (\<lambda>c. c - 48) (nat_digits n)) = 10 * int (n div 10) + int (n mod 10)"
      by (simp add: nat_digits.simps [of n] digits_value_snoc)
    then show ?thesis by presburger
  qed
qed

lemma length_nat_digits: "n < 10 ^ k \<Longrightarrow> 0 < k \<Longrightarrow> length (nat_digits n) \<le> k"
proof (induction n arbitrary: k rule: nat_digits.induct)
  case (1 n)
  show ?case
  proof (cases "n < 10")
    case True
    with 1(3) show ?thesis by (simp add: nat_digits.simps [of n])
  next
    case False
    with 1(2,3) obtain j where k: "k = Suc j" "0 < j"
      by (cases k; cases "k - 1") auto
    with 1(2) have "n div 10 < 10 ^ j" by (simp add: less_mult_imp_div_less mult.commute)
    with 1(1) False k(2) have "length (nat_digits (n div 10)) \<le> j" by blast
    with False k(1) show ?thesis by (simp add: nat_digits.simps [of n])
  qed
qed

lemma py_int_nat_digits:
  assumes "length (nat_digits n) \<le> max_str_digits"
  shows "py_int (nat_digits n) = Some (int n)"
proof -
  obtain c cs where ds: "nat_digits n = c # cs" by (cases "nat_digits n") auto
  have in_range: "48 \<le> c \<and> c \<le> 57" using nat_digits_range [of c n] ds by simp
  have ends: "\<not> int_space (hd (nat_digits n)) \<and> \<not> int_space (last (nat_digits n))"
    using nat_digits_range [of "hd (nat_digits n)" n] nat_digits_range [of "last (nat_digits n)" n]
    by (auto simp: int_space_def)
  then have strip: "strip_by int_space (nat_digits n) = nat_digits n"
    by (intro strip_by_id) simp
  have "unsigned_int (nat_digits n) = Some (int n)"
    using digits_of_ascii [of "nat_digits n" False] nat_digits_range assms
    by (simp add: unsigned_int_def digits_value_nat_digits)
  then show ?thesis
    using in_range strip ds by (simp add: py_int_def)
qed

section \<open>Lists\<close>

text \<open>\<open>xs[i:j]\<close>: a negative index counts from the end, and both are clamped.\<close>

definition slice_index :: "nat \<Rightarrow> int \<Rightarrow> nat" where
  "slice_index n i = (if i < 0 then nat (i + int n) else min (nat i) n)"

definition py_slice :: "'a list \<Rightarrow> int \<Rightarrow> int \<Rightarrow> 'a list" where
  "py_slice xs i j =
     (let a = slice_index (length xs) i; b = slice_index (length xs) j
      in take (b - a) (drop a xs))"

lemma set_py_slice: "set (py_slice xs i j) \<subseteq> set xs"
  by (auto simp: py_slice_def Let_def dest: in_set_takeD in_set_dropD)

lemma py_slice_nonneg:
  "0 \<le> i \<Longrightarrow> 0 \<le> k \<Longrightarrow> py_slice xs i (i + k) = take (nat k) (drop (nat i) xs)"
  by (auto simp: py_slice_def slice_index_def Let_def nat_add_distrib min_def not_le
      intro!: take_all_iff [THEN iffD2])

lemma py_slice_take: "0 \<le> n \<Longrightarrow> py_slice xs 0 n = take (nat n) xs"
  using py_slice_nonneg [of 0 n xs] by simp

section \<open>Dictionaries\<close>

text \<open>
  A \<open>dict\<close> keeps its keys in insertion order: an association list with distinct keys.
  Assigning to a present key keeps its place, a new key goes to the end.
\<close>

type_synonym ('k, 'v) dict = "('k \<times> 'v) list"

abbreviation dict_set :: "'k \<Rightarrow> 'v \<Rightarrow> ('k, 'v) dict \<Rightarrow> ('k, 'v) dict" where
  "dict_set \<equiv> AList.update"

abbreviation dict_pop :: "'k \<Rightarrow> ('k, 'v) dict \<Rightarrow> ('k, 'v) dict" where
  "dict_pop \<equiv> AList.delete"

definition dict_update :: "('k, 'v) dict \<Rightarrow> ('k, 'v) dict \<Rightarrow> ('k, 'v) dict" where
  "dict_update d e = fold (\<lambda>(k, v). dict_set k v) e d"

definition wf_dict :: "('k, 'v) dict \<Rightarrow> bool" where
  "wf_dict d \<longleftrightarrow> distinct (map fst d)"

definition dict_keys :: "('k, 'v) dict \<Rightarrow> 'k list" where
  "dict_keys d = map fst d"

text \<open>\<open>dict.fromkeys(xs)\<close> keeps the first occurrence of each element.\<close>

fun unique_from :: "'a set \<Rightarrow> 'a list \<Rightarrow> 'a list" where
  "unique_from seen [] = []"
| "unique_from seen (x # xs) =
     (if x \<in> seen then unique_from seen xs else x # unique_from (insert x seen) xs)"

definition fromkeys :: "'a list \<Rightarrow> 'a list" where
  "fromkeys xs = unique_from {} xs"

lemma set_unique_from: "set (unique_from seen xs) = set xs - seen"
  by (induction xs arbitrary: seen) auto

lemma set_fromkeys [simp]: "set (fromkeys xs) = set xs"
  by (simp add: fromkeys_def set_unique_from)

lemma distinct_fromkeys [simp]: "distinct (fromkeys xs)"
proof -
  have "distinct (unique_from seen xs)" for seen
    by (induction xs arbitrary: seen) (auto simp: set_unique_from)
  then show ?thesis by (simp add: fromkeys_def)
qed

lemma wf_dict_Nil [simp]: "wf_dict []"
  by (simp add: wf_dict_def)

lemma wf_dict_set [simp]: "wf_dict d \<Longrightarrow> wf_dict (dict_set k v d)"
  by (simp add: wf_dict_def distinct_update)

lemma wf_dict_pop [simp]: "wf_dict d \<Longrightarrow> wf_dict (dict_pop k d)"
  by (simp add: wf_dict_def distinct_delete)

lemma wf_dict_filter [simp]: "wf_dict d \<Longrightarrow> wf_dict (filter p d)"
  by (simp add: wf_dict_def distinct_map_filter)

lemma map_of_filter_key: "map_of (filter (\<lambda>(k, v). p k) d) = (map_of d) |` {k. p k}"
  by (induction d) (auto simp: restrict_map_def fun_eq_iff)

lemma map_of_map_snd: "map_of (map (\<lambda>(k, v). (k, f v)) d) k = map_option f (map_of d k)"
  by (induction d) auto

lemma wf_dict_map_snd [simp]: "wf_dict (map (\<lambda>(k, v). (k, f v)) d) = wf_dict d"
  by (simp add: wf_dict_def comp_def case_prod_beta)

lemma dict_set_fresh: "k \<notin> fst ` set d \<Longrightarrow> dict_set k v d = d @ [(k, v)]"
  by (induction d) auto

lemma set_dict_set: "set (dict_set k v d) \<subseteq> insert (k, v) (set d)"
  by (induction d) auto

lemma map_of_dict_set [simp]: "map_of (dict_set k v d) = (map_of d)(k \<mapsto> v)"
  by (simp add: update_conv')

lemma map_of_dict_pop [simp]: "map_of (dict_pop k d) = (map_of d)(k := None)"
  by (simp add: delete_conv')

lemma dict_update_Cons [simp]: "dict_update d ((k, v) # e) = dict_update (dict_set k v d) e"
  by (simp add: dict_update_def)

lemma dict_update_Nil [simp]: "dict_update d [] = d"
  by (simp add: dict_update_def)

lemma wf_dict_update [simp]: "wf_dict d \<Longrightarrow> wf_dict (dict_update d e)"
  by (induction e arbitrary: d) auto

lemma map_of_dict_update: "wf_dict e \<Longrightarrow> map_of (dict_update d e) = map_of d ++ map_of e"
proof (induction e arbitrary: d)
  case Nil
  then show ?case by simp
next
  case (Cons p e)
  obtain k v where p: "p = (k, v)" by (cases p)
  from Cons.prems p have "map_of e k = None" and "wf_dict e"
    by (auto simp: wf_dict_def map_of_eq_None_iff)
  then show ?case
    using Cons.IH p by (auto simp: fun_eq_iff map_add_def split: option.splits)
qed

lemma dom_dict_update: "fst ` set (dict_update d e) = fst ` set d \<union> fst ` set e"
  by (induction e arbitrary: d) (simp_all add: dom_update split_beta dict_update_def)

lemma map_of_wf_in_set: "wf_dict d \<Longrightarrow> (k, v) \<in> set d \<longleftrightarrow> map_of d k = Some v"
  by (auto simp: wf_dict_def map_of_eq_Some_iff)

section \<open>Computations that pass a state and may raise\<close>

type_synonym ('s, 'e, 'a) action = "'s \<Rightarrow> ('e + 'a) \<times> 's"

definition ret :: "'a \<Rightarrow> ('s, 'e, 'a) action" where
  "ret x s = (Inr x, s)"

definition raise :: "'e \<Rightarrow> ('s, 'e, 'a) action" where
  "raise e s = (Inl e, s)"

definition seq :: "('s, 'e, 'a) action \<Rightarrow> ('a \<Rightarrow> ('s, 'e, 'b) action) \<Rightarrow> ('s, 'e, 'b) action" where
  "seq m f s = (case m s of (Inl e, t) \<Rightarrow> (Inl e, t) | (Inr x, t) \<Rightarrow> f x t)"

text \<open>\<open>try: m except e: h e\<close>; a handler that does not want the exception raises it again.\<close>

definition catch :: "('s, 'e, 'a) action \<Rightarrow> ('e \<Rightarrow> ('s, 'e, 'a) action) \<Rightarrow> ('s, 'e, 'a) action" where
  "catch m h s = (case m s of (Inl e, t) \<Rightarrow> h e t | (Inr x, t) \<Rightarrow> (Inr x, t))"

definition from_result :: "'e + 'a \<Rightarrow> ('s, 'e, 'a) action" where
  "from_result r s = (r, s)"

definition modify :: "('s \<Rightarrow> 's) \<Rightarrow> ('s, 'e, unit) action" where
  "modify f s = (Inr (), f s)"

definition reads :: "('s \<Rightarrow> ('s, 'e, 'a) action) \<Rightarrow> ('s, 'e, 'a) action" where
  "reads f s = f s s"

fun for_each :: "('a \<Rightarrow> ('s, 'e, 'b) action) \<Rightarrow> 'a list \<Rightarrow> ('s, 'e, 'b list) action" where
  "for_each f [] = ret []"
| "for_each f (x # xs) = seq (f x) (\<lambda>y. seq (for_each f xs) (\<lambda>ys. ret (y # ys)))"

text \<open>Fallible functions without a state return \<open>'e + 'a\<close>.\<close>

definition res_bind :: "'e + 'a \<Rightarrow> ('a \<Rightarrow> 'e + 'b) \<Rightarrow> 'e + 'b" where
  "res_bind r f = (case r of Inl e \<Rightarrow> Inl e | Inr x \<Rightarrow> f x)"

definition check_that :: "bool \<Rightarrow> 'e \<Rightarrow> 'e + unit" where
  "check_that b e = (if b then Inr () else Inl e)"

lemma res_bind_simps [simp]: "res_bind (Inl e) f = Inl e" "res_bind (Inr x) f = f x"
  by (simp_all add: res_bind_def)

lemma res_bind_eq_Inr: "res_bind r f = Inr y \<longleftrightarrow> (\<exists>x. r = Inr x \<and> f x = Inr y)"
  by (cases r) auto

lemma res_bind_eq_Inl: "res_bind r f = Inl e \<longleftrightarrow> r = Inl e \<or> (\<exists>x. r = Inr x \<and> f x = Inl e)"
  by (cases r) auto

lemma check_that_simps [simp]:
  "check_that b e = Inr w \<longleftrightarrow> b" "check_that b e = Inl e' \<longleftrightarrow> \<not> b \<and> e' = e"
  "check_that True e = Inr ()" "check_that False e = Inl e"
  by (auto simp: check_that_def)

lemma ret_run [act_simps]: "ret x s = (Inr x, s)" by (simp add: ret_def)
lemma raise_run [act_simps]: "raise e s = (Inl e, s)" by (simp add: raise_def)
lemma modify_run [act_simps]: "modify f s = (Inr (), f s)" by (simp add: modify_def)
lemma reads_run [act_simps]: "reads f s = f s s" by (simp add: reads_def)
lemma from_result_run [act_simps]: "from_result r s = (r, s)" by (simp add: from_result_def)

lemma seq_run [act_simps]:
  "seq m f s = (case m s of (Inl e, t) \<Rightarrow> (Inl e, t) | (Inr x, t) \<Rightarrow> f x t)"
  by (simp add: seq_def)

lemma catch_run [act_simps]:
  "catch m h s = (case m s of (Inl e, t) \<Rightarrow> h e t | (Inr x, t) \<Rightarrow> (Inr x, t))"
  by (simp add: catch_def)

section \<open>Weakest preconditions\<close>

definition wp :: "('s, 'e, 'a) action \<Rightarrow> ('a \<Rightarrow> 's \<Rightarrow> bool) \<Rightarrow> ('e \<Rightarrow> 's \<Rightarrow> bool) \<Rightarrow> 's \<Rightarrow> bool" where
  "wp m Q E s = (case m s of (Inl e, t) \<Rightarrow> E e t | (Inr x, t) \<Rightarrow> Q x t)"

lemma wp_ret [wp_simps]: "wp (ret x) Q E s = Q x s"
  by (simp add: wp_def ret_def)

lemma wp_raise [wp_simps]: "wp (raise e) Q E s = E e s"
  by (simp add: wp_def raise_def)

lemma wp_raise_any [wp_simps]: "wp (raise e) Q E = E e"
  by (rule ext) (rule wp_raise)

lemma wp_seq [wp_simps]: "wp (seq m f) Q E s = wp m (\<lambda>x. wp (f x) Q E) E s"
  by (simp add: wp_def seq_def split: prod.splits sum.splits)

lemma wp_catch [wp_simps]: "wp (catch m h) Q E s = wp m Q (\<lambda>e. wp (h e) Q E) s"
  by (simp add: wp_def catch_def split: prod.splits sum.splits)

lemma wp_from_result [wp_simps]:
  "wp (from_result r) Q E s = (case r of Inl e \<Rightarrow> E e s | Inr x \<Rightarrow> Q x s)"
  by (simp add: wp_def from_result_def)

lemma wp_modify [wp_simps]: "wp (modify f) Q E s = Q () (f s)"
  by (simp add: wp_def modify_def)

lemma wp_reads [wp_simps]: "wp (reads f) Q E s = wp (f s) Q E s"
  by (simp add: wp_def reads_def)

lemma wp_if [wp_simps]: "wp (if b then m else n) Q E s = (if b then wp m Q E s else wp n Q E s)"
  by simp

lemma wp_run: "wp m Q E s \<Longrightarrow> m s = (r, t) \<Longrightarrow> (case r of Inl e \<Rightarrow> E e t | Inr x \<Rightarrow> Q x t)"
  by (simp add: wp_def)

lemma wp_mono:
  "wp m Q E s \<Longrightarrow> (\<And>x t. Q x t \<Longrightarrow> Q' x t) \<Longrightarrow> (\<And>e t. E e t \<Longrightarrow> E' e t) \<Longrightarrow> wp m Q' E' s"
  by (auto simp: wp_def split: prod.splits sum.splits)

lemma wp_result: "wp m Q E s \<Longrightarrow> m s = (Inr x, t) \<Longrightarrow> Q x t"
  by (simp add: wp_def)

lemma wp_error: "wp m Q E s \<Longrightarrow> m s = (Inl e, t) \<Longrightarrow> E e t"
  by (simp add: wp_def)

lemma wp_true [simp]: "wp m (\<lambda>_ _. True) (\<lambda>_ _. True) s"
  by (simp add: wp_def split: prod.splits sum.splits)

text \<open>A computation keeps a predicate of the state, whether it returns or raises.\<close>

definition keeps :: "('s \<Rightarrow> bool) \<Rightarrow> ('s, 'e, 'a) action \<Rightarrow> bool" where
  "keeps I m \<longleftrightarrow> (\<forall>s. I s \<longrightarrow> I (snd (m s)))"

named_theorems keeps_rules \<open>computations that keep a predicate\<close>

lemma keeps_wp: "keeps I m \<longleftrightarrow> (\<forall>s. I s \<longrightarrow> wp m (\<lambda>_. I) (\<lambda>_. I) s)"
proof -
  have "I (snd (m s)) = wp m (\<lambda>_. I) (\<lambda>_. I) s" for s
    by (simp add: wp_def split: prod.splits sum.splits)
  then show ?thesis by (simp add: keeps_def)
qed

lemma keeps_ret [keeps_rules]: "keeps I (ret x)"
  by (simp add: keeps_def ret_def)

lemma keeps_raise [keeps_rules]: "keeps I (raise e)"
  by (simp add: keeps_def raise_def)

lemma keeps_from_result [keeps_rules]: "keeps I (from_result r)"
  by (simp add: keeps_def from_result_def)

lemma keeps_seq [keeps_rules]: "keeps I m \<Longrightarrow> (\<And>x. keeps I (f x)) \<Longrightarrow> keeps I (seq m f)"
  by (simp add: keeps_wp wp_simps) (metis (mono_tags, lifting) wp_mono)

lemma keeps_catch [keeps_rules]: "keeps I m \<Longrightarrow> (\<And>e. keeps I (h e)) \<Longrightarrow> keeps I (catch m h)"
  by (simp add: keeps_wp wp_simps) (metis (mono_tags, lifting) wp_mono)

lemma keeps_reads [keeps_rules]: "(\<And>s. keeps I (f s)) \<Longrightarrow> keeps I (reads f)"
  by (simp add: keeps_def reads_def)

lemma keeps_for_each [keeps_rules]: "(\<And>x. keeps I (f x)) \<Longrightarrow> keeps I (for_each f xs)"
  by (induction xs) (auto intro!: keeps_rules)

lemma keeps_if [keeps_rules]: "(b \<Longrightarrow> keeps I m) \<Longrightarrow> (\<not> b \<Longrightarrow> keeps I n) \<Longrightarrow> keeps I (if b then m else n)"
  by simp

lemma keeps_case_option [keeps_rules]:
  "keeps I m \<Longrightarrow> (\<And>x. keeps I (f x)) \<Longrightarrow> keeps I (case x of None \<Rightarrow> m | Some x \<Rightarrow> f x)"
  by (simp split: option.splits)

lemma keeps_case_sum [keeps_rules]:
  "(\<And>x. keeps I (f x)) \<Longrightarrow> (\<And>x. keeps I (g x)) \<Longrightarrow> keeps I (case r of Inl x \<Rightarrow> f x | Inr x \<Rightarrow> g x)"
  by (cases r) simp_all

lemma keeps_case_prod [keeps_rules]:
  "(\<And>x y. keeps I (f x y)) \<Longrightarrow> keeps I (case r of (x, y) \<Rightarrow> f x y)"
  by (cases r) simp

text \<open>What follows a check may rely on it.\<close>

lemma keeps_seq_result: "(\<And>x. r = Inr x \<Longrightarrow> keeps I (f x)) \<Longrightarrow> keeps I (seq (from_result r) f)"
  by (cases r) (simp_all add: keeps_def seq_def from_result_def)

lemma keepsD: "keeps I m \<Longrightarrow> I s \<Longrightarrow> m s = (r, t) \<Longrightarrow> I t"
  by (metis keeps_def snd_conv)

text \<open>What a computation returns, when it does, satisfies \<open>Q\<close>, from every state.\<close>

definition ensures :: "('s, 'e, 'a) action \<Rightarrow> ('a \<Rightarrow> bool) \<Rightarrow> bool" where
  "ensures m Q \<longleftrightarrow> (\<forall>s x t. m s = (Inr x, t) \<longrightarrow> Q x)"

named_theorems ensures_rules \<open>what computations return\<close>

lemma ensures_seq [ensures_rules]: "(\<And>x. ensures (f x) Q) \<Longrightarrow> ensures (seq m f) Q"
  by (fastforce simp: ensures_def seq_def split: prod.splits sum.splits)

lemma ensures_seq_with: "ensures m R \<Longrightarrow> (\<And>x. R x \<Longrightarrow> ensures (f x) Q) \<Longrightarrow> ensures (seq m f) Q"
  by (fastforce simp: ensures_def seq_def split: prod.splits sum.splits)

lemma ensures_ret [ensures_rules]: "Q x \<Longrightarrow> ensures (ret x) Q"
  by (simp add: ensures_def ret_def)

lemma ensures_raise [ensures_rules]: "ensures (raise e) Q"
  by (simp add: ensures_def raise_def)

lemma ensures_if [ensures_rules]:
  "(b \<Longrightarrow> ensures m Q) \<Longrightarrow> (\<not> b \<Longrightarrow> ensures n Q) \<Longrightarrow> ensures (if b then m else n) Q"
  by simp

lemma ensures_mono: "ensures m R \<Longrightarrow> (\<And>x. R x \<Longrightarrow> Q x) \<Longrightarrow> ensures m Q"
  by (simp add: ensures_def)

lemma ensuresD: "ensures m Q \<Longrightarrow> m s = (Inr x, t) \<Longrightarrow> Q x"
  unfolding ensures_def by blast

end
