(* ===== verification/Types.thy ===== *)
theory Types
  imports Py Complex_Main
begin

text \<open>
  \<open>memcp/types.py\<close> and \<open>memcp/identity.py\<close>: the JSON values a client or a store hands in, the
  exceptions, the argument checks, the canonical shapes (\<open>Memory\<close>, \<open>System\<close>, \<open>AddResult\<close>,
  \<open>ListResult\<close>, \<open>HistoryEntry\<close>, \<open>EntitiesResult\<close>, \<open>HealthStatus\<close>), cursor pagination, and the
  current request's key. The lemmas: what each check accepts, and that following the cursors of
  \<open>paginate\<close> from the start enumerates the list.
\<close>

section \<open>Values\<close>

text \<open>
  A float as the code sees it, through \<open>str\<close>, \<open>json.dumps\<close> and \<open>math.isfinite\<close> only: a finite
  one is its \<open>repr\<close>. A JSON object is a dictionary in the order it was written.
\<close>

datatype pyfloat = Finite pystr | Infinite | Neg_infinite | Not_a_number

datatype json =
    JNull
  | JBool bool
  | JInt int
  | JFloat pyfloat
  | JStr pystr
  | JList "json list"
  | JObj "(pystr \<times> json) list"

type_synonym scope = "(pystr, json) dict"
type_synonym metadata = "(pystr, json) dict"

section \<open>Errors\<close>

text \<open>
  A message is named by its template in the source, with the values the f-string quotes.
  \<open>Raw\<close> is a store's own text, \<open>Cut n m\<close> the first \<open>n\<close> characters of \<open>m\<close>.
\<close>

datatype arg_message =
    Invalid_memory_id | Content_empty | Content_too_long | Query_empty | Query_too_long
  | Limit_below_one | Limit_above_max | Nested_filters "pystr list" | Invalid_cursor pystr

datatype scope_message =
    Scope_not_object | Scope_sets_user_id | Scope_too_many_keys | Scope_key_too_long pystr
  | Scope_value_type pystr json | Scope_not_finite pystr | Scope_not_concrete pystr
  | Scope_value_too_long pystr | Agent_id_empty pystr | Scope_whitespace_ends pystr
  | Run_id_whitespace | Scope_unknown_keys "pystr list" "pystr list"

datatype metadata_message =
    Reserved_key pystr | Set_and_removed "pystr list" | Key_too_long pystr | Key_null pystr
  | Key_value_type pystr | Metadata_too_big nat | Unicode_encode_error | Int_too_long

datatype policy_message =
    Memory_not_found | Internal_check_failed | Partition_unusable pystr | Forbidden_write
  | Threshold_range | Update_needs_change | Scope_missing | Import_empty | Import_too_many
  | On_conflict_choice | Overwrite_unsupported

datatype transfer_message =
    On_conflict_unknown | On_conflict_needs_update | Operator_blank | Audit_unrecorded
  | Missing_content | Metadata_not_object | Stored_nothing | Import_entry nat

datatype mem0_message =
    Scope_value_wildcard | Partition_inexact pystr | Delete_all_scope "pystr list"

datatype keys_message =
    Keys_unreadable pystr | Keys_not_utf8 | Keys_not_toml pystr | Keys_invalid "(pystr \<times> pystr) list"
  | Keys_same_name nat nat pystr | Key_lists_secret_twice nat | Keys_share_secret nat nat

datatype config_message =
    Backend_unknown pystr | Mem0_base_required | Mem0_key_required | Mem0_both_required
  | Variable_replaced pystr | Exposed_without_keys pystr

datatype message =
    Arg_msg arg_message | Scope_msg scope_message | Metadata_msg metadata_message
  | Policy_msg policy_message | Transfer_msg transfer_message | Mem0_msg mem0_message
  | Keys_msg pystr keys_message | Config_msg config_message | Invalid_token
  | Backend_timed_out | Backend_failed int | Raw pystr | Cut nat message
  | Unusable_space pystr message
  | Unknown_retrieval "pystr option" | Unknown_capabilities "pystr list"

datatype error_code =
    Validation_error | Invalid_scope | Nested_filter | Scope_required | Forbidden | Not_found
  | Not_supported | Internal_error

fun code_text :: "error_code \<Rightarrow> pystr" where
  "code_text Validation_error = u ''validation_error''"
| "code_text Invalid_scope = u ''invalid_scope''"
| "code_text Nested_filter = u ''nested_filter''"
| "code_text Scope_required = u ''scope_required''"
| "code_text Forbidden = u ''forbidden''"
| "code_text Not_found = u ''not_found''"
| "code_text Not_supported = u ''not_supported''"
| "code_text Internal_error = u ''internal_error''"

datatype exc =
    PolicyError error_code message
  | MemoryAPIError int message
  | ValueError message
  | TypeError message
  | LookupError
  | NotImplementedError
  | AttributeError
  | KeyError
  | IntegrityError
  | OperationalError
  | ProgrammingError
  | CancelledError
  | HttpxError pystr

type_synonym 'a checked = "message + 'a"
type_synonym ('s, 'a) act = "('s, exc, 'a) action"

definition timed_out :: "int \<Rightarrow> bool" where
  "timed_out status \<longleftrightarrow> status = 408"

definition client_message :: "int \<Rightarrow> message" where
  "client_message status = (if timed_out status then Backend_timed_out else Backend_failed status)"

text \<open>What the server log receives besides the audit records.\<close>

datatype log_event =
    Isolation_violation pystr pystr pystr "pystr option" "json option"
  | Dropped_outside_scope pystr
  | Backend_error_logged int message message
  | Backend_errors_counted nat
  | Space_not_portable pystr
  | Tool_called pystr bool
  | Tool_raised pystr

definition MAX_LOGGED_BODY :: nat where "MAX_LOGGED_BODY = 2000"

definition log_backend_error :: "int \<Rightarrow> message \<Rightarrow> message \<Rightarrow> log_event" where
  "log_backend_error status body location = Backend_error_logged status location (Cut MAX_LOGGED_BODY body)"

text \<open>\<open>canonical_error\<close>: the error object a client gets.\<close>

record error_reply =
  ce_code :: pystr
  ce_message :: message
  ce_retry :: bool

definition canonical_error :: "pystr \<Rightarrow> message \<Rightarrow> bool \<Rightarrow> error_reply" where
  "canonical_error code m retry = \<lparr>ce_code = code, ce_message = m, ce_retry = retry\<rparr>"

section \<open>Argument checks\<close>

definition MAX_CONTENT_LENGTH :: nat where "MAX_CONTENT_LENGTH = 100000"
definition MAX_SCOPE_KEYS :: nat where "MAX_SCOPE_KEYS = 10"
definition MAX_SCOPE_KEY_LENGTH :: nat where "MAX_SCOPE_KEY_LENGTH = 64"
definition MAX_SCOPE_VALUE_LENGTH :: nat where "MAX_SCOPE_VALUE_LENGTH = 256"
definition MAX_QUERY_LENGTH :: nat where "MAX_QUERY_LENGTH = 10000"
definition MAX_LIMIT :: int where "MAX_LIMIT = 1000"
definition MAX_EXPORT :: int where "MAX_EXPORT = 10000"
definition MAX_IMPORT :: nat where "MAX_IMPORT = 1000"
definition MAX_METADATA_BYTES :: nat where "MAX_METADATA_BYTES = 16 * 1024"
definition MAX_METADATA_KEY_LENGTH :: nat where "MAX_METADATA_KEY_LENGTH = 64"

definition RESERVED_METADATA_PREFIX :: pystr where
  "RESERVED_METADATA_PREFIX = u ''_memcp_''"

definition SYSTEM_METADATA_KEY :: pystr where
  "SYSTEM_METADATA_KEY = RESERVED_METADATA_PREFIX @ u ''system''"

definition is_id_char :: "uchar \<Rightarrow> bool" where
  "is_id_char c \<longleftrightarrow> (97 \<le> c \<and> c \<le> 122) \<or> (65 \<le> c \<and> c \<le> 90) \<or> (48 \<le> c \<and> c \<le> 57) \<or> c = 95 \<or> c = 45"

definition is_memory_id :: "pystr \<Rightarrow> bool" where
  "is_memory_id s \<longleftrightarrow> 1 \<le> length s \<and> length s \<le> 128 \<and> list_all is_id_char s"

definition validate_memory_id :: "pystr \<Rightarrow> pystr checked" where
  "validate_memory_id memory_id =
     (if \<not> is_memory_id memory_id then Inl (Arg_msg Invalid_memory_id) else Inr memory_id)"

definition validate_content :: "pystr \<Rightarrow> unit checked" where
  "validate_content content =
     (if content = [] \<or> strip content = [] then Inl (Arg_msg Content_empty)
      else if length content > MAX_CONTENT_LENGTH then Inl (Arg_msg Content_too_long)
      else Inr ())"

definition validate_query :: "pystr \<Rightarrow> unit checked" where
  "validate_query query =
     (if query = [] \<or> strip query = [] then Inl (Arg_msg Query_empty)
      else if length query > MAX_QUERY_LENGTH then Inl (Arg_msg Query_too_long)
      else Inr ())"

definition validate_limit :: "int \<Rightarrow> unit checked" where
  "validate_limit limit =
     (if limit < 1 then Inl (Arg_msg Limit_below_one)
      else if limit > MAX_LIMIT then Inl (Arg_msg Limit_above_max)
      else Inr ())"

fun float_str :: "pyfloat \<Rightarrow> pystr" where
  "float_str (Finite r) = r"
| "float_str Infinite = u ''inf''"
| "float_str Neg_infinite = u ''-inf''"
| "float_str Not_a_number = u ''nan''"

text \<open>
  \<open>scope_text\<close>: \<open>str\<close> of a scalar, booleans in lowercase. A list or an object never gets
  there (\<open>validate_scope\<close> refuses both and the stores keep text), so its \<open>repr\<close> is left open. An
  integer is taken to have at most 4300 digits, past which \<open>str\<close> raises.
\<close>

fun scope_text :: "json \<Rightarrow> pystr" where
  "scope_text (JBool b) = (if b then u ''true'' else u ''false'')"
| "scope_text (JStr s) = s"
| "scope_text (JInt i) = int_str i"
| "scope_text (JFloat f) = float_str f"
| "scope_text JNull = u ''None''"
| "scope_text (JList vs) = undefined (JList vs)"
| "scope_text (JObj d) = undefined (JObj d)"

definition scope_as_text :: "scope \<Rightarrow> scope" where
  "scope_as_text scope = map (\<lambda>(k, v). (k, JStr (scope_text v))) scope"

definition is_wildcard :: "json \<Rightarrow> bool" where
  "is_wildcard v =
     (v = JNull \<or> (case v of JStr s \<Rightarrow> strip s \<in> {[], u ''*''} | _ \<Rightarrow> False))"

definition NESTED_FILTER_KEYS :: "pystr set" where
  "NESTED_FILTER_KEYS = {u ''AND'', u ''OR'', u ''NOT'', u ''and'', u ''or'', u ''not''}"

definition reject_nested_filters :: "(pystr, json) dict \<Rightarrow> unit checked" where
  "reject_nested_filters d =
     (let bad = filter (\<lambda>k. k \<in> NESTED_FILTER_KEYS) (dict_keys d)
      in if bad \<noteq> [] then Inl (Arg_msg (Nested_filters (sort bad))) else Inr ())"

definition strip_reserved_metadata :: "metadata \<Rightarrow> metadata" where
  "strip_reserved_metadata d = filter (\<lambda>(k, v). \<not> prefix RESERVED_METADATA_PREFIX k) d"

lemma validate_memory_id_ok [simp]:
  "validate_memory_id i = Inr j \<longleftrightarrow> is_memory_id i \<and> j = i"
  by (auto simp: validate_memory_id_def)

lemma validate_content_ok [simp]:
  "validate_content c = Inr w \<longleftrightarrow> strip c \<noteq> [] \<and> length c \<le> MAX_CONTENT_LENGTH"
  by (auto simp: validate_content_def strip_def)

lemma validate_query_ok [simp]:
  "validate_query q = Inr w \<longleftrightarrow> strip q \<noteq> [] \<and> length q \<le> MAX_QUERY_LENGTH"
  by (auto simp: validate_query_def strip_def)

lemma validate_limit_ok [simp]:
  "validate_limit l = Inr w \<longleftrightarrow> 1 \<le> l \<and> l \<le> MAX_LIMIT"
  by (auto simp: validate_limit_def)

lemma reject_nested_filters_ok [simp]:
  "reject_nested_filters d = Inr w \<longleftrightarrow> fst ` set d \<inter> NESTED_FILTER_KEYS = {}"
  by (auto simp: reject_nested_filters_def dict_keys_def filter_empty_conv Let_def)

lemma dict_keys_scope_as_text [simp]: "map fst (scope_as_text d) = map fst d"
  by (simp add: scope_as_text_def comp_def case_prod_beta)

lemma map_of_scope_as_text:
  "map_of (scope_as_text d) k = map_option (\<lambda>v. JStr (scope_text v)) (map_of d k)"
  by (simp add: scope_as_text_def map_of_map_snd [where f = "\<lambda>v. JStr (scope_text v)"])

lemma wf_dict_scope_as_text [simp]: "wf_dict (scope_as_text d) = wf_dict d"
  by (simp add: wf_dict_def)

lemma scope_as_text_idem: "scope_as_text (scope_as_text d) = scope_as_text d"
  by (simp add: scope_as_text_def comp_def case_prod_beta)

lemma strip_reserved_metadata_keys:
  "k \<in> fst ` set (strip_reserved_metadata d) \<longleftrightarrow>
     k \<in> fst ` set d \<and> \<not> prefix RESERVED_METADATA_PREFIX k"
  by (force simp: strip_reserved_metadata_def)

section \<open>Rounding\<close>

text \<open>\<open>round\<close>: to the nearest, ties to even.\<close>

definition round_even :: "rat \<Rightarrow> int" where
  "round_even q =
     (let f = \<lfloor>q\<rfloor>; d = q - of_int f
      in if d < 1 / 2 then f else if d > 1 / 2 then f + 1 else if even f then f else f + 1)"

section \<open>Canonical shapes\<close>

text \<open>The space is whatever the store held under it: mem0 can hand back a malformed value.\<close>

record system =
  sys_space :: "json option"
  sys_author :: "pystr option"
  sys_created_by :: "pystr option"

definition no_system :: system where
  "no_system = \<lparr>sys_space = None, sys_author = None, sys_created_by = None\<rparr>"

record memory =
  m_id :: pystr
  m_content :: pystr
  m_score :: "rat option"
  m_scope :: scope
  m_metadata :: metadata
  m_created_at :: pystr
  m_updated_at :: "pystr option"
  m_partition :: pystr
  m_system :: system

definition memory_author :: "memory \<Rightarrow> pystr option" where
  "memory_author m = sys_author (m_system m)"

datatype add_event = Ev_add | Ev_update | Ev_delete

record add_result =
  r_id :: pystr
  r_status :: pystr
  r_created_at :: pystr
  r_event :: add_event

text \<open>\<open>AddResult | list[AddResult]\<close>.\<close>

datatype add_return = One add_result | Many "add_result list"

definition add_items :: "add_return \<Rightarrow> add_result list" where
  "add_items r = (case r of One x \<Rightarrow> [x] | Many xs \<Rightarrow> xs)"

definition add_truthy :: "add_return \<Rightarrow> bool" where
  "add_truthy r = (case r of One x \<Rightarrow> True | Many xs \<Rightarrow> xs \<noteq> [])"

text \<open>The wire shape of a memory: no partition, and of the system fields the author only.\<close>

record wire =
  w_id :: pystr
  w_content :: pystr
  w_score :: "rat option"
  w_scope :: scope
  w_metadata :: metadata
  w_created_at :: pystr
  w_updated_at :: "pystr option"
  w_author :: "pystr option"

definition serialize_memory :: "memory \<Rightarrow> wire" where
  "serialize_memory m =
     \<lparr>w_id = m_id m, w_content = m_content m, w_score = m_score m, w_scope = m_scope m,
      w_metadata = m_metadata m, w_created_at = m_created_at m, w_updated_at = m_updated_at m,
      w_author = memory_author m\<rparr>"

record list_result =
  l_memories :: "memory list"
  l_next_cursor :: "pystr option"
  l_incomplete :: bool

definition paginate :: "memory list \<Rightarrow> pystr option \<Rightarrow> int \<Rightarrow> list_result checked" where
  "paginate memories cursor limit =
     (let start =
        (case cursor of
           None \<Rightarrow> Inr 0
         | Some c \<Rightarrow>
             if c = [] then Inr 0
             else (case py_int c of None \<Rightarrow> Inl (Arg_msg (Invalid_cursor c)) | Some n \<Rightarrow> Inr n))
      in res_bind start (\<lambda>start.
        let page = py_slice memories start (start + limit);
            next_cursor =
              (if start + limit < int (length memories) then Some (int_str (start + limit)) else None)
        in Inr \<lparr>l_memories = page, l_next_cursor = next_cursor, l_incomplete = False\<rparr>))"

record history_entry =
  h_action :: pystr
  h_timestamp :: pystr
  h_content_before :: "pystr option"
  h_content_after :: "pystr option"
  h_author :: "pystr option"

record entities_result =
  er_entities :: "(pystr, json) dict list"
  er_relationships :: "(pystr, json) dict list"
  er_incomplete :: bool

record health_status =
  hs_status :: pystr
  hs_backend :: pystr
  hs_latency_ms :: "rat option"

section \<open>Identity\<close>

datatype relation = Reader | Writer

text \<open>A writer may do what a reader may.\<close>

instantiation relation :: linorder
begin

definition less_eq_relation :: "relation \<Rightarrow> relation \<Rightarrow> bool" where
  "less_eq_relation r r' \<longleftrightarrow> r = Reader \<or> r' = Writer"

definition less_relation :: "relation \<Rightarrow> relation \<Rightarrow> bool" where
  "less_relation r r' \<longleftrightarrow> r = Reader \<and> r' = Writer"

instance
  by standard (auto simp: less_eq_relation_def less_relation_def intro: relation.exhaust)

end

lemma relation_le [simp]:
  "Reader \<le> r" "r \<le> Writer" "Writer \<le> r \<longleftrightarrow> r = Writer" "r \<le> Reader \<longleftrightarrow> r = Reader"
  by (auto simp: less_eq_relation_def)

record grant =
  g_space :: pystr
  g_relation :: relation

record key =
  k_name :: pystr
  k_grant :: grant

text \<open>The context variable of the current request: \<open>None\<close> when no key is set.\<close>

definition current_key :: "key option \<Rightarrow> exc + key" where
  "current_key ctx = (case ctx of None \<Rightarrow> Inl LookupError | Some k \<Rightarrow> Inr k)"

text \<open>Setting it gives the token that restores what was there before.\<close>

type_synonym key_token = "key option"

definition set_key :: "key \<Rightarrow> key option \<Rightarrow> key_token \<times> key option" where
  "set_key key ctx = (ctx, Some key)"

definition reset_key :: "key_token \<Rightarrow> key option" where
  "reset_key token = token"

section \<open>Pagination\<close>

lemma paginate_members:
  "paginate ms c l = Inr r \<Longrightarrow> set (l_memories r) \<subseteq> set ms"
  by (auto simp: paginate_def res_bind_eq_Inr Let_def dest: subsetD [OF set_py_slice])

lemma paginate_None:
  "paginate ms None l =
     Inr \<lparr>l_memories = py_slice ms 0 l,
          l_next_cursor = (if l < int (length ms) then Some (int_str l) else None),
          l_incomplete = False\<rparr>"
  by (simp add: paginate_def Let_def)

lemma paginate_at:
  assumes "length (nat_digits n) \<le> max_str_digits"
  shows "paginate ms (Some (int_str (int n))) l =
     Inr \<lparr>l_memories = py_slice ms (int n) (int n + l),
          l_next_cursor = (if int n + l < int (length ms) then Some (int_str (int n + l)) else None),
          l_incomplete = False\<rparr>"
  using py_int_nat_digits [OF assms] by (simp add: paginate_def Let_def int_str_def)

text \<open>Pages of size \<open>l\<close>, the cursor of each taken from the one before.\<close>

fun follow_pages :: "memory list \<Rightarrow> int \<Rightarrow> nat \<Rightarrow> pystr option \<Rightarrow> memory list checked" where
  "follow_pages ms l 0 c = Inr []"
| "follow_pages ms l (Suc n) c =
     res_bind (paginate ms c l) (\<lambda>r.
       case l_next_cursor r of
         None \<Rightarrow> Inr (l_memories r)
       | Some c' \<Rightarrow> res_bind (follow_pages ms l n (Some c')) (\<lambda>rest. Inr (l_memories r @ rest)))"

lemma follow_pages_from:
  assumes l: "1 \<le> l" and short: "length ms < 10 ^ max_str_digits"
    and at: "k \<le> length ms" and fuel: "length ms - k < n"
  shows "follow_pages ms l n (Some (int_str (int k))) = Inr (drop k ms)"
  using at fuel
proof (induction n arbitrary: k)
  case 0
  then show ?case by simp
next
  case (Suc n)
  obtain m where m: "l = int m" "1 \<le> m"
    using l by (metis of_nat_1 of_nat_le_iff zero_le_imp_eq_int order.trans zero_le_one)
  have "length (nat_digits k) \<le> max_str_digits"
    using Suc.prems(1) short by (intro length_nat_digits) (simp_all add: max_str_digits_pos)
  note page = paginate_at [OF this, of ms l]
  have slice: "py_slice ms (int k) (int k + l) = take m (drop k ms)"
    by (simp add: py_slice_nonneg m(1))
  show ?case
  proof (cases "k + m < length ms")
    case True
    with Suc.prems m(2) have IH: "follow_pages ms l n (Some (int_str (int (k + m)))) = Inr (drop (k + m) ms)"
      by (intro Suc.IH) auto
    have "int k + l = int (k + m)" by (simp add: m(1))
    with True page IH slice show ?thesis
      by (simp add: take_add [symmetric] append_take_drop_id) (metis append_take_drop_id drop_drop add.commute)
  next
    case False
    then have "\<not> int k + l < int (length ms)" by (simp add: m(1))
    with False page slice show ?thesis by simp
  qed
qed

lemma follow_pages_all:
  assumes "1 \<le> l" and "length ms < 10 ^ max_str_digits"
  shows "follow_pages ms l (Suc (length ms)) None = Inr ms"
proof -
  have "paginate ms None l = paginate ms (Some (int_str (int 0))) l"
    using paginate_at [of 0 ms l] max_str_digits_pos
    by (simp add: paginate_None nat_digits.simps Suc_le_eq)
  then have "follow_pages ms l (Suc (length ms)) None =
      follow_pages ms l (Suc (length ms)) (Some (int_str (int 0)))"
    by simp
  also have "\<dots> = Inr ms"
    using follow_pages_from [OF assms, of 0 "Suc (length ms)"] by simp
  finally show ?thesis .
qed

end
