(* ===== verification/Backend.thy ===== *)
theory Backend
  imports Types
begin

text \<open>
  \<open>memcp/backends/base.py\<close> and \<open>memcp/backends/capabilities.py\<close>: the reserved metadata
  keys, the metadata patch, the interface every backend implements (\<open>'w backend\<close>, a record of
  operations over the store's own state \<open>'w\<close>), and the capabilities a backend may declare.
  Then what the interface promises: an abstract store (per partition the memories in insertion
  order, per memory its trail of changes) with one abstract operation per backend operation, and
  two contracts over a backend as locales: \<open>confined_backend\<close> (calls in one partition keep a
  predicate of the store) and \<open>storing_backend\<close> (the operations implement the abstract ones).
\<close>

section \<open>Reserved metadata\<close>

definition RESERVED_METADATA_KEYS :: "pystr set" where
  "RESERVED_METADATA_KEYS =
     {u ''actor_id'', u ''agent_id'', u ''attributed_to'', u ''created_at'', u ''data'',
      u ''expiration_date'', u ''hash'', u ''id'', u ''memory_type'', u ''role'', u ''run_id'',
      u ''text_lemmatized'', u ''updated_at'', u ''user_id''}"

definition is_reserved_metadata_key :: "pystr \<Rightarrow> bool" where
  "is_reserved_metadata_key key \<longleftrightarrow>
     prefix RESERVED_METADATA_PREFIX key \<or> key \<in> RESERVED_METADATA_KEYS"

fun refuse_reserved_metadata :: "pystr list \<Rightarrow> exc + unit" where
  "refuse_reserved_metadata [] = Inr ()"
| "refuse_reserved_metadata (key # keys) =
     (if is_reserved_metadata_key key
      then Inl (MemoryAPIError 400 (Metadata_msg (Reserved_key key)))
      else refuse_reserved_metadata keys)"

definition clean_keys :: "pystr list \<Rightarrow> bool" where
  "clean_keys keys \<longleftrightarrow> (\<forall>k \<in> set keys. \<not> is_reserved_metadata_key k)"

lemma refuse_reserved_metadata_ok [simp]:
  "refuse_reserved_metadata keys = Inr w \<longleftrightarrow> clean_keys keys"
  by (induction keys) (auto simp: clean_keys_def)

lemma refuse_reserved_metadata_400:
  "refuse_reserved_metadata keys = Inl e \<Longrightarrow> \<exists>m. e = MemoryAPIError 400 m"
  by (induction keys) (auto split: if_splits)

lemma clean_keys_simps [simp]:
  "clean_keys []" "clean_keys (k # ks) \<longleftrightarrow> \<not> is_reserved_metadata_key k \<and> clean_keys ks"
  "clean_keys (ks @ ks') \<longleftrightarrow> clean_keys ks \<and> clean_keys ks'"
  by (auto simp: clean_keys_def)

section \<open>The metadata patch\<close>

record patch =
  p_set :: metadata
  p_remove :: "pystr list"

text \<open>\<open>MetadataPatch.__post_init__\<close>: no key is both set and removed.\<close>

definition make_patch :: "metadata \<Rightarrow> pystr list \<Rightarrow> exc + patch" where
  "make_patch to_set to_remove =
     (let both = filter (\<lambda>k. k \<in> set (dict_keys to_set)) to_remove
      in if both \<noteq> [] then Inl (ValueError (Metadata_msg (Set_and_removed (sort both))))
         else Inr \<lparr>p_set = to_set, p_remove = to_remove\<rparr>)"

definition patch_keys :: "patch \<Rightarrow> pystr list" where
  "patch_keys p = dict_keys (p_set p) @ p_remove p"

text \<open>What a backend does with a patch: the keys to set are assigned, then the others popped.\<close>

definition apply_patch :: "patch \<Rightarrow> metadata \<Rightarrow> metadata" where
  "apply_patch p md = fold dict_pop (p_remove p) (dict_update md (p_set p))"

lemma make_patch_ok:
  "make_patch d r = Inr p \<longleftrightarrow> fst ` set d \<inter> set r = {} \<and> p = \<lparr>p_set = d, p_remove = r\<rparr>"
  by (auto simp: make_patch_def dict_keys_def filter_empty_conv Let_def)

lemma map_of_fold_pop: "map_of (fold dict_pop ks d) k = (if k \<in> set ks then None else map_of d k)"
  by (induction ks arbitrary: d) auto

lemma wf_dict_fold_pop [simp]: "wf_dict d \<Longrightarrow> wf_dict (fold dict_pop ks d)"
  by (induction ks arbitrary: d) auto

lemma wf_dict_apply_patch [simp]: "wf_dict md \<Longrightarrow> wf_dict (apply_patch p md)"
  by (simp add: apply_patch_def)

lemma map_of_apply_patch:
  "wf_dict (p_set p) \<Longrightarrow>
   map_of (apply_patch p md) k =
     (if k \<in> set (p_remove p) then None
      else (case map_of (p_set p) k of None \<Rightarrow> map_of md k | Some v \<Rightarrow> Some v))"
  by (simp add: apply_patch_def map_of_fold_pop map_of_dict_update map_add_def)

lemma keys_fold_pop: "fst ` set (fold dict_pop ks d) \<subseteq> fst ` set d"
  by (induction ks arbitrary: d) (force simp: AList.delete_eq)+

lemma keys_apply_patch: "fst ` set (apply_patch p md) \<subseteq> fst ` set md \<union> fst ` set (p_set p)"
  using keys_fold_pop [of "p_remove p" "dict_update md (p_set p)"]
  by (simp add: apply_patch_def dom_dict_update)

section \<open>The interface\<close>

datatype float_arg = Float_value rat | Float_infinite bool | Float_nan

record 'w backend =
  b_retrieval :: "pystr option"
  b_extracts_facts :: bool
  b_capabilities :: "pystr list"
  b_scope_keys :: "pystr list"
  b_validate_partition :: "pystr \<Rightarrow> unit checked"
  b_add :: "pystr \<Rightarrow> pystr \<Rightarrow> scope option \<Rightarrow> metadata option \<Rightarrow> bool \<Rightarrow> system option
    \<Rightarrow> ('w, add_return) act"
  b_search :: "pystr \<Rightarrow> pystr \<Rightarrow> scope option \<Rightarrow> int \<Rightarrow> float_arg \<Rightarrow> ('w, memory list) act"
  b_delete :: "pystr \<Rightarrow> pystr \<Rightarrow> ('w, bool) act"
  b_delete_all :: "pystr \<Rightarrow> scope \<Rightarrow> ('w, int option) act"
  b_get :: "pystr \<Rightarrow> pystr \<Rightarrow> ('w, memory option) act"
  b_update :: "pystr \<Rightarrow> pystr \<Rightarrow> pystr option \<Rightarrow> patch option \<Rightarrow> system option \<Rightarrow> ('w, memory) act"
  b_list_memories :: "pystr \<Rightarrow> scope option \<Rightarrow> int \<Rightarrow> pystr option \<Rightarrow> ('w, list_result) act"
  b_history :: "pystr \<Rightarrow> pystr \<Rightarrow> ('w, history_entry list) act"
  b_entities :: "pystr \<Rightarrow> scope option \<Rightarrow> int \<Rightarrow> ('w, entities_result) act"
  b_health :: "('w, health_status) act"
  b_close :: "('w, unit) act"

definition RETRIEVAL_KINDS :: "pystr list" where
  "RETRIEVAL_KINDS = [u ''keyword'', u ''semantic'']"

definition OPTIONAL_CAPABILITIES :: "(pystr, pystr) dict" where
  "OPTIONAL_CAPABILITIES =
     [(u ''update'', u ''update''), (u ''list'', u ''list_memories''),
      (u ''history'', u ''history''), (u ''entities'', u ''entities'')]"

definition ALL_CAPABILITIES :: "pystr list" where
  "ALL_CAPABILITIES = sort (dict_keys OPTIONAL_CAPABILITIES)"

text \<open>\<open>ValueError\<close> raised by a check, and the 400 each data method answers for a partition its
  \<open>validate_partition\<close> refuses.\<close>

definition raising :: "'a checked \<Rightarrow> exc + 'a" where
  "raising r = (case r of Inl m \<Rightarrow> Inl (ValueError m) | Inr x \<Rightarrow> Inr x)"

definition refuse_partition :: "(pystr \<Rightarrow> unit checked) \<Rightarrow> pystr \<Rightarrow> exc + unit" where
  "refuse_partition validate p =
     (case validate p of
        Inl m \<Rightarrow> Inl (MemoryAPIError 400 m)
      | Inr w \<Rightarrow> Inr w)"

definition or_empty :: "'a list option \<Rightarrow> 'a list" where
  "or_empty d = (case d of None \<Rightarrow> [] | Some d \<Rightarrow> d)"

lemma or_empty_simps [simp]: "or_empty None = []" "or_empty (Some d) = d"
  by (simp_all add: or_empty_def)

lemma raising_simps [simp]: "raising (Inl m) = Inl (ValueError m)" "raising (Inr x) = Inr x"
  by (simp_all add: raising_def)

lemma raising_ok [simp]: "raising r = Inr x \<longleftrightarrow> r = Inr x"
  by (cases r) auto

section \<open>The abstract store\<close>

record spec =
  sp_listing :: "pystr \<Rightarrow> memory list"
  sp_trail :: "pystr \<Rightarrow> history_entry list"

definition scope_contains :: "scope \<Rightarrow> scope \<Rightarrow> bool" where
  "scope_contains stored wanted \<longleftrightarrow>
     (\<forall>(k, v) \<in> set wanted. map_of stored k = Some (JStr (scope_text v)))"

definition matching :: "scope option \<Rightarrow> memory \<Rightarrow> bool" where
  "matching scope m \<longleftrightarrow> scope_contains (m_scope m) (or_empty scope)"

definition spec_get :: "pystr \<Rightarrow> pystr \<Rightarrow> spec \<Rightarrow> memory option" where
  "spec_get p i s = find (\<lambda>m. m_id m = i) (sp_listing s p)"

definition spec_add :: "pystr \<Rightarrow> memory \<Rightarrow> spec \<Rightarrow> spec" where
  "spec_add p m s = s
     \<lparr>sp_listing := (sp_listing s)(p := sp_listing s p @ [m]),
      sp_trail := (sp_trail s)(m_id m :=
        [\<lparr>h_action = u ''created'', h_timestamp = m_created_at m, h_content_before = None,
          h_content_after = Some (m_content m), h_author = memory_author m\<rparr>])\<rparr>"

definition updated_memory ::
  "memory \<Rightarrow> pystr option \<Rightarrow> patch option \<Rightarrow> system option \<Rightarrow> pystr \<Rightarrow> memory" where
  "updated_memory m content pt sys now = m
     \<lparr>m_content := (case content of None \<Rightarrow> m_content m | Some c \<Rightarrow> c),
      m_metadata := (case pt of None \<Rightarrow> m_metadata m | Some p \<Rightarrow> apply_patch p (m_metadata m)),
      m_updated_at := Some now,
      m_system := (case sys of None \<Rightarrow> m_system m | Some sy \<Rightarrow> sy)\<rparr>"

definition spec_update :: "pystr \<Rightarrow> memory \<Rightarrow> memory \<Rightarrow> pystr \<Rightarrow> spec \<Rightarrow> spec" where
  "spec_update p m m' now s = s
     \<lparr>sp_listing := (sp_listing s)(p :=
        map (\<lambda>x. if m_id x = m_id m then m' else x) (sp_listing s p)),
      sp_trail := (sp_trail s)(m_id m := sp_trail s (m_id m) @
        [\<lparr>h_action = u ''updated'', h_timestamp = now, h_content_before = Some (m_content m),
          h_content_after = Some (m_content m'), h_author = memory_author m'\<rparr>])\<rparr>"

definition spec_remove :: "pystr \<Rightarrow> (memory \<Rightarrow> bool) \<Rightarrow> spec \<Rightarrow> spec" where
  "spec_remove p doomed s = s
     \<lparr>sp_listing := (sp_listing s)(p := filter (\<lambda>m. \<not> doomed m) (sp_listing s p)),
      sp_trail := (\<lambda>i. if i \<in> m_id ` set (filter doomed (sp_listing s p)) then []
                        else sp_trail s i)\<rparr>"

text \<open>A ranked search: the matching memories with a score, highest first, cut at the limit.\<close>

definition spec_search ::
  "(pystr \<Rightarrow> memory \<Rightarrow> rat option) \<Rightarrow> pystr \<Rightarrow> scope option \<Rightarrow> int \<Rightarrow> memory list \<Rightarrow> memory list" where
  "spec_search rank query sc limit memories =
     map (\<lambda>(r, m). m\<lparr>m_score := Some r\<rparr>)
       (py_slice (sort_key (\<lambda>h. - fst h)
          (List.map_filter (\<lambda>m. if matching sc m then map_option (\<lambda>r. (r, m)) (rank query m) else None)
             memories)) 0 limit)"

text \<open>What a space can see of a store: its memories, and the trail of each.\<close>

definition view :: "pystr \<Rightarrow> spec \<Rightarrow> memory list \<times> history_entry list list" where
  "view p s = (sp_listing s p, map (\<lambda>m. sp_trail s (m_id m)) (sp_listing s p))"

section \<open>Contracts\<close>

text \<open>What policy stamps on a write: the space it writes to.\<close>

definition stamped :: "pystr \<Rightarrow> system \<Rightarrow> bool" where
  "stamped p sy \<longleftrightarrow> sys_space sy = Some (JStr p)"

text \<open>
  Calls that name the partition \<open>p\<close>, with the arguments policy passes (a stamp of that
  partition, no reserved metadata key, never an empty scope to a bulk delete), keep \<open>I\<close>.
\<close>

locale confined_backend =
  fixes B :: "'w backend" and p :: pystr and I :: "'w \<Rightarrow> bool"
  assumes add_keeps: "stamped p sy \<Longrightarrow> clean_keys (dict_keys (or_empty md)) \<Longrightarrow>
      keeps I (b_add B p c sc md infer (Some sy))"
    and search_keeps: "keeps I (b_search B p q sc l th)"
    and delete_keeps: "keeps I (b_delete B p i)"
    and delete_all_keeps: "d \<noteq> [] \<Longrightarrow> keeps I (b_delete_all B p d)"
    and get_keeps: "keeps I (b_get B p i)"
    and update_keeps: "stamped p sy \<Longrightarrow> (\<And>x. pt = Some x \<Longrightarrow> clean_keys (patch_keys x)) \<Longrightarrow>
      keeps I (b_update B p i co pt (Some sy))"
    and list_keeps: "keeps I (b_list_memories B p sc l cu)"
    and history_keeps: "keeps I (b_history B p i)"
    and entities_keeps: "keeps I (b_entities B p sc l)"

text \<open>
  A backend with no model behind it: it stores what it is given. \<open>inv\<close> is its well-formedness,
  \<open>abs\<close> its abstract store; an operation either refuses, leaving the store as it was, or does
  what the abstract operation does. \<open>rank\<close> scores a memory against a query, \<open>bulk n\<close> says
  whether the backend can delete \<open>n\<close> memories in one call.
\<close>

locale storing_backend =
  fixes B :: "'w backend" and inv :: "'w \<Rightarrow> bool" and abs :: "'w \<Rightarrow> spec"
    and rank :: "pystr \<Rightarrow> memory \<Rightarrow> rat option" and bulk :: "nat \<Rightarrow> bool"
  assumes inv_listing: "inv w \<Longrightarrow> m \<in> set (sp_listing (abs w) p) \<Longrightarrow>
      m_partition m = p \<and> m_score m = None"
    and inv_ids: "inv w \<Longrightarrow> distinct (map m_id (sp_listing (abs w) p))"
    and inv_apart: "inv w \<Longrightarrow> p \<noteq> q \<Longrightarrow>
      m_id ` set (sp_listing (abs w) p) \<inter> m_id ` set (sp_listing (abs w) q) = {}"
    and get_refines: "inv w \<Longrightarrow> b_get B p i w = (Inr (spec_get p i (abs w)), w)"
    and add_refines: "inv w \<Longrightarrow> clean_keys (dict_keys (or_empty md)) \<Longrightarrow>
      fst ` set (or_empty sc) \<inter> NESTED_FILTER_KEYS = {} \<Longrightarrow>
      \<exists>i now w'. b_add B p c sc md infer sy w =
          (Inr (Many [\<lparr>r_id = i, r_status = u ''ready'', r_created_at = now, r_event = Ev_add\<rparr>]), w')
        \<and> inv w' \<and> (\<forall>q. i \<notin> m_id ` set (sp_listing (abs w) q))
        \<and> abs w' = spec_add p
            \<lparr>m_id = i, m_content = c, m_score = None, m_scope = scope_as_text (or_empty sc),
             m_metadata = or_empty md, m_created_at = now, m_updated_at = None,
             m_partition = p, m_system = (case sy of None \<Rightarrow> no_system | Some x \<Rightarrow> x)\<rparr> (abs w)"
    and add_refuses: "fst ` set (or_empty sc) \<inter> NESTED_FILTER_KEYS \<noteq> {} \<Longrightarrow>
      \<exists>e. b_add B p c sc md infer sy w = (Inl e, w)"
    and update_missing: "inv w \<Longrightarrow> (\<And>x. pt = Some x \<Longrightarrow> clean_keys (patch_keys x)) \<Longrightarrow>
      spec_get p i (abs w) = None \<Longrightarrow>
      \<exists>w'. b_update B p i co pt sy w = (Inl (MemoryAPIError 404 (Raw (u ''Not found''))), w')
        \<and> inv w' \<and> abs w' = abs w"
    and update_refines: "inv w \<Longrightarrow> (\<And>x. pt = Some x \<Longrightarrow> clean_keys (patch_keys x)) \<Longrightarrow>
      spec_get p i (abs w) = Some m \<Longrightarrow>
      \<exists>now w'. b_update B p i co pt sy w = (Inr (updated_memory m co pt sy now), w') \<and> inv w'
        \<and> abs w' = spec_update p m (updated_memory m co pt sy now) now (abs w)"
    and delete_missing: "inv w \<Longrightarrow> spec_get p i (abs w) = None \<Longrightarrow>
      b_delete B p i w = (Inl (MemoryAPIError 404 (Raw (u ''Not found''))), w)"
    and delete_refines: "inv w \<Longrightarrow> spec_get p i (abs w) = Some m \<Longrightarrow>
      \<exists>w'. b_delete B p i w = (Inr True, w') \<and> inv w'
        \<and> abs w' = spec_remove p (\<lambda>x. m_id x = i) (abs w)"
    and delete_all_refines: "inv w \<Longrightarrow> fst ` set d \<inter> NESTED_FILTER_KEYS = {} \<Longrightarrow>
      bulk (length (filter (matching (Some d)) (sp_listing (abs w) p))) \<Longrightarrow>
      \<exists>w'. b_delete_all B p d w =
          (Inr (Some (int (length (filter (matching (Some d)) (sp_listing (abs w) p))))), w')
        \<and> inv w' \<and> abs w' = spec_remove p (matching (Some d)) (abs w)"
    and delete_all_overflows: "inv w \<Longrightarrow> fst ` set d \<inter> NESTED_FILTER_KEYS = {} \<Longrightarrow>
      \<not> bulk (length (filter (matching (Some d)) (sp_listing (abs w) p))) \<Longrightarrow>
      \<exists>e. b_delete_all B p d w = (Inl e, w)"
    and delete_all_refuses: "fst ` set d \<inter> NESTED_FILTER_KEYS \<noteq> {} \<Longrightarrow>
      \<exists>e. b_delete_all B p d w = (Inl e, w)"
    and list_refines: "inv w \<Longrightarrow>
      b_list_memories B p sc l cu w =
        (raising (paginate (filter (matching sc) (sp_listing (abs w) p)) cu l), w)"
    and history_refines: "inv w \<Longrightarrow>
      b_history B p i w =
        ((case spec_get p i (abs w) of
            None \<Rightarrow> Inl (MemoryAPIError 404 (Raw (u ''Not found'')))
          | Some m \<Rightarrow> Inr (sp_trail (abs w) i)), w)"
    and search_refines: "inv w \<Longrightarrow> fst ` set (or_empty sc) \<inter> NESTED_FILTER_KEYS = {} \<Longrightarrow>
      b_search B p q sc l th w = (Inr (spec_search rank q sc l (sp_listing (abs w) p)), w)"
    and search_refuses: "fst ` set (or_empty sc) \<inter> NESTED_FILTER_KEYS \<noteq> {} \<Longrightarrow>
      \<exists>e. b_search B p q sc l th w = (Inl e, w)"
    and entities_reads: "snd (b_entities B p sc l w) = w"

lemma scope_contains_Nil [simp]: "scope_contains d []"
  by (simp add: scope_contains_def)

lemma matching_None [simp]: "matching None m" "matching (Some []) m"
  by (simp_all add: matching_def)

lemma spec_get_Some: "spec_get p i s = Some m \<Longrightarrow> m \<in> set (sp_listing s p) \<and> m_id m = i"
  by (auto simp: spec_get_def find_Some_iff)

lemma spec_get_None: "spec_get p i s = None \<longleftrightarrow> i \<notin> m_id ` set (sp_listing s p)"
  by (auto simp: spec_get_def find_None_iff)

lemma find_by_key:
  "distinct (map f xs) \<Longrightarrow> x \<in> set xs \<Longrightarrow> find (\<lambda>y. f y = f x) xs = Some x"
  by (induction xs) (auto simp: image_iff)

lemma spec_get_in:
  "distinct (map m_id (sp_listing s p)) \<Longrightarrow> m \<in> set (sp_listing s p) \<Longrightarrow>
   spec_get p (m_id m) s = Some m"
  by (simp add: spec_get_def find_by_key)

lemma spec_search_member:
  "m \<in> set (spec_search rank q sc l ms) \<Longrightarrow>
   \<exists>m0 r. m0 \<in> set ms \<and> matching sc m0 \<and> rank q m0 = Some r \<and> m = m0\<lparr>m_score := Some r\<rparr>"
  unfolding spec_search_def
  by (force dest!: subsetD [OF set_py_slice] simp: map_filter_def split: if_splits)

lemma view_trail:
  "view p s = view p s' \<Longrightarrow> m \<in> set (sp_listing s p) \<Longrightarrow> sp_trail s (m_id m) = sp_trail s' (m_id m)"
  by (auto simp: view_def)

lemma view_get: "view p s = view p s' \<Longrightarrow> spec_get p i s = spec_get p i s'"
  by (simp add: view_def spec_get_def)

text \<open>An operation in one partition leaves what the others see.\<close>

lemma view_frame:
  "q \<noteq> p \<Longrightarrow> m_id m \<notin> m_id ` set (sp_listing s q) \<Longrightarrow> view q (spec_add p m s) = view q s"
  "q \<noteq> p \<Longrightarrow> m_id m \<notin> m_id ` set (sp_listing s q) \<Longrightarrow> view q (spec_update p m m' t s) = view q s"
  "q \<noteq> p \<Longrightarrow> m_id ` set (sp_listing s p) \<inter> m_id ` set (sp_listing s q) = {} \<Longrightarrow>
     view q (spec_remove p d s) = view q s"
  by (auto simp: view_def spec_add_def spec_update_def spec_remove_def) (metis image_eqI)+

text \<open>
  The abstract store as a transition system: what a call in partition \<open>p\<close> can do to it, given the
  arguments policy passes.
\<close>

definition ids_apart :: "spec \<Rightarrow> bool" where
  "ids_apart s \<longleftrightarrow>
     (\<forall>p. distinct (map m_id (sp_listing s p)))
     \<and> (\<forall>p q. p \<noteq> q \<longrightarrow> m_id ` set (sp_listing s p) \<inter> m_id ` set (sp_listing s q) = {})"

inductive store_step :: "pystr \<Rightarrow> spec \<Rightarrow> spec \<Rightarrow> bool" for p where
  added: "\<forall>q. m_id m \<notin> m_id ` set (sp_listing s q) \<Longrightarrow> m_partition m = p \<Longrightarrow> m_score m = None \<Longrightarrow>
    m_updated_at m = None \<Longrightarrow> stamped p (m_system m) \<Longrightarrow> store_step p s (spec_add p m s)"
| updated: "spec_get p i s = Some m \<Longrightarrow> stamped p sy \<Longrightarrow>
    store_step p s (spec_update p m (updated_memory m co pt (Some sy) now) now s)"
| removed: "store_step p s (spec_remove p doomed s)"

inductive_cases store_stepE: "store_step p s s'"

definition holding :: "('w \<Rightarrow> bool) \<Rightarrow> ('w \<Rightarrow> spec) \<Rightarrow> (spec \<Rightarrow> bool) \<Rightarrow> 'w \<Rightarrow> bool" where
  "holding ok contents J w \<longleftrightarrow> ok w \<and> J (contents w)"

context storing_backend
begin

lemma inv_ids_apart: "inv w \<Longrightarrow> ids_apart (abs w)"
  by (simp add: ids_apart_def inv_ids inv_apart)

text \<open>A call either leaves the abstract store or makes one of its steps.\<close>

definition steps_in :: "pystr \<Rightarrow> ('w, 'a) act \<Rightarrow> bool" where
  "steps_in p m \<longleftrightarrow> (\<forall>w. inv w \<longrightarrow>
     inv (snd (m w)) \<and> (abs (snd (m w)) = abs w \<or> store_step p (abs w) (abs (snd (m w)))))"

lemma steps_in_keeps:
  assumes "\<And>s s'. ids_apart s \<Longrightarrow> store_step p s s' \<Longrightarrow> J s \<Longrightarrow> J s'" and "steps_in p m"
  shows "keeps (holding inv abs J) m"
  using assms inv_ids_apart unfolding keeps_def holding_def steps_in_def by metis

lemma search_reads: "inv w \<Longrightarrow> snd (b_search B p q sc l th w) = w"
  using search_refines [of w sc p q l th] search_refuses [of sc p q l th w]
  by (cases "fst ` set (or_empty sc) \<inter> NESTED_FILTER_KEYS = {}") auto

lemma reads_step:
  "steps_in p (b_get B p i)" "steps_in p (b_search B p q sc l th)" "steps_in p (b_list_memories B p sc l cu)"
  "steps_in p (b_history B p i)" "steps_in p (b_entities B p sc l)"
  by (simp_all add: steps_in_def get_refines search_reads list_refines history_refines entities_reads)

lemma add_steps:
  assumes "stamped p sy" and "clean_keys (dict_keys (or_empty md))"
  shows "steps_in p (b_add B p c sc md infer (Some sy))"
  unfolding steps_in_def
proof (intro allI impI)
  fix w assume inv: "inv w"
  show "inv (snd (b_add B p c sc md infer (Some sy) w))
    \<and> (abs (snd (b_add B p c sc md infer (Some sy) w)) = abs w
      \<or> store_step p (abs w) (abs (snd (b_add B p c sc md infer (Some sy) w))))"
  proof (cases "fst ` set (or_empty sc) \<inter> NESTED_FILTER_KEYS = {}")
    case True
    from add_refines [OF inv assms(2) True, of p c infer "Some sy"] assms(1) show ?thesis
      by (fastforce intro: store_step.added)
  next
    case False
    from add_refuses [OF this, of p c md infer "Some sy" w] inv show ?thesis by auto
  qed
qed

lemma update_steps:
  assumes "stamped p sy" and "\<And>x. pt = Some x \<Longrightarrow> clean_keys (patch_keys x)"
  shows "steps_in p (b_update B p i co pt (Some sy))"
  unfolding steps_in_def
proof (intro allI impI)
  fix w assume inv: "inv w"
  show "inv (snd (b_update B p i co pt (Some sy) w))
    \<and> (abs (snd (b_update B p i co pt (Some sy) w)) = abs w
      \<or> store_step p (abs w) (abs (snd (b_update B p i co pt (Some sy) w))))"
  proof (cases "spec_get p i (abs w)")
    case None
    from update_missing [where pt = pt, OF inv assms(2) None, of co "Some sy"] show ?thesis by auto
  next
    case (Some m)
    with update_refines [where pt = pt, OF inv assms(2) Some, of co "Some sy"] assms(1) show ?thesis
      by (auto intro: store_step.updated)
  qed
qed

lemma delete_steps: "steps_in p (b_delete B p i)"
  unfolding steps_in_def
proof (intro allI impI)
  fix w assume inv: "inv w"
  from delete_missing [OF inv, of p i] delete_refines [OF inv, of p i] inv
  show "inv (snd (b_delete B p i w))
    \<and> (abs (snd (b_delete B p i w)) = abs w \<or> store_step p (abs w) (abs (snd (b_delete B p i w))))"
    by (cases "spec_get p i (abs w)") (auto intro: store_step.removed)
qed

lemma delete_all_steps: "steps_in p (b_delete_all B p d)"
  unfolding steps_in_def
proof (intro allI impI)
  fix w assume inv: "inv w"
  from delete_all_refines [OF inv, of d p] delete_all_overflows [OF inv, of d p]
    delete_all_refuses [of d p w] inv
  show "inv (snd (b_delete_all B p d w))
    \<and> (abs (snd (b_delete_all B p d w)) = abs w \<or> store_step p (abs w) (abs (snd (b_delete_all B p d w))))"
    by (cases "fst ` set d \<inter> NESTED_FILTER_KEYS = {}";
        cases "bulk (length (filter (matching (Some d)) (sp_listing (abs w) p)))")
      (auto intro: store_step.removed)
qed

text \<open>So a predicate of the abstract store that its steps keep is kept by the calls of a partition.\<close>

lemma confined_by_steps:
  assumes "\<And>s s'. ids_apart s \<Longrightarrow> store_step p s s' \<Longrightarrow> J s \<Longrightarrow> J s'"
  shows "confined_backend B p (holding inv abs J)"
  by unfold_locales
    (rule steps_in_keeps [OF assms], assumption+,
      auto intro: reads_step add_steps update_steps delete_steps delete_all_steps)+

end

text \<open>In particular a call in one partition leaves what the others see.\<close>

definition others_see ::
  "('w \<Rightarrow> bool) \<Rightarrow> ('w \<Rightarrow> spec) \<Rightarrow> pystr \<Rightarrow> (pystr \<Rightarrow> memory list \<times> history_entry list list) \<Rightarrow> 'w \<Rightarrow> bool"
where
  "others_see ok contents p V w \<longleftrightarrow> ok w \<and> (\<forall>q. q \<noteq> p \<longrightarrow> view q (contents w) = V q)"

lemma others_see_holding:
  "others_see ok contents p V = holding ok contents (\<lambda>s. \<forall>q. q \<noteq> p \<longrightarrow> view q s = V q)"
  by (simp add: fun_eq_iff others_see_def holding_def)

lemma step_others:
  assumes "ids_apart s" and "store_step p s s'" and "q \<noteq> p"
  shows "view q s' = view q s"
  using assms(2)
proof cases
  case (updated i m sy co pt now)
  then have "m_id m \<in> m_id ` set (sp_listing s p)" using spec_get_Some by blast
  moreover have "m_id ` set (sp_listing s p) \<inter> m_id ` set (sp_listing s q) = {}"
    using assms(1,3) by (simp add: ids_apart_def)
  ultimately have "m_id m \<notin> m_id ` set (sp_listing s q)" by blast
  with updated assms(3) show ?thesis by (simp add: view_frame)
next
  case (added m)
  with assms(3) show ?thesis by (simp add: view_frame)
next
  case (removed doomed)
  with assms(1,3) show ?thesis by (simp add: view_frame ids_apart_def)
qed

sublocale storing_backend \<subseteq> others: confined_backend B p "others_see inv abs p V" for p V
  unfolding others_see_holding by (rule confined_by_steps) (simp add: step_others)

end
