(* ===== verification/Audit_Log.thy ===== *)
theory Audit_Log
  imports Backend
begin

text \<open>
  \<open>memcp/policy/audit.py\<close>: the audit record of an operation, and the wrapper that writes
  exactly one per operation whatever its outcome. The state \<open>'w st\<close> policy runs in is declared
  here too: the backend's own state, the entry the running operation fills in, the audit log and
  the server log.
\<close>

datatype outcome = Outcome_ok | Outcome_code error_code | Cancelled | Timed_out | Backend_error | Other_error

record audit_entry =
  ae_operation :: pystr
  ae_key :: "pystr option"
  ae_space :: "pystr option"
  ae_relation :: "relation option"
  ae_outcome :: outcome
  ae_ids :: "pystr list option"
  ae_count :: "int option"
  ae_scope :: "scope option"
  ae_source_space :: "pystr option"

record 'w st =
  store :: 'w
  entry :: audit_entry
  audit_log :: "audit_entry list"
  server_log :: "log_event list"

definition new_entry ::
  "pystr \<Rightarrow> pystr option \<Rightarrow> pystr option \<Rightarrow> relation option \<Rightarrow> pystr option \<Rightarrow> audit_entry" where
  "new_entry operation key space relation source_space =
     \<lparr>ae_operation = operation, ae_key = key, ae_space = space, ae_relation = relation,
      ae_outcome = Outcome_ok, ae_ids = None, ae_count = None, ae_scope = None,
      ae_source_space = source_space\<rparr>"

text \<open>
  A logger and its ancestors, nearest first: the handlers of each (whether it is a
  \<open>NullHandler\<close>, and its level) and whether it propagates. INFO is 20.
\<close>

fun reaches_handler :: "((bool \<times> int) list \<times> bool) list \<Rightarrow> bool" where
  "reaches_handler [] = False"
| "reaches_handler ((handlers, propagate) # ancestors) =
     (if list_ex (\<lambda>(null, level). \<not> null \<and> level \<le> 20) handlers then True
      else if propagate then reaches_handler ancestors
      else False)"

definition can_record :: "bool \<Rightarrow> ((bool \<times> int) list \<times> bool) list \<Rightarrow> bool" where
  "can_record enabled_for_info chain = (if \<not> enabled_for_info then False else reaches_handler chain)"

definition outcome_of :: "exc \<Rightarrow> outcome" where
  "outcome_of e =
     (case e of
        CancelledError \<Rightarrow> Cancelled
      | PolicyError code m \<Rightarrow> Outcome_code code
      | MemoryAPIError status body \<Rightarrow> (if timed_out status then Timed_out else Backend_error)
      | _ \<Rightarrow> Other_error)"

definition settle :: "exc + 'a \<Rightarrow> audit_entry \<Rightarrow> audit_entry" where
  "settle r e =
     (case r of
        Inl x \<Rightarrow> (if ae_outcome e = Outcome_ok then e\<lparr>ae_outcome := outcome_of x\<rparr> else e)
      | Inr _ \<Rightarrow> e)"

text \<open>The body fills in the entry; whatever it does, one record follows. The entry is local to
  the wrapper, so the one of an enclosing operation is put back.\<close>

definition with_entry :: "audit_entry \<Rightarrow> ('w st, 'a) act \<Rightarrow> ('w st, 'a) act" where
  "with_entry e body s =
     (case body (s\<lparr>entry := e\<rparr>) of
        (r, t) \<Rightarrow> (r, t\<lparr>entry := entry s, audit_log := audit_log t @ [settle r (entry t)]\<rparr>))"

definition opening_entry :: "key option \<Rightarrow> pystr \<Rightarrow> audit_entry" where
  "opening_entry ctx operation =
     (case current_key ctx of
        Inl e \<Rightarrow> new_entry operation None None None None
      | Inr k \<Rightarrow> new_entry operation (Some (k_name k)) (Some (g_space (k_grant k)))
          (Some (g_relation (k_grant k))) None)"

definition audited :: "key option \<Rightarrow> pystr \<Rightarrow> ('w st, 'a) act \<Rightarrow> ('w st, 'a) act" where
  "audited ctx operation body = with_entry (opening_entry ctx operation) body"

definition audited_operator ::
  "pystr \<Rightarrow> pystr \<Rightarrow> pystr \<Rightarrow> pystr \<Rightarrow> ('w st, 'a) act \<Rightarrow> ('w st, 'a) act" where
  "audited_operator operation operator space source_space body =
     with_entry (new_entry operation (Some operator) (Some space) None (Some source_space)) body"

text \<open>What a body does to the state besides the backend's own.\<close>

definition set_ids :: "pystr list option \<Rightarrow> ('w st, unit) act" where
  "set_ids ids = modify (\<lambda>s. s\<lparr>entry := (entry s)\<lparr>ae_ids := ids\<rparr>\<rparr>)"

definition set_count :: "int option \<Rightarrow> ('w st, unit) act" where
  "set_count n = modify (\<lambda>s. s\<lparr>entry := (entry s)\<lparr>ae_count := n\<rparr>\<rparr>)"

definition set_scope :: "scope option \<Rightarrow> ('w st, unit) act" where
  "set_scope sc = modify (\<lambda>s. s\<lparr>entry := (entry s)\<lparr>ae_scope := sc\<rparr>\<rparr>)"

definition set_outcome :: "outcome \<Rightarrow> ('w st, unit) act" where
  "set_outcome o' = modify (\<lambda>s. s\<lparr>entry := (entry s)\<lparr>ae_outcome := o'\<rparr>\<rparr>)"

definition log_event :: "log_event \<Rightarrow> ('w st, unit) act" where
  "log_event e = modify (\<lambda>s. s\<lparr>server_log := server_log s @ [e]\<rparr>)"

text \<open>A call of the backend.\<close>

definition call :: "('w, 'a) act \<Rightarrow> ('w st, 'a) act" where
  "call m s = (case m (store s) of (r, w) \<Rightarrow> (r, s\<lparr>store := w\<rparr>))"

section \<open>Weakest preconditions\<close>

lemma wp_with_entry [wp_simps]:
  "wp (with_entry e body) Q E s =
     wp body
       (\<lambda>x t. Q x (t\<lparr>entry := entry s, audit_log := audit_log t @ [entry t]\<rparr>))
       (\<lambda>x t. E x (t\<lparr>entry := entry s,
          audit_log := audit_log t @ [settle (Inl x :: exc + unit) (entry t)]\<rparr>))
       (s\<lparr>entry := e\<rparr>)"
  by (simp add: wp_def with_entry_def settle_def split: prod.splits sum.splits)

lemma wp_audited [wp_simps]:
  "wp (audited ctx operation body) Q E s = wp (with_entry (opening_entry ctx operation) body) Q E s"
  by (simp add: audited_def)

lemma wp_entry_updates [wp_simps]:
  "wp (set_ids ids) Q E s = Q () (s\<lparr>entry := (entry s)\<lparr>ae_ids := ids\<rparr>\<rparr>)"
  "wp (set_count n) Q E s = Q () (s\<lparr>entry := (entry s)\<lparr>ae_count := n\<rparr>\<rparr>)"
  "wp (set_scope sc) Q E s = Q () (s\<lparr>entry := (entry s)\<lparr>ae_scope := sc\<rparr>\<rparr>)"
  "wp (set_outcome o') Q E s = Q () (s\<lparr>entry := (entry s)\<lparr>ae_outcome := o'\<rparr>\<rparr>)"
  "wp (log_event e) Q E s = Q () (s\<lparr>server_log := server_log s @ [e]\<rparr>)"
  by (simp_all add: set_ids_def set_count_def set_scope_def set_outcome_def log_event_def wp_simps)

lemma wp_call [wp_simps]:
  "wp (call m) Q E s = wp m (\<lambda>x w. Q x (s\<lparr>store := w\<rparr>)) (\<lambda>x w. E x (s\<lparr>store := w\<rparr>)) (store s)"
  by (simp add: wp_def call_def split: prod.splits sum.splits)

lemma entry_updates_run [act_simps]:
  "set_ids ids s = (Inr (), s\<lparr>entry := (entry s)\<lparr>ae_ids := ids\<rparr>\<rparr>)"
  "set_count n s = (Inr (), s\<lparr>entry := (entry s)\<lparr>ae_count := n\<rparr>\<rparr>)"
  "set_scope sc s = (Inr (), s\<lparr>entry := (entry s)\<lparr>ae_scope := sc\<rparr>\<rparr>)"
  "set_outcome o' s = (Inr (), s\<lparr>entry := (entry s)\<lparr>ae_outcome := o'\<rparr>\<rparr>)"
  "log_event e s = (Inr (), s\<lparr>server_log := server_log s @ [e]\<rparr>)"
  by (simp_all add: set_ids_def set_count_def set_scope_def set_outcome_def log_event_def act_simps)

lemma call_run [act_simps]:
  "call m s = (case m (store s) of (r, w) \<Rightarrow> (r, s\<lparr>store := w\<rparr>))"
  by (simp add: call_def)

text \<open>Predicates of the backend's state.\<close>

definition on_store :: "('w \<Rightarrow> bool) \<Rightarrow> 'w st \<Rightarrow> bool" where
  "on_store I s = I (store s)"

lemma keeps_call [keeps_rules]: "keeps I m \<Longrightarrow> keeps (on_store I) (call m)"
  by (auto simp: keeps_def on_store_def call_def split: prod.splits)

lemma keeps_entry_updates [keeps_rules]:
  "keeps (on_store I) (set_ids ids)" "keeps (on_store I) (set_count n)"
  "keeps (on_store I) (set_scope sc)" "keeps (on_store I) (set_outcome o')"
  "keeps (on_store I) (log_event e)"
  by (simp_all add: keeps_def on_store_def act_simps)

lemma keeps_with_entry [keeps_rules]:
  "keeps (on_store I) body \<Longrightarrow> keeps (on_store I) (with_entry e body)"
proof (unfold keeps_wp, intro allI impI)
  fix s
  assume body: "\<forall>s. on_store I s \<longrightarrow> wp body (\<lambda>_. on_store I) (\<lambda>_. on_store I) s" and s: "on_store I s"
  then have "wp body (\<lambda>_. on_store I) (\<lambda>_. on_store I) (s\<lparr>entry := e\<rparr>)"
    by (simp add: on_store_def)
  then show "wp (with_entry e body) (\<lambda>_. on_store I) (\<lambda>_. on_store I) s"
    unfolding wp_simps by (rule wp_mono) (simp_all add: on_store_def)
qed

lemma keeps_audited [keeps_rules]:
  "keeps (on_store I) body \<Longrightarrow> keeps (on_store I) (audited ctx operation body)"
  by (simp add: audited_def keeps_rules)

text \<open>
  A body writes no record of its own and leaves what the wrapper put in the entry: the
  operation, the actor and the outcome (only migration sets that).
\<close>

definition entry_head :: "audit_entry \<Rightarrow> audit_entry" where
  "entry_head e = e\<lparr>ae_ids := None, ae_count := None, ae_scope := None\<rparr>"

definition on_record :: "audit_entry \<Rightarrow> audit_entry list \<Rightarrow> 'w st \<Rightarrow> bool" where
  "on_record h L s \<longleftrightarrow> audit_log s = L \<and> entry_head (entry s) = h"

lemma keeps_record [keeps_rules]:
  "keeps (on_record h L) (call m)" "keeps (on_record h L) (set_ids ids)"
  "keeps (on_record h L) (set_count n)" "keeps (on_record h L) (set_scope sc)"
  "keeps (on_record h L) (log_event e)"
  by (auto simp: keeps_def on_record_def entry_head_def act_simps split: prod.splits)

lemma entry_head_settle: "entry_head (settle r e) = settle r (entry_head e)"
  by (cases r) (simp_all add: settle_def entry_head_def)

text \<open>So the wrapper appends exactly one, with the operation, the key and the outcome.\<close>

lemma with_entry_one:
  assumes "\<And>h L. keeps (on_record h L) body" and "with_entry e body s = (r, t)"
  shows "\<exists>x. audit_log t = audit_log s @ [x] \<and> entry_head x = settle r (entry_head e)"
proof -
  obtain r' t' where b: "body (s\<lparr>entry := e\<rparr>) = (r', t')" by (cases "body (s\<lparr>entry := e\<rparr>)")
  have "on_record (entry_head e) (audit_log s) t'"
    by (rule keepsD [OF assms(1) _ b]) (simp add: on_record_def)
  then show ?thesis using assms(2) b
    by (auto simp: with_entry_def on_record_def entry_head_settle)
qed

end
