(* ===== verification/Access.thy ===== *)
theory Access
  imports Audit_Log
begin

text \<open>
  \<open>memcp/policy/space.py\<close> and \<open>memcp/policy/access.py\<close>: the space check on every memory
  policy reads back, the partitions no space may use, the relation an operation needs, and the
  startup check of the granted spaces. The lemmas: a memory that passes the space check is in the
  partition policy asked for; what a key may do; which spaces startup serves.
\<close>

section \<open>The space check\<close>

definition in_space :: "memory \<Rightarrow> pystr \<Rightarrow> bool" where
  "in_space m p \<longleftrightarrow>
     m_partition m = p \<and> (case sys_space (m_system m) of None \<Rightarrow> True | Some v \<Rightarrow> v = JStr p)"

definition check_space ::
  "memory option \<Rightarrow> pystr \<Rightarrow> pystr \<Rightarrow> pystr \<Rightarrow> ('w st, memory) act" where
  "check_space memory p operation memory_id =
     (case memory of
        Some m \<Rightarrow>
          if in_space m p then ret m
          else
            seq (log_event (Isolation_violation operation memory_id p (Some (m_partition m))
                   (sys_space (m_system m)))) (\<lambda>_.
            raise (PolicyError Internal_error (Policy_msg Internal_check_failed)))
      | None \<Rightarrow>
          seq (log_event (Isolation_violation operation memory_id p None None)) (\<lambda>_.
          raise (PolicyError Internal_error (Policy_msg Internal_check_failed))))"

definition check_spaces ::
  "memory list \<Rightarrow> pystr \<Rightarrow> pystr \<Rightarrow> ('w st, memory list) act" where
  "check_spaces memories p operation =
     for_each (\<lambda>m. check_space (Some m) p operation (m_id m)) memories"

lemma wp_check_space [wp_simps]:
  "wp (check_space memory p operation i) Q E s =
     (case memory of
        Some m \<Rightarrow>
          if in_space m p then Q m s
          else E (PolicyError Internal_error (Policy_msg Internal_check_failed))
            (s\<lparr>server_log := server_log s @ [Isolation_violation operation i p
                (Some (m_partition m)) (sys_space (m_system m))]\<rparr>)
      | None \<Rightarrow> E (PolicyError Internal_error (Policy_msg Internal_check_failed))
          (s\<lparr>server_log := server_log s @ [Isolation_violation operation i p None None]\<rparr>))"
  by (auto simp: check_space_def wp_simps split: option.splits)

text \<open>A check either returns every memory as it was, all in the space, or refuses.\<close>

lemma check_space_run:
  "check_space memory p op i s =
     (case memory of
        Some m \<Rightarrow>
          if in_space m p then (Inr m, s)
          else (Inl (PolicyError Internal_error (Policy_msg Internal_check_failed)),
            s\<lparr>server_log := server_log s @ [Isolation_violation op i p
                (Some (m_partition m)) (sys_space (m_system m))]\<rparr>)
      | None \<Rightarrow> (Inl (PolicyError Internal_error (Policy_msg Internal_check_failed)),
          s\<lparr>server_log := server_log s @ [Isolation_violation op i p None None]\<rparr>))"
  by (auto simp: check_space_def act_simps split: option.splits)

lemma check_spaces_ok:
  "(\<forall>m \<in> set ms. in_space m p) \<Longrightarrow> check_spaces ms p op s = (Inr ms, s)"
  unfolding check_spaces_def
  by (induction ms) (simp_all add: act_simps check_space_run)

lemma check_spaces_bad:
  "\<not> (\<forall>m \<in> set ms. in_space m p) \<Longrightarrow> \<exists>m \<in> set ms. \<not> in_space m p \<and>
     check_spaces ms p op s =
       (Inl (PolicyError Internal_error (Policy_msg Internal_check_failed)),
        s\<lparr>server_log := server_log s @ [Isolation_violation op (m_id m) p (Some (m_partition m))
            (sys_space (m_system m))]\<rparr>)"
  unfolding check_spaces_def
proof (induction ms)
  case (Cons a ms)
  show ?case
  proof (cases "in_space a p")
    case True
    with Cons.prems have "\<not> (\<forall>m \<in> set ms. in_space m p)" by simp
    from Cons.IH [OF this] True show ?thesis by (auto simp: act_simps check_space_run)
  qed (auto simp: act_simps check_space_run)
qed simp

lemma check_spaces_Inr:
  "check_spaces ms p op s = (Inr ms', t) \<Longrightarrow> ms' = ms \<and> t = s \<and> (\<forall>m \<in> set ms. in_space m p)"
  using check_spaces_ok [of ms p op s] check_spaces_bad [of ms p op s]
  by (cases "\<forall>m \<in> set ms. in_space m p") auto

lemma wp_check_spaces:
  "(\<forall>m \<in> set ms. in_space m p) \<longrightarrow> Q ms s \<Longrightarrow>
   (\<And>e. E (PolicyError Internal_error (Policy_msg Internal_check_failed)) (s\<lparr>server_log := e\<rparr>)) \<Longrightarrow>
   wp (check_spaces ms p op) Q E s"
  using check_spaces_ok [of ms p op s] check_spaces_bad [of ms p op s]
  by (cases "\<forall>m \<in> set ms. in_space m p") (auto simp: wp_def)

lemma ensures_check_space [ensures_rules]: "ensures (check_space m p op i) (\<lambda>x. in_space x p)"
  by (auto simp: ensures_def check_space_run split: option.splits if_splits)

lemma ensures_check_spaces [ensures_rules]:
  "ensures (check_spaces ms p op) (\<lambda>xs. xs = ms \<and> list_all (\<lambda>m. in_space m p) xs)"
  by (auto simp: ensures_def list_all_iff dest!: check_spaces_Inr)

section \<open>Partitions\<close>

definition refuse_unusable_partition :: "'w backend \<Rightarrow> pystr \<Rightarrow> unit checked" where
  "refuse_unusable_partition B p =
     (if is_wildcard (JStr p) then Inl (Policy_msg (Partition_unusable p))
      else b_validate_partition B p)"

section \<open>What a key may do\<close>

definition require :: "key option \<Rightarrow> relation \<Rightarrow> exc + key" where
  "require ctx relation =
     res_bind (current_key ctx) (\<lambda>key.
       if relation = Writer \<and> g_relation (k_grant key) \<noteq> Writer
       then Inl (PolicyError Forbidden (Policy_msg Forbidden_write))
       else Inr key)"

definition PORTABLE_SPACE_LENGTH :: nat where "PORTABLE_SPACE_LENGTH = 128"

text \<open>The category Cc: C0 with DEL, and C1.\<close>

definition is_control :: "uchar \<Rightarrow> bool" where
  "is_control c \<longleftrightarrow> (0 \<le> c \<and> c \<le> 31) \<or> (127 \<le> c \<and> c \<le> 159)"

definition not_portable :: "pystr \<Rightarrow> bool" where
  "not_portable space =
     (if list_ex (\<lambda>c. is_space c \<or> is_control c) space then True
      else if length space > PORTABLE_SPACE_LENGTH then True
      else if prefix (u ''spc_'') space \<or> prefix (u ''__'') space then True
      else False)"

fun check_spaces_from :: "'w backend \<Rightarrow> pystr list \<Rightarrow> (log_event list, unit) act" where
  "check_spaces_from B [] = ret ()"
| "check_spaces_from B (space # spaces) =
     (case refuse_unusable_partition B space of
        Inl m \<Rightarrow> raise (ValueError (Unusable_space space m))
      | Inr _ \<Rightarrow>
          seq (if not_portable space then modify (\<lambda>evs. evs @ [Space_not_portable space]) else ret ()) (\<lambda>_.
          check_spaces_from B spaces))"

definition check_granted_spaces :: "'w backend \<Rightarrow> pystr list \<Rightarrow> (log_event list, unit) act" where
  "check_granted_spaces B spaces = check_spaces_from B (fromkeys spaces)"

text \<open>A key passes for the relations up to its own.\<close>

lemma require_ok: "require ctx r = Inr k \<longleftrightarrow> ctx = Some k \<and> r \<le> g_relation (k_grant k)"
  by (cases r) (auto simp: require_def current_key_def split: option.splits)

lemma require_refused:
  "require ctx r = Inl e \<longleftrightarrow>
     (ctx = None \<and> e = LookupError)
     \<or> (\<exists>k. ctx = Some k \<and> r = Writer \<and> g_relation (k_grant k) = Reader
          \<and> e = PolicyError Forbidden (Policy_msg Forbidden_write))"
  by (auto simp: require_def current_key_def split: option.splits)
     (metis relation.exhaust)+

lemma check_spaces_from_ok:
  "(\<forall>sp \<in> set spaces. refuse_unusable_partition B sp = Inr ()) \<Longrightarrow>
   check_spaces_from B spaces evs =
     (Inr (), evs @ map Space_not_portable (filter not_portable spaces))"
  by (induction spaces arbitrary: evs) (auto simp: act_simps)

lemma check_spaces_from_Inr:
  "check_spaces_from B spaces evs = (Inr x, evs') \<Longrightarrow>
   \<forall>sp \<in> set spaces. refuse_unusable_partition B sp = Inr ()"
  by (induction spaces arbitrary: evs) (auto simp: act_simps split: sum.splits if_splits)

lemma granted_spaces_exact:
  "fst (check_granted_spaces B spaces evs) = Inr () \<longleftrightarrow>
     (\<forall>sp \<in> set spaces. refuse_unusable_partition B sp = Inr ())"
proof -
  have "fst (check_granted_spaces B spaces evs) = Inr () \<longleftrightarrow>
      (\<forall>sp \<in> set (fromkeys spaces). refuse_unusable_partition B sp = Inr ())"
    unfolding check_granted_spaces_def
    using check_spaces_from_ok [of "fromkeys spaces" B evs]
      check_spaces_from_Inr [of B "fromkeys spaces" evs]
    by (metis fst_conv prod.collapse)
  then show ?thesis by simp
qed

text \<open>
  Startup serves a key table exactly when every space it grants can be
  used (not empty, not \<open>*\<close>, and accepted by the backend), and then it warns once for each
  distinct space that is not portable, in the order of the file.
\<close>

theorem check_granted_spaces_exact:
  "(fst (check_granted_spaces B spaces evs) = Inr () \<longleftrightarrow>
      (\<forall>sp \<in> set spaces. refuse_unusable_partition B sp = Inr ()))
   \<and> (fst (check_granted_spaces B spaces evs) = Inr () \<longrightarrow>
      snd (check_granted_spaces B spaces evs) =
        evs @ map Space_not_portable (filter not_portable (fromkeys spaces)))"
  using check_spaces_from_ok [of "fromkeys spaces" B evs]
  by (auto simp: granted_spaces_exact) (simp add: check_granted_spaces_def)

section \<open>Code that calls the backend in one partition\<close>

text \<open>
  \<open>J\<close> is a predicate of policy's state that survives every call in the partition \<open>p\<close> with the
  arguments policy passes, and everything policy itself does to the entry and the log. Each
  operation of policy is shown once, in this locale, to keep such a \<open>J\<close>.
\<close>

locale partition_calls =
  fixes B :: "'w backend" and p :: pystr and J :: "'w st \<Rightarrow> bool"
  assumes add_call: "stamped p sy \<Longrightarrow> clean_keys (dict_keys (or_empty md)) \<Longrightarrow>
      keeps J (call (b_add B p c sc md infer (Some sy)))"
    and search_call: "keeps J (call (b_search B p q sc l th))"
    and delete_call: "keeps J (call (b_delete B p i))"
    and delete_all_call: "d \<noteq> [] \<Longrightarrow> keeps J (call (b_delete_all B p d))"
    and get_call: "keeps J (call (b_get B p i))"
    and update_call: "stamped p sy \<Longrightarrow> (\<And>x. pt = Some x \<Longrightarrow> clean_keys (patch_keys x)) \<Longrightarrow>
      keeps J (call (b_update B p i co pt (Some sy)))"
    and list_call: "keeps J (call (b_list_memories B p sc l cu))"
    and history_call: "keeps J (call (b_history B p i))"
    and entities_call: "keeps J (call (b_entities B p sc l))"
    and log_keeps: "keeps J (log_event e)"
    and ids_keeps: "keeps J (set_ids ids)"
    and count_keeps: "keeps J (set_count n)"
    and scope_keeps: "keeps J (set_scope sc)"
begin

lemmas reading = search_call get_call list_call history_call entities_call
  log_keeps ids_keeps count_keeps scope_keeps

lemma keeps_check_space: "keeps J (check_space m p op i)"
  by (auto simp: check_space_def intro!: keeps_rules reading split: option.splits)

lemma keeps_check_spaces: "keeps J (check_spaces ms p op)"
  by (auto simp: check_spaces_def intro!: keeps_rules keeps_check_space)

end

text \<open>The running operation's record is such a predicate for every backend; a predicate of the
  store is one when the backend's calls keep it.\<close>

interpretation recording: partition_calls B p "on_record h L" for B p h L
  by unfold_locales (rule keeps_rules)+

sublocale confined_backend \<subseteq> confined: partition_calls B p "on_store I"
  by unfold_locales (auto intro!: keeps_rules add_keeps search_keeps delete_keeps delete_all_keeps
      get_keeps update_keeps list_keeps history_keeps entities_keeps)

end
