(* ===== verification/Metadata.thy ===== *)
theory Metadata
  imports Backend
begin

text \<open>
  \<open>memcp/policy/metadata.py\<close>: the rules for a caller's metadata, its size as JSON, the merge
  patch of an update and the system fields policy stamps on a write. The lemmas: exactly what
  metadata passes, that policy's own merge of a patch is what the stores do with it, and that
  the size cap never keeps a caller from removing keys.
\<close>

section \<open>Values and keys\<close>

fun is_value :: "json \<Rightarrow> bool" where
  "is_value (JStr s) = True"
| "is_value (JBool b) = True"
| "is_value (JInt i) = True"
| "is_value (JFloat (Finite r)) = True"
| "is_value (JFloat f) = False"
| "is_value (JList vs) = list_all (\<lambda>v. case v of JStr s \<Rightarrow> True | _ \<Rightarrow> False) vs"
| "is_value (JObj d) = False"
| "is_value JNull = False"

fun validate_metadata :: "metadata \<Rightarrow> bool \<Rightarrow> unit checked" where
  "validate_metadata [] nulls = Inr ()"
| "validate_metadata ((k, v) # rest) nulls =
     (if is_reserved_metadata_key k then Inl (Metadata_msg (Reserved_key k))
      else if v = JNull \<and> nulls then validate_metadata rest nulls
      else if length k > MAX_METADATA_KEY_LENGTH then Inl (Metadata_msg (Key_too_long k))
      else if v = JNull then Inl (Metadata_msg (Key_null k))
      else if \<not> is_value v then Inl (Metadata_msg (Key_value_type k))
      else validate_metadata rest nulls)"

lemma validate_metadata_ok:
  "validate_metadata md nulls = Inr w \<longleftrightarrow>
     (\<forall>(k, v) \<in> set md. \<not> is_reserved_metadata_key k
        \<and> (if v = JNull then nulls else length k \<le> MAX_METADATA_KEY_LENGTH \<and> is_value v))"
  by (induction md nulls rule: validate_metadata.induct) auto

lemma validate_metadata_clean: "validate_metadata md nulls = Inr w \<Longrightarrow> clean_keys (dict_keys md)"
  by (auto simp: validate_metadata_ok clean_keys_def dict_keys_def)

section \<open>Size\<close>

text \<open>\<open>json.dumps(..., ensure_ascii=False, separators=(",", ":"))\<close>.\<close>

definition hex_digit :: "int \<Rightarrow> uchar" where
  "hex_digit n = (if n < 10 then 48 + n else 87 + n)"

definition escape_char :: "uchar \<Rightarrow> pystr" where
  "escape_char c =
     (if c = 34 then [92, 34]
      else if c = 92 then [92, 92]
      else if c = 10 then [92, 110]
      else if c = 13 then [92, 114]
      else if c = 9 then [92, 116]
      else if c = 12 then [92, 102]
      else if c = 8 then [92, 98]
      else if c < 32 then [92, 117, 48, 48, hex_digit (c div 16), hex_digit (c mod 16)]
      else [c])"

definition dumps_str :: "pystr \<Rightarrow> pystr" where
  "dumps_str s = [34] @ concat (map escape_char s) @ [34]"

fun dumps_float :: "pyfloat \<Rightarrow> pystr" where
  "dumps_float (Finite r) = r"
| "dumps_float Infinite = u ''Infinity''"
| "dumps_float Neg_infinite = u ''-Infinity''"
| "dumps_float Not_a_number = u ''NaN''"

fun json_dumps :: "json \<Rightarrow> pystr" where
  "json_dumps JNull = u ''null''"
| "json_dumps (JBool b) = (if b then u ''true'' else u ''false'')"
| "json_dumps (JInt i) = int_str i"
| "json_dumps (JFloat f) = dumps_float f"
| "json_dumps (JStr s) = dumps_str s"
| "json_dumps (JList vs) = [91] @ join [44] (map json_dumps vs) @ [93]"
| "json_dumps (JObj d) = [123] @ join [44] (map (\<lambda>(k, v). dumps_str k @ [58] @ json_dumps v) d) @ [125]"

text \<open>\<open>str.encode()\<close>: the bytes of a character in UTF-8; a lone surrogate raises.\<close>

definition utf8_len :: "uchar \<Rightarrow> nat" where
  "utf8_len c = (if c < 0x80 then 1 else if c < 0x800 then 2 else if c < 0x10000 then 3 else 4)"

definition is_surrogate :: "uchar \<Rightarrow> bool" where
  "is_surrogate c \<longleftrightarrow> 0xD800 \<le> c \<and> c \<le> 0xDFFF"

definition utf8_size :: "pystr \<Rightarrow> nat" where
  "utf8_size s = sum_list (map utf8_len s)"

text \<open>\<open>json.dumps\<close> raises ValueError for an integer of more than 4300 digits, as \<open>str\<close> does.\<close>

fun too_long_int :: "json \<Rightarrow> bool" where
  "too_long_int (JInt i) = (length (nat_digits (nat \<bar>i\<bar>)) > max_str_digits)"
| "too_long_int (JList vs) = list_ex too_long_int vs"
| "too_long_int (JObj d) = list_ex (\<lambda>(k, v). too_long_int v) d"
| "too_long_int v = False"

definition json_size :: "metadata \<Rightarrow> nat checked" where
  "json_size md =
     (let text = json_dumps (JObj md)
      in if too_long_int (JObj md) then Inl (Metadata_msg Int_too_long)
         else if list_ex is_surrogate text then Inl (Metadata_msg Unicode_encode_error)
         else Inr (utf8_size text))"

definition check_metadata_size :: "metadata \<Rightarrow> metadata option \<Rightarrow> unit checked" where
  "check_metadata_size md stored =
     res_bind (json_size md) (\<lambda>size.
       if size > MAX_METADATA_BYTES then
         (case stored of
            None \<Rightarrow> Inl (Metadata_msg (Metadata_too_big size))
          | Some st \<Rightarrow>
              res_bind (json_size st) (\<lambda>stored_size.
                if size > stored_size then Inl (Metadata_msg (Metadata_too_big size)) else Inr ()))
       else Inr ())"

section \<open>Patches and stamps\<close>

definition as_patch :: "metadata \<Rightarrow> exc + patch" where
  "as_patch md =
     make_patch (filter (\<lambda>(k, v). v \<noteq> JNull) md) (map fst (filter (\<lambda>(k, v). v = JNull) md))"

definition patched :: "metadata \<Rightarrow> patch \<Rightarrow> metadata" where
  "patched stored p = dict_update (filter (\<lambda>(k, v). k \<notin> set (p_remove p)) stored) (p_set p)"

definition system_for :: "pystr \<Rightarrow> pystr \<Rightarrow> pystr option \<Rightarrow> system" where
  "system_for p author created_by =
     \<lparr>sys_space = Some (JStr p), sys_author = Some author, sys_created_by = created_by\<rparr>"

lemma stamped_system_for [simp]: "stamped p (system_for p a c)"
  by (simp add: stamped_def system_for_def)

lemma system_for_sel [simp]:
  "sys_space (system_for p a c) = Some (JStr p)" "sys_author (system_for p a c) = Some a"
  "sys_created_by (system_for p a c) = c"
  by (simp_all add: system_for_def)

lemma as_patch_total:
  "wf_dict md \<Longrightarrow> as_patch md =
     Inr \<lparr>p_set = filter (\<lambda>(k, v). v \<noteq> JNull) md, p_remove = map fst (filter (\<lambda>(k, v). v = JNull) md)\<rparr>"
  by (auto simp: as_patch_def make_patch_ok map_of_wf_in_set)

lemma as_patch_keys: "as_patch md = Inr p \<Longrightarrow> set (patch_keys p) = fst ` set md"
  by (force simp: as_patch_def make_patch_ok patch_keys_def dict_keys_def)

lemma as_patch_clean:
  "as_patch md = Inr p \<Longrightarrow> clean_keys (dict_keys md) \<Longrightarrow> clean_keys (patch_keys p)"
  by (auto simp: clean_keys_def as_patch_keys dict_keys_def)

lemma dict_update_filter:
  assumes "\<And>k. k \<in> fst ` set e \<Longrightarrow> q k"
  shows "dict_update (filter (\<lambda>(k, v). q k) d) e = filter (\<lambda>(k, v). q k) (dict_update d e)"
  using assms
proof (induction e arbitrary: d)
  case (Cons x e)
  obtain k v where x: "x = (k, v)" by (cases x)
  have "q k" using Cons.prems x by auto
  then have "dict_set k v (filter (\<lambda>(k, v). q k) d) = filter (\<lambda>(k, v). q k) (dict_set k v d)" for d
    by (induction d) auto
  with Cons x show ?case by simp
qed simp

text \<open>
  What policy measures is what the store will hold. Policy drops the
  removed keys and then assigns; the stores assign and then pop; for a patch that passed its
  constructor both give the same dictionary, in the same order.
\<close>

theorem patched_eq_apply_patch:
  assumes "make_patch to_set to_remove = Inr p"
  shows "patched stored p = apply_patch p stored"
proof -
  have p: "p = \<lparr>p_set = to_set, p_remove = to_remove\<rparr>" "fst ` set to_set \<inter> set to_remove = {}"
    using assms by (auto simp: make_patch_ok)
  have pop: "fold dict_pop ks d = filter (\<lambda>(k, v). k \<notin> set ks) d" for ks and d :: metadata
  proof (induction ks arbitrary: d)
    case (Cons k ks)
    then show ?case by (auto simp: AList.delete_eq intro!: filter_cong)
  qed (simp add: case_prod_beta)
  show ?thesis
    using p dict_update_filter [where q = "\<lambda>k. k \<notin> set to_remove" and e = to_set and d = stored]
    by (auto simp: patched_def apply_patch_def pop)
qed

section \<open>The size cap\<close>

lemma utf8_size_simps [simp]:
  "utf8_size [] = 0" "utf8_size (c # s) = utf8_len c + utf8_size s"
  "utf8_size (s @ t) = utf8_size s + utf8_size t"
  by (simp_all add: utf8_size_def)

lemma utf8_size_join_filter:
  "utf8_size (join sep (map f (filter q d))) \<le> utf8_size (join sep (map f d))"
  by (induction d) (auto simp: join_Cons)

lemma set_join_subset: "set (join sep ss) \<subseteq> set sep \<union> \<Union> (set ` set ss)"
  by (induction ss) (auto simp: join_Cons split: if_splits)

lemma set_join_supset: "\<Union> (set ` set ss) \<subseteq> set (join sep ss)"
  by (induction ss) (auto simp: join_Cons)

lemma json_size_filter:
  assumes "json_size md = Inr n"
  shows "\<exists>k \<le> n. json_size (filter q md) = Inr k"
proof -
  let ?f = "\<lambda>(k, v). dumps_str k @ [58] @ json_dumps v"
  have size: "utf8_size (json_dumps (JObj (filter q md))) \<le> utf8_size (json_dumps (JObj md))"
    using utf8_size_join_filter [of "[44]" ?f q md] by simp
  have "\<not> is_surrogate c" if "c \<in> set (json_dumps (JObj (filter q md)))" for c
  proof (cases "c \<in> {123, 125, 44}")
    case True
    then show ?thesis by (auto simp: is_surrogate_def)
  next
    case False
    with that have "c \<in> set (join [44] (map ?f (filter q md)))" by simp
    then have "c \<in> set [44] \<union> \<Union> (set ` set (map ?f (filter q md)))"
      using set_join_subset [of "[44]" "map ?f (filter q md)"] by (rule subsetD [rotated])
    with False have "c \<in> \<Union> (set ` set (map ?f (filter q md)))" by (elim UnE) simp_all
    then have "c \<in> \<Union> (set ` set (map ?f md))" by auto
    then have "c \<in> set (json_dumps (JObj md))"
      using set_join_supset [of "map ?f md" "[44]"] by auto
    with assms show ?thesis by (auto simp: json_size_def Let_def list_ex_iff split: if_splits)
  qed
  with size assms show ?thesis
    by (auto simp: json_size_def Let_def list_ex_iff split: if_splits)
qed

lemma check_metadata_size_ok:
  "check_metadata_size md stored = Inr w \<longleftrightarrow>
     (\<exists>n. json_size md = Inr n
        \<and> (n \<le> MAX_METADATA_BYTES \<or> (\<exists>st k. stored = Some st \<and> json_size st = Inr k \<and> n \<le> k)))"
  by (auto simp: check_metadata_size_def res_bind_eq_Inr not_less split: option.splits)

text \<open>
  The cap bounds what is stored but never blocks a clean-up. Metadata
  that passes is at most 16 KiB as UTF-8 JSON, or no larger than what was stored; and a patch
  that only removes keys always passes, however large the stored metadata is.
\<close>

theorem metadata_cap:
  "(check_metadata_size md stored = Inr () \<longrightarrow>
      (\<exists>n. json_size md = Inr n
         \<and> (n \<le> 16384 \<or> (\<exists>st k. stored = Some st \<and> json_size st = Inr k \<and> n \<le> k))))
   \<and> (json_size old = Inr k \<longrightarrow> p_set p = [] \<longrightarrow>
      check_metadata_size (patched old p) (Some old) = Inr ())"
proof (intro conjI impI)
  assume "check_metadata_size md stored = Inr ()"
  then show "\<exists>n. json_size md = Inr n
         \<and> (n \<le> 16384 \<or> (\<exists>st k. stored = Some st \<and> json_size st = Inr k \<and> n \<le> k))"
    by (simp add: check_metadata_size_ok MAX_METADATA_BYTES_def)
next
  assume old: "json_size old = Inr k" and only: "p_set p = []"
  obtain n where "n \<le> k" "json_size (patched old p) = Inr n"
    using json_size_filter [OF old] only by (auto simp: patched_def)
  with old show "check_metadata_size (patched old p) (Some old) = Inr ()"
    by (auto simp: check_metadata_size_ok)
qed

end
