(* ===== verification/Export_Import.thy ===== *)
theory Export_Import
  imports Access Metadata
begin

text \<open>
  \<open>memcp/policy/transfer.py\<close>: the paged read that export, import and migration share, the
  dedup identity of a memory, the import loop with its conflict modes, and migration between two
  backends. The read loop follows the backend's cursors; it ends for every backend because each
  round but the last adds a memory and the loop stops past the limit. The lemmas: what the read
  returns, how the dedup identity behaves, and what one import step does.
\<close>

section \<open>Dedup identity\<close>

type_synonym dedup = "pystr \<times> (pystr \<times> pystr) list"

definition scope_key :: "scope option \<Rightarrow> (pystr \<times> pystr) list" where
  "scope_key sc =
     sort (map (\<lambda>(k, v). (k, scope_text v)) (filter (\<lambda>(k, v). v \<noteq> JNull) (or_empty sc)))"

definition dedup_key :: "pystr \<Rightarrow> scope option \<Rightarrow> dedup" where
  "dedup_key content sc = (content, scope_key sc)"

section \<open>Shapes\<close>

record export_result =
  x_memories :: "wire list"
  x_count :: nat
  x_truncated :: bool

datatype import_action = Created | Updated

record import_outcome =
  imported :: "(pystr \<times> nat \<times> import_action) list"
  skipped :: "(nat \<times> pystr) list"
  errors :: "(nat \<times> message) list"
  dedup_incomplete :: bool

record migration_report =
  mr_source :: pystr
  mr_target :: pystr
  mr_exported :: nat
  mr_truncated :: bool
  mr_imported :: nat
  mr_skipped :: nat
  mr_errors :: "(nat \<times> message) list"
  mr_dedup_incomplete :: bool

text \<open>The three keys an import reads of an entry; \<open>None\<close> when the key is absent.\<close>

record import_entry =
  ie_content :: "json option"
  ie_scope :: "json option"
  ie_metadata :: "json option"

definition read_entry :: "(pystr, json) dict \<Rightarrow> import_entry" where
  "read_entry d =
     \<lparr>ie_content = map_of d (u ''content''), ie_scope = map_of d (u ''scope''),
      ie_metadata = map_of d (u ''metadata'')\<rparr>"

definition wire_entry :: "wire \<Rightarrow> import_entry" where
  "wire_entry w =
     \<lparr>ie_content = Some (JStr (w_content w)), ie_scope = Some (JObj (w_scope w)),
      ie_metadata = Some (JObj (w_metadata w))\<rparr>"

section \<open>Reading everything\<close>

lemma for_each_length: "for_each f xs s = (Inr ys, t) \<Longrightarrow> length ys = length xs"
  by (induction xs arbitrary: s ys t) (auto simp: act_simps split: prod.splits sum.splits)

function list_all_from ::
  "'w backend \<Rightarrow> pystr \<Rightarrow> int \<Rightarrow> pystr \<Rightarrow> memory list \<Rightarrow> bool \<Rightarrow> pystr option
   \<Rightarrow> 'w st \<Rightarrow> (exc + (memory list \<times> bool)) \<times> 'w st" where
  "list_all_from B p limit operation memories incomplete cursor s =
     (case call (b_list_memories B p None (limit + 1 - int (length memories)) cursor) s of
        (Inl e, s) \<Rightarrow> (Inl e, s)
      | (Inr page, s) \<Rightarrow>
          (case check_spaces (l_memories page) p operation s of
             (Inl e, s) \<Rightarrow> (Inl e, s)
           | (Inr checked, s) \<Rightarrow>
               let memories = memories @ checked;
                   incomplete = (incomplete \<or> l_incomplete page);
                   cursor = l_next_cursor page
               in if cursor = None \<or> l_memories page = [] \<or> int (length memories) > limit
                  then (Inr (py_slice memories 0 limit,
                             incomplete \<or> int (length memories) > limit \<or> cursor \<noteq> None), s)
                  else list_all_from B p limit operation memories incomplete cursor s))"
  by pat_completeness auto
termination
  by (relation "measure (\<lambda>(B, p, limit, operation, memories, incomplete, cursor, s).
        nat (limit + 1 - int (length memories)))")
     (auto dest!: check_spaces_Inr [OF sym])

declare list_all_from.simps [simp del]

lemma list_all_from_seq:
  "list_all_from B p limit operation memories incomplete cursor =
     seq (call (b_list_memories B p None (limit + 1 - int (length memories)) cursor)) (\<lambda>page.
     seq (check_spaces (l_memories page) p operation) (\<lambda>checked.
     if l_next_cursor page = None \<or> l_memories page = [] \<or> int (length (memories @ checked)) > limit
     then ret (py_slice (memories @ checked) 0 limit,
               (incomplete \<or> l_incomplete page) \<or> int (length (memories @ checked)) > limit
               \<or> l_next_cursor page \<noteq> None)
     else list_all_from B p limit operation (memories @ checked) (incomplete \<or> l_incomplete page)
            (l_next_cursor page)))"
  by (rule ext, subst list_all_from.simps)
    (auto simp: act_simps Let_def split: prod.splits sum.splits)

definition list_all_memories ::
  "'w backend \<Rightarrow> pystr \<Rightarrow> int \<Rightarrow> pystr \<Rightarrow> ('w st, memory list \<times> bool) act" where
  "list_all_memories B p limit operation = list_all_from B p limit operation [] False None"

definition run_export :: "'w backend \<Rightarrow> pystr \<Rightarrow> int \<Rightarrow> ('w st, export_result) act" where
  "run_export B p limit =
     seq (list_all_memories B p limit (u ''export'')) (\<lambda>(memories, truncated).
     ret \<lparr>x_memories = map serialize_memory memories, x_count = length memories,
          x_truncated = truncated\<rparr>)"

definition index_memories :: "memory list \<Rightarrow> (dedup, memory) dict" where
  "index_memories memories =
     fold (\<lambda>m. dict_set (dedup_key (m_content m) (Some (m_scope m))) m) memories []"

definition build_dedup_index ::
  "'w backend \<Rightarrow> pystr \<Rightarrow> int \<Rightarrow> pystr \<Rightarrow> ('w st, (dedup, memory) dict \<times> bool) act" where
  "build_dedup_index B p limit operation =
     seq (list_all_memories B p limit operation) (\<lambda>(memories, incomplete).
     ret (index_memories memories, incomplete))"

definition memory_by_identity :: "memory list \<Rightarrow> (dedup, memory) dict" where
  "memory_by_identity memories = index_memories memories"

section \<open>Import\<close>

definition ON_CONFLICT_CHOICES :: "pystr list" where
  "ON_CONFLICT_CHOICES = [u ''skip'', u ''overwrite'', u ''duplicate'']"

definition refuse_on_conflict :: "'w backend \<Rightarrow> pystr \<Rightarrow> unit checked" where
  "refuse_on_conflict B on_conflict =
     (if on_conflict \<notin> set ON_CONFLICT_CHOICES then Inl (Transfer_msg On_conflict_unknown)
      else if on_conflict = u ''overwrite'' \<and> u ''update'' \<notin> set (b_capabilities B)
      then Inl (Transfer_msg On_conflict_needs_update)
      else Inr ())"

text \<open>
  A scope validator takes the entry's scope (never null) and gives the scope to store or a
  message. Without one the scope is used as it is; only migration does so, with objects.
\<close>

type_synonym scope_validator = "json \<Rightarrow> scope option checked"

definition scope_as_given :: scope_validator where
  "scope_as_given j = (case j of JObj d \<Rightarrow> Inr (Some d) | _ \<Rightarrow> Inr None)"

text \<open>The checks on one entry, in the loop's order: content, scope, metadata.\<close>

definition entry_content :: "import_entry \<Rightarrow> pystr checked" where
  "entry_content x =
     (case ie_content x of
        Some (JStr content) \<Rightarrow> res_bind (validate_content content) (\<lambda>_. Inr content)
      | _ \<Rightarrow> Inl (Transfer_msg Missing_content))"

definition entry_scope :: "scope_validator \<Rightarrow> import_entry \<Rightarrow> scope option checked" where
  "entry_scope validator x =
     (case ie_scope x of
        None \<Rightarrow> Inr None
      | Some j \<Rightarrow> if j = JNull then Inr None else validator j)"

definition entry_metadata :: "import_entry \<Rightarrow> metadata option checked" where
  "entry_metadata x =
     res_bind
       (case ie_metadata x of
          None \<Rightarrow> Inr None
        | Some JNull \<Rightarrow> Inr None
        | Some (JObj d) \<Rightarrow> Inr (Some d)
        | Some _ \<Rightarrow> Inl (Transfer_msg Metadata_not_object)) (\<lambda>md.
     res_bind (case md of None \<Rightarrow> Inr () | Some d \<Rightarrow> validate_metadata d False) (\<lambda>_.
     res_bind (check_metadata_size (or_empty md) None) (\<lambda>_.
     Inr md)))"

definition check_entry ::
  "scope_validator \<Rightarrow> import_entry \<Rightarrow> (pystr \<times> scope option \<times> metadata option) checked" where
  "check_entry validator x =
     res_bind (entry_content x) (\<lambda>content.
     res_bind (entry_scope validator x) (\<lambda>sc.
     res_bind (entry_metadata x) (\<lambda>md.
     Inr (content, sc, md))))"

text \<open>The variables the loop carries.\<close>

record import_state =
  is_existing :: "(dedup, memory) dict"
  is_outcome :: import_outcome
  is_failures :: nat

definition add_error :: "nat \<Rightarrow> message \<Rightarrow> import_state \<Rightarrow> import_state" where
  "add_error i m is = is\<lparr>is_outcome := (is_outcome is)\<lparr>errors := errors (is_outcome is) @ [(i, m)]\<rparr>\<rparr>"

definition add_skipped :: "nat \<Rightarrow> pystr \<Rightarrow> import_state \<Rightarrow> import_state" where
  "add_skipped i j is = is\<lparr>is_outcome := (is_outcome is)\<lparr>skipped := skipped (is_outcome is) @ [(i, j)]\<rparr>\<rparr>"

definition add_imported ::
  "dedup \<Rightarrow> memory \<Rightarrow> pystr \<Rightarrow> nat \<Rightarrow> import_action \<Rightarrow> import_state \<Rightarrow> import_state" where
  "add_imported key m j i action is = is
     \<lparr>is_existing := dict_set key m (is_existing is),
      is_outcome := (is_outcome is)\<lparr>imported := imported (is_outcome is) @ [(j, i, action)]\<rparr>\<rparr>"

definition record_backend_failure ::
  "nat \<Rightarrow> int \<Rightarrow> message \<Rightarrow> import_state \<Rightarrow> ('w st, import_state) act" where
  "record_backend_failure i status body is =
     seq (if is_failures is = 0
          then log_event (log_backend_error status body (Transfer_msg (Import_entry i))) else ret ()) (\<lambda>_.
     ret (add_error i (client_message status) (is\<lparr>is_failures := Suc (is_failures is)\<rparr>)))"

text \<open>\<open>try: ... except MemoryAPIError as e\<close>: the status and body as a value.\<close>

definition attempt :: "('s, 'a) act \<Rightarrow> ('s, (int \<times> message) + 'a) act" where
  "attempt m =
     catch (seq m (\<lambda>x. ret (Inr x)))
       (\<lambda>e. case e of MemoryAPIError status body \<Rightarrow> ret (Inl (status, body)) | _ \<Rightarrow> raise e)"

text \<open>\<open>stamp\<close>: the system fields for entry \<open>i\<close>, given those of the memory it overwrites.\<close>

type_synonym stamp = "nat \<Rightarrow> system option \<Rightarrow> system"

definition overwrite_patch :: "metadata option \<Rightarrow> memory \<Rightarrow> exc + patch option" where
  "overwrite_patch md dup =
     (case md of
        None \<Rightarrow> Inr None
      | Some d \<Rightarrow>
          res_bind (make_patch d (filter (\<lambda>k. k \<notin> set (dict_keys d) \<and> \<not> is_reserved_metadata_key k)
              (dict_keys (m_metadata dup)))) (\<lambda>pt. Inr (Some pt)))"

definition import_overwrite ::
  "'w backend \<Rightarrow> pystr \<Rightarrow> stamp option \<Rightarrow> pystr \<Rightarrow> nat \<Rightarrow> dedup \<Rightarrow> pystr \<Rightarrow> metadata option
   \<Rightarrow> memory \<Rightarrow> import_state \<Rightarrow> ('w st, import_state) act" where
  "import_overwrite B p stamp operation i key content md dup is =
     seq (from_result (overwrite_patch md dup)) (\<lambda>pt.
     seq (attempt (call (b_update B p (m_id dup) (Some content) pt
            (map_option (\<lambda>f. f i (Some (m_system dup))) stamp)))) (\<lambda>r.
       case r of
         Inl (status, body) \<Rightarrow> record_backend_failure i status body is
       | Inr updated \<Rightarrow>
           seq (check_space (Some updated) p operation (m_id dup)) (\<lambda>m.
           ret (add_imported key m (m_id dup) i Updated is))))"

fun import_read_back ::
  "'w backend \<Rightarrow> pystr \<Rightarrow> pystr \<Rightarrow> nat \<Rightarrow> dedup \<Rightarrow> add_result list \<Rightarrow> import_state
   \<Rightarrow> ('w st, import_state) act" where
  "import_read_back B p operation i key [] is = ret is"
| "import_read_back B p operation i key (r # rs) is =
     seq (attempt (call (b_get B p (r_id r)))) (\<lambda>g.
     seq (case g of
            Inl (status, body) \<Rightarrow> record_backend_failure i status body is
          | Inr stored \<Rightarrow>
              seq (check_space stored p operation (r_id r)) (\<lambda>m.
              ret (add_imported key m (r_id r) i Created is))) (\<lambda>is.
     import_read_back B p operation i key rs is))"

definition import_create ::
  "'w backend \<Rightarrow> pystr \<Rightarrow> stamp option \<Rightarrow> pystr \<Rightarrow> nat \<Rightarrow> dedup \<Rightarrow> pystr \<Rightarrow> scope option
   \<Rightarrow> metadata option \<Rightarrow> import_state \<Rightarrow> ('w st, import_state) act" where
  "import_create B p stamp operation i key content sc md is =
     seq (attempt (call (b_add B p content sc md False (map_option (\<lambda>f. f i None) stamp)))) (\<lambda>r.
       case r of
         Inl (status, body) \<Rightarrow> record_backend_failure i status body is
       | Inr result \<Rightarrow>
           if \<not> add_truthy result then ret (add_error i (Transfer_msg Stored_nothing) is)
           else import_read_back B p operation i key (add_items result) is)"

definition import_one ::
  "'w backend \<Rightarrow> pystr \<Rightarrow> pystr \<Rightarrow> scope_validator \<Rightarrow> stamp option \<Rightarrow> pystr \<Rightarrow> nat \<Rightarrow> import_entry
   \<Rightarrow> import_state \<Rightarrow> ('w st, import_state) act" where
  "import_one B p on_conflict validator stamp operation i x is =
     (case check_entry validator x of
        Inl m \<Rightarrow> ret (add_error i m is)
      | Inr (content, sc, md) \<Rightarrow>
          let key = dedup_key content sc
          in (case map_of (is_existing is) key of
                Some dup \<Rightarrow>
                  if on_conflict = u ''skip'' then ret (add_skipped i (m_id dup) is)
                  else if on_conflict = u ''overwrite''
                  then import_overwrite B p stamp operation i key content md dup is
                  else import_create B p stamp operation i key content sc md is
              | None \<Rightarrow> import_create B p stamp operation i key content sc md is))"

fun import_loop ::
  "'w backend \<Rightarrow> pystr \<Rightarrow> pystr \<Rightarrow> scope_validator \<Rightarrow> stamp option \<Rightarrow> pystr \<Rightarrow> nat \<Rightarrow> import_entry list
   \<Rightarrow> import_state \<Rightarrow> ('w st, import_state) act" where
  "import_loop B p on_conflict validator stamp operation i [] is = ret is"
| "import_loop B p on_conflict validator stamp operation i (x # xs) is =
     seq (import_one B p on_conflict validator stamp operation i x is) (\<lambda>is.
     import_loop B p on_conflict validator stamp operation (Suc i) xs is)"

definition no_outcome :: "bool \<Rightarrow> import_outcome" where
  "no_outcome incomplete =
     \<lparr>imported = [], skipped = [], errors = [], dedup_incomplete = incomplete\<rparr>"

definition import_payload ::
  "'w backend \<Rightarrow> pystr \<Rightarrow> import_entry list \<Rightarrow> pystr \<Rightarrow> scope_validator \<Rightarrow> int \<Rightarrow> stamp option \<Rightarrow> pystr
   \<Rightarrow> ('w st, import_outcome) act" where
  "import_payload B p memories on_conflict validator dedup_limit stamp operation =
     seq (from_result (raising (refuse_on_conflict B on_conflict))) (\<lambda>_.
     seq (if on_conflict \<noteq> u ''duplicate''
          then build_dedup_index B p dedup_limit operation else ret ([], False)) (\<lambda>(existing, incomplete).
     seq (import_loop B p on_conflict validator stamp operation 0 memories
            \<lparr>is_existing = existing, is_outcome = no_outcome incomplete, is_failures = 0\<rparr>) (\<lambda>is.
     seq (if is_failures is > 1
          then log_event (Backend_errors_counted (is_failures is - 1)) else ret ()) (\<lambda>_.
     ret (is_outcome is)))))"

section \<open>Migration\<close>

text \<open>
  Both backends act on one state: two stores side by side, or one store twice when the memories
  move between its partitions. \<open>enabled\<close> and \<open>chain\<close> are the audit logger's (see \<open>can_record\<close>).
\<close>

definition refuse_migration ::
  "'w backend \<Rightarrow> 'w backend \<Rightarrow> pystr \<Rightarrow> pystr \<Rightarrow> pystr \<Rightarrow> unit checked" where
  "refuse_migration source target p landing on_conflict =
     res_bind (refuse_unusable_partition source p) (\<lambda>_.
     res_bind (refuse_unusable_partition target landing) (\<lambda>_.
     refuse_on_conflict target on_conflict))"

definition copy_system :: "memory list \<Rightarrow> pystr \<Rightarrow> stamp" where
  "copy_system memories landing i stored = (m_system (memories ! i))\<lparr>sys_space := Some (JStr landing)\<rparr>"

definition migrate ::
  "bool \<Rightarrow> ((bool \<times> int) list \<times> bool) list \<Rightarrow> 'w backend \<Rightarrow> 'w backend \<Rightarrow> pystr \<Rightarrow> pystr
   \<Rightarrow> pystr option \<Rightarrow> pystr \<Rightarrow> int \<Rightarrow> pystr \<Rightarrow> pystr \<Rightarrow> scope_validator
   \<Rightarrow> ('w st, migration_report) act" where
  "migrate enabled chain source target p operator target_partition on_conflict limit
      source_name target_name validator =
     seq (from_result (check_that (strip operator \<noteq> []) (ValueError (Transfer_msg Operator_blank)))) (\<lambda>_.
     seq (from_result (check_that (can_record enabled chain) (ValueError (Transfer_msg Audit_unrecorded)))) (\<lambda>_.
     let landing = (case target_partition of None \<Rightarrow> p | Some q \<Rightarrow> q)
     in audited_operator (u ''migrate'') operator landing p (
          seq (catch (from_result (raising (refuse_migration source target p landing on_conflict)))
                 (\<lambda>e. seq (set_outcome (Outcome_code Validation_error)) (\<lambda>_. raise e))) (\<lambda>_.
          seq (list_all_memories source p limit (u ''migrate'')) (\<lambda>(memories, truncated).
          seq (import_payload target landing (map (wire_entry \<circ> serialize_memory) memories)
                 on_conflict validator limit (Some (copy_system memories landing)) (u ''migrate'')) (\<lambda>outcome.
          seq (set_count (Some (int (length (imported outcome))))) (\<lambda>_.
          ret \<lparr>mr_source = source_name, mr_target = target_name, mr_exported = length memories,
               mr_truncated = truncated, mr_imported = length (imported outcome),
               mr_skipped = length (skipped outcome), mr_errors = errors outcome,
               mr_dedup_incomplete = dedup_incomplete outcome\<rparr>)))))))"

section \<open>What the loops keep\<close>

lemma entry_metadata_clean:
  "entry_metadata x = Inr md \<Longrightarrow> clean_keys (dict_keys (or_empty md))"
  by (auto simp: entry_metadata_def res_bind_eq_Inr dict_keys_def
      dest!: validate_metadata_clean split: option.splits json.splits)

lemma check_entry_ok:
  "check_entry validator x = Inr (content, sc, md) \<longleftrightarrow>
     entry_content x = Inr content \<and> entry_scope validator x = Inr sc \<and> entry_metadata x = Inr md"
  by (auto simp: check_entry_def res_bind_eq_Inr)

lemma overwrite_patch_clean:
  assumes "overwrite_patch md dup = Inr (Some pt)" and "clean_keys (dict_keys (or_empty md))"
  shows "clean_keys (patch_keys pt)"
  using assms
  by (auto simp: overwrite_patch_def res_bind_eq_Inr make_patch_ok patch_keys_def clean_keys_def
      split: option.splits)

lemma copy_system_stamped: "stamped landing (copy_system memories landing i stored)"
  by (simp add: copy_system_def stamped_def)

lemma ensures_list_all_from:
  "list_all (\<lambda>m. in_space m p) memories \<Longrightarrow>
   ensures (list_all_from B p limit op memories inc cursor) (\<lambda>(ms, b). list_all (\<lambda>m. in_space m p) ms)"
proof (induction "nat (limit + 1 - int (length memories))" arbitrary: memories inc cursor rule: less_induct)
  case less
  have slice: "list_all Q xs \<Longrightarrow> list_all Q (py_slice xs i j)" for Q and xs :: "memory list" and i j
    using set_py_slice [of xs i j] by (auto simp: list_all_iff)
  from less show ?case
    by (subst list_all_from_seq)
       (fastforce intro!: ensures_seq [where m = "call m" for m] ensures_seq_with [OF ensures_check_spaces]
          ensures_if ensures_ret less.hyps simp: slice)
qed

lemma ensures_list_all:
  "ensures (list_all_memories B p limit op) (\<lambda>(ms, b). list_all (\<lambda>m. in_space m p) ms)"
  by (simp add: list_all_memories_def ensures_list_all_from)

context partition_calls
begin

lemma keeps_list_all_from: "keeps J (list_all_from B p limit op memories inc cursor)"
proof -
  have "J s \<Longrightarrow> J (snd (list_all_from B p limit op memories inc cursor s))" for s
  proof (induction B \<equiv> B p \<equiv> p limit op memories inc cursor s rule: list_all_from.induct)
    case (1 limit op memories inc cursor s)
    obtain r t where c: "call (b_list_memories B p None (limit + 1 - int (length memories)) cursor) s = (r, t)"
      by (cases "call (b_list_memories B p None (limit + 1 - int (length memories)) cursor) s")
    then have t: "J t" using list_call 1(2) by (blast intro: keepsD)
    show ?case
    proof (cases r)
      case (Inl e)
      with c t show ?thesis by (simp add: list_all_from.simps)
    next
      case (Inr page)
      obtain r' t' where k: "check_spaces (l_memories page) p op t = (r', t')"
        by (cases "check_spaces (l_memories page) p op t")
      then have t': "J t'" using keeps_check_spaces t by (blast intro: keepsD)
      show ?thesis
      proof (cases r')
        case (Inl e)
        with c Inr k t' show ?thesis by (subst list_all_from.simps) simp
      next
        case ok: (Inr checked)
        show ?thesis
          using 1(1) [OF c [symmetric] Inr k [symmetric] ok] t' c Inr k ok
          by (subst list_all_from.simps) (simp add: Let_def)
      qed
    qed
  qed
  then show ?thesis by (simp add: keeps_def)
qed

lemma keeps_list_all: "keeps J (list_all_memories B p limit op)"
  by (simp add: list_all_memories_def keeps_list_all_from)

lemma keeps_export: "keeps J (run_export B p limit)"
  by (auto simp: run_export_def intro!: keeps_rules keeps_list_all)

lemma keeps_failure: "keeps J (record_backend_failure i status body is)"
  by (auto simp: record_backend_failure_def intro!: keeps_rules log_keeps)

lemma keeps_attempt: "keeps J m \<Longrightarrow> keeps J (attempt m)"
  by (auto simp: attempt_def intro!: keeps_rules split: exc.splits)

lemma keeps_overwrite:
  assumes "\<And>i sy. stamped p (f i sy)" and "clean_keys (dict_keys (or_empty md))"
  shows "keeps J (import_overwrite B p (Some f) op i key content md dup is)"
  unfolding import_overwrite_def
  by (rule keeps_seq_result)
     (use assms in \<open>auto intro!: keeps_rules keeps_attempt keeps_failure keeps_check_space
        update_call overwrite_patch_clean\<close>)

lemma keeps_read_back: "keeps J (import_read_back B p op i key rs is)"
  by (induction rs arbitrary: "is")
     (auto intro!: keeps_rules keeps_attempt keeps_failure keeps_check_space get_call)

lemma keeps_create:
  assumes "\<And>i sy. stamped p (f i sy)" and "clean_keys (dict_keys (or_empty md))"
  shows "keeps J (import_create B p (Some f) op i key content sc md is)"
  unfolding import_create_def
  using assms by (auto intro!: keeps_rules keeps_attempt keeps_failure keeps_read_back add_call)

lemma keeps_import_one:
  assumes "\<And>i sy. stamped p (f i sy)"
  shows "keeps J (import_one B p on_conflict validator (Some f) op i x is)"
  using assms entry_metadata_clean
  by (auto simp: import_one_def check_entry_ok Let_def
      intro!: keeps_rules keeps_overwrite keeps_create split: sum.split option.split)

lemma keeps_import_loop:
  assumes "\<And>i sy. stamped p (f i sy)"
  shows "keeps J (import_loop B p on_conflict validator (Some f) op i xs is)"
  using assms
  by (induction xs arbitrary: i "is") (auto intro!: keeps_rules keeps_import_one)

lemma keeps_import:
  assumes "\<And>i sy. stamped p (f i sy)"
  shows "keeps J (import_payload B p xs on_conflict validator limit (Some f) op)"
  unfolding import_payload_def build_dedup_index_def
  by (auto intro!: keeps_rules keeps_list_all keeps_import_loop log_keeps assms)

end

end
