(* ===== verification/Scope.thy ===== *)
theory Scope
  imports Types
begin

text \<open>
  \<open>memcp/policy/scope.py\<close>: the rules policy applies to a caller's scope, and the
  normalization of \<open>agent_id\<close>. The lemmas: what a normalized name looks like, that normalizing
  twice is normalizing once, exactly what an accepted scope satisfies, and that an accepted
  scope is accepted again unchanged.
\<close>

section \<open>Normalizing agent_id\<close>

text \<open>
  \<open>str.lower\<close> as far as \<open>[a-z0-9]\<close> is concerned: besides the capitals, only the dotted
  capital I (to \<open>i\<close> and a combining dot) and the Kelvin sign lower to an ASCII letter; every
  other character lowers to characters outside the class, which are collapsed whatever they are.
\<close>

definition lower_char :: "uchar \<Rightarrow> pystr" where
  "lower_char c =
     (if 65 \<le> c \<and> c \<le> 90 then [c + 32]
      else if c = 0x130 then [105, 0x307]
      else if c = 0x212a then [107]
      else [c])"

definition agent_char :: "uchar \<Rightarrow> bool" where
  "agent_char c \<longleftrightarrow> (97 \<le> c \<and> c \<le> 122) \<or> (48 \<le> c \<and> c \<le> 57)"

text \<open>\<open>re.sub("[^a-z0-9]+", "-", s)\<close>; the flag says that the character before was replaced.\<close>

fun collapse :: "bool \<Rightarrow> pystr \<Rightarrow> pystr" where
  "collapse replaced [] = []"
| "collapse replaced (c # cs) =
     (if agent_char c then c # collapse False cs
      else if replaced then collapse True cs
      else 45 # collapse True cs)"

definition normalize_agent_id :: "pystr \<Rightarrow> pystr" where
  "normalize_agent_id value =
     strip_by (\<lambda>c. c = 45) (collapse False (concat (map lower_char (strip value))))"

section \<open>Validation\<close>

type_synonym 'a refused = "(error_code \<times> message) + 'a"

definition refuse :: "error_code \<Rightarrow> scope_message \<Rightarrow> 'a refused" where
  "refuse code m = Inl (code, Scope_msg m)"

fun scalar_or_null :: "json \<Rightarrow> bool" where
  "scalar_or_null (JList vs) = False"
| "scalar_or_null (JObj d) = False"
| "scalar_or_null v = True"

fun not_finite :: "json \<Rightarrow> bool" where
  "not_finite (JFloat (Finite r)) = False"
| "not_finite (JFloat f) = True"
| "not_finite v = False"

definition too_long_text :: "json \<Rightarrow> bool" where
  "too_long_text v = (case v of JStr s \<Rightarrow> length s > MAX_SCOPE_VALUE_LENGTH | _ \<Rightarrow> False)"

definition clean_text :: "pystr \<Rightarrow> pystr \<Rightarrow> json refused" where
  "clean_text k s =
     (if k = u ''agent_id'' then
        (let normalized = normalize_agent_id s
         in if normalized = [] then refuse Validation_error (Agent_id_empty s)
            else Inr (JStr normalized))
      else if s \<noteq> strip s then refuse Validation_error (Scope_whitespace_ends k)
      else if k = u ''run_id'' \<and> list_ex is_space s then refuse Validation_error Run_id_whitespace
      else Inr (JStr s))"

definition clean_value :: "pystr \<Rightarrow> json \<Rightarrow> json refused" where
  "clean_value k v =
     (if length k > MAX_SCOPE_KEY_LENGTH then refuse Validation_error (Scope_key_too_long k)
      else if \<not> scalar_or_null v then refuse Validation_error (Scope_value_type k v)
      else if not_finite v then refuse Validation_error (Scope_not_finite k)
      else if is_wildcard v then refuse Validation_error (Scope_not_concrete k)
      else if too_long_text v then refuse Validation_error (Scope_value_too_long k)
      else (case v of JStr s \<Rightarrow> clean_text k s | _ \<Rightarrow> Inr v))"

fun clean_items :: "scope \<Rightarrow> scope refused" where
  "clean_items [] = Inr []"
| "clean_items ((k, v) # items) =
     res_bind (clean_value k v) (\<lambda>v'. res_bind (clean_items items) (\<lambda>rest. Inr ((k, v') # rest)))"

text \<open>The argument is any JSON value (\<open>JNull\<close> for None): an import entry's scope is unchecked.\<close>

definition validate_scope :: "json \<Rightarrow> pystr list \<Rightarrow> scope option refused" where
  "validate_scope scope allowed =
     (case scope of
        JNull \<Rightarrow> Inr None
      | JObj d \<Rightarrow>
          if d = [] then Inr (Some d)
          else if u ''user_id'' \<in> set (dict_keys d) then refuse Invalid_scope Scope_sets_user_id
          else
            (case reject_nested_filters d of
               Inl m \<Rightarrow> Inl (Nested_filter, m)
             | Inr _ \<Rightarrow>
                 if length d > MAX_SCOPE_KEYS then refuse Validation_error Scope_too_many_keys
                 else res_bind (clean_items d) (\<lambda>cleaned.
                   let unknown = filter (\<lambda>k. k \<notin> set allowed) (dict_keys cleaned)
                   in if unknown \<noteq> []
                      then refuse Invalid_scope (Scope_unknown_keys (sort unknown) (sort allowed))
                      else Inr (Some cleaned)))
      | _ \<Rightarrow> refuse Validation_error Scope_not_object)"

section \<open>Normalized names\<close>

definition agent_name :: "pystr \<Rightarrow> bool" where
  "agent_name s \<longleftrightarrow>
     (\<forall>c \<in> set s. agent_char c \<or> c = 45) \<and> (s = [] \<or> (hd s \<noteq> 45 \<and> last s \<noteq> 45))
     \<and> successively (\<lambda>a b. \<not> (a = 45 \<and> b = 45)) s"

lemma collapse_chars: "c \<in> set (collapse b s) \<Longrightarrow> agent_char c \<or> c = 45"
  by (induction b s rule: collapse.induct) (auto split: if_splits)

lemma collapse_hyphens:
  "successively (\<lambda>a b. \<not> (a = 45 \<and> b = 45)) (collapse b s)
   \<and> (b \<longrightarrow> collapse b s = [] \<or> hd (collapse b s) \<noteq> 45)"
proof (induction b s rule: collapse.induct)
  case (1 b)
  then show ?case by simp
next
  case (2 b c cs)
  have "agent_char c \<Longrightarrow> c \<noteq> 45" by (auto simp: agent_char_def)
  with 2 show ?case by (auto simp: successively_Cons)
qed

lemma successively_drop_ends:
  "successively P (xs @ ys @ zs) \<Longrightarrow> successively P ys"
  by (auto simp: successively_append_iff)

lemma strip_by_middle: "\<exists>pre post. s = pre @ strip_by p s @ post"
proof -
  let ?d = "dropWhile p s"
  have "rev ?d = takeWhile p (rev ?d) @ dropWhile p (rev ?d)" by simp
  then have "?d = strip_by p s @ rev (takeWhile p (rev ?d))"
    unfolding strip_by_def by (metis rev_append rev_rev_ident)
  then have "s = takeWhile p s @ strip_by p s @ rev (takeWhile p (rev ?d))"
    by (metis takeWhile_dropWhile_id)
  then show ?thesis by blast
qed

lemma agent_name_normalize: "agent_name (normalize_agent_id v)"
proof -
  let ?s = "collapse False (concat (map lower_char (strip v)))"
  let ?n = "strip_by (\<lambda>c. c = 45) ?s"
  have "\<forall>c \<in> set ?n. agent_char c \<or> c = 45"
    using set_strip_by [of "\<lambda>c. c = 45" ?s] collapse_chars by blast
  moreover have "?n = [] \<or> (hd ?n \<noteq> 45 \<and> last ?n \<noteq> 45)"
    using strip_by_ends [of "\<lambda>c. c = 45" ?s] by blast
  moreover have "successively (\<lambda>a b. \<not> (a = 45 \<and> b = 45)) ?n"
    using collapse_hyphens [of False] strip_by_middle [of ?s "\<lambda>c. c = 45"]
    by (metis successively_drop_ends)
  ultimately show ?thesis by (simp add: agent_name_def normalize_agent_id_def)
qed

lemma agent_name_not_space: "agent_name s \<Longrightarrow> c \<in> set s \<Longrightarrow> \<not> is_space c"
  by (auto simp: agent_name_def agent_char_def is_space_def)

lemma collapse_agent_name:
  "(\<forall>c \<in> set s. agent_char c \<or> c = 45) \<Longrightarrow> successively (\<lambda>a b. \<not> (a = 45 \<and> b = 45)) s \<Longrightarrow>
   (b \<longrightarrow> s = [] \<or> hd s \<noteq> 45) \<Longrightarrow> collapse b s = s"
proof (induction b s rule: collapse.induct)
  case (1 b)
  then show ?case by simp
next
  case (2 b c cs)
  have "agent_char 45 = False" by (simp add: agent_char_def)
  with 2 show ?case by (auto simp: successively_Cons)
qed

lemma lower_agent_name:
  "(\<forall>c \<in> set s. agent_char c \<or> c = 45) \<Longrightarrow> concat (map lower_char s) = s"
  by (induction s) (auto simp: lower_char_def agent_char_def)

lemma strip_no_space: "(\<And>c. c \<in> set s \<Longrightarrow> \<not> is_space c) \<Longrightarrow> strip s = s"
  unfolding strip_def by (rule strip_by_id) (metis hd_in_set last_in_set)

lemma normalize_agent_name: "agent_name s \<Longrightarrow> normalize_agent_id s = s"
proof -
  assume s: "agent_name s"
  then have "strip s = s" by (intro strip_no_space) (rule agent_name_not_space)
  moreover have "concat (map lower_char s) = s" using s by (intro lower_agent_name) (simp add: agent_name_def)
  moreover have "collapse False s = s" using s by (intro collapse_agent_name) (simp_all add: agent_name_def)
  moreover have "strip_by (\<lambda>c. c = 45) s = s" using s by (intro strip_by_id) (auto simp: agent_name_def)
  ultimately show "normalize_agent_id s = s" by (simp add: normalize_agent_id_def)
qed

text \<open>
  A normalized agent_id holds only \<open>a-z\<close>, \<open>0-9\<close> and single
  hyphens between them, and normalizing it again changes nothing, so a write and a filter that
  spell an agent differently meet at one value and that value is itself accepted.
\<close>

theorem normalize_agent_id_canonical:
  "agent_name (normalize_agent_id v)
   \<and> normalize_agent_id (normalize_agent_id v) = normalize_agent_id v"
  using agent_name_normalize normalize_agent_name by blast

section \<open>Accepted scopes\<close>

text \<open>A key and value as they leave validation.\<close>

definition clean_item :: "pystr \<Rightarrow> json \<Rightarrow> bool" where
  "clean_item k v \<longleftrightarrow>
     length k \<le> MAX_SCOPE_KEY_LENGTH \<and> scalar_or_null v \<and> \<not> not_finite v \<and> \<not> is_wildcard v
     \<and> (\<forall>s. v = JStr s \<longrightarrow> strip s = s
          \<and> (if k = u ''agent_id'' then agent_name s else length s \<le> MAX_SCOPE_VALUE_LENGTH)
          \<and> (k = u ''run_id'' \<longrightarrow> (\<forall>c \<in> set s. \<not> is_space c)))"

lemma clean_value_clean:
  assumes "clean_value k v = Inr v'"
  shows "clean_item k v'"
proof -
  have wild: "agent_name s \<Longrightarrow> s \<noteq> [] \<Longrightarrow> \<not> is_wildcard (JStr s)" for s
  proof -
    assume s: "agent_name s" "s \<noteq> []"
    then have "strip s = s" by (intro strip_no_space) (rule agent_name_not_space)
    moreover have "s \<noteq> u ''*''" using s by (auto simp: agent_name_def agent_char_def u_def)
    ultimately show ?thesis using s(2) by (simp add: is_wildcard_def)
  qed
  have strip: "agent_name s \<Longrightarrow> strip s = s" for s
    by (intro strip_no_space) (rule agent_name_not_space)
  show ?thesis
    using assms wild strip agent_name_normalize
    by (auto simp: clean_value_def clean_text_def refuse_def clean_item_def too_long_text_def
        list_ex_iff Let_def split: if_splits json.splits)
qed

lemma clean_value_again:
  assumes "clean_item k v" and "\<not> too_long_text v"
  shows "clean_value k v = Inr v"
proof (cases v)
  case (JStr s)
  have "agent_name s \<Longrightarrow> s \<noteq> [] \<Longrightarrow> normalize_agent_id s = s"
    by (rule normalize_agent_name)
  moreover have "s \<noteq> []" using assms JStr by (auto simp: clean_item_def is_wildcard_def strip_def)
  ultimately show ?thesis
    using assms JStr
    by (auto simp: clean_value_def clean_text_def clean_item_def list_ex_iff Let_def)
qed (use assms in \<open>auto simp: clean_value_def clean_item_def\<close>)

lemma clean_items_ok:
  "clean_items d = Inr d' \<Longrightarrow> map fst d' = map fst d \<and> (\<forall>(k, v) \<in> set d'. clean_item k v)"
  by (induction d arbitrary: d') (fastforce simp: res_bind_eq_Inr dest: clean_value_clean)+

lemma clean_items_again:
  "(\<forall>(k, v) \<in> set d. clean_item k v \<and> \<not> too_long_text v) \<Longrightarrow> clean_items d = Inr d"
  by (induction d) (auto simp: clean_value_again)

lemma validate_scope_cases:
  assumes "validate_scope j allowed = Inr r"
  obtains "j = JNull" "r = None"
    | "j = JObj []" "r = Some []"
    | d d' where "j = JObj d" "r = Some d'" "d \<noteq> []" "u ''user_id'' \<notin> fst ` set d"
        "fst ` set d \<inter> NESTED_FILTER_KEYS = {}" "length d \<le> MAX_SCOPE_KEYS" "clean_items d = Inr d'"
        "fst ` set d' \<subseteq> set allowed"
proof (cases j)
  case (JObj d)
  show ?thesis
  proof (cases "d = []")
    case True
    with assms JObj that(2) show ?thesis by (simp add: validate_scope_def)
  next
    case False
    with assms JObj show ?thesis
      by (auto simp: validate_scope_def refuse_def res_bind_eq_Inr dict_keys_def Let_def
          filter_empty_conv split: if_splits sum.splits intro!: that(3))
  qed
qed (use assms that(1) in \<open>auto simp: validate_scope_def refuse_def\<close>)

definition scope_accepted :: "pystr list \<Rightarrow> scope \<Rightarrow> bool" where
  "scope_accepted allowed d \<longleftrightarrow>
     fst ` set d \<subseteq> set allowed \<and> u ''user_id'' \<notin> fst ` set d
     \<and> fst ` set d \<inter> NESTED_FILTER_KEYS = {} \<and> length d \<le> MAX_SCOPE_KEYS
     \<and> (\<forall>(k, v) \<in> set d. clean_item k v)"

lemma validate_scope_accepted:
  assumes "validate_scope j allowed = Inr (Some d)"
  shows "scope_accepted allowed d"
  using assms
proof (cases rule: validate_scope_cases)
  case (3 d0 d')
  from clean_items_ok [OF 3(7)] have keys: "map fst d' = map fst d0" and items: "\<forall>(k, v) \<in> set d'. clean_item k v"
    by auto
  from keys have "fst ` set d' = fst ` set d0" and "length d' = length d0"
    by (metis set_map, metis length_map)
  with 3 items show ?thesis by (simp add: scope_accepted_def)
qed (auto simp: scope_accepted_def)

text \<open>
  Property C17: whatever a caller sends as a scope, validation either refuses it or
  returns one whose keys the backend supports, with no \<open>user_id\<close> and no nested filter, at most
  ten keys, and every value a finite concrete scalar (never null, empty or a wildcard) in its
  normal form; the keys are those of the argument.
\<close>

theorem validate_scope_sound:
  assumes "validate_scope j allowed = Inr (Some d)"
  shows "scope_accepted allowed d \<and> (\<exists>d0. j = JObj d0 \<and> map fst d = map fst d0)"
  using assms validate_scope_accepted [OF assms]
  by (auto elim!: validate_scope_cases dest!: clean_items_ok)

text \<open>
  An accepted scope is a fixed point of validation, as long as no value
  grew past the length limit in normalization: what a read returns can be sent back as a filter.
\<close>

theorem validate_scope_idempotent:
  assumes "validate_scope j allowed = Inr (Some d)"
    and "\<forall>(k, v) \<in> set d. \<not> too_long_text v"
  shows "validate_scope (JObj d) allowed = Inr (Some d)"
proof -
  have acc: "scope_accepted allowed d" using assms(1) by (rule validate_scope_accepted)
  then have nf: "reject_nested_filters d = Inr ()" by (simp add: scope_accepted_def)
  have "clean_items d = Inr d"
    using acc assms(2) by (intro clean_items_again) (auto simp: scope_accepted_def)
  with acc show ?thesis
    by (auto simp: validate_scope_def scope_accepted_def dict_keys_def Let_def filter_empty_conv nf)
qed

text \<open>The dotted capital I takes two characters once normalized, so a value can grow.\<close>

lemma collapse_dotted:
  "collapse b (concat (map lower_char (replicate n 0x130))) =
     concat (replicate n [105, 45])"
  by (induction n arbitrary: b) (simp_all add: lower_char_def agent_char_def)

lemma normalize_dotted: "normalize_agent_id (replicate (Suc n) 0x130) = concat (replicate n [105, 45]) @ [105]"
proof -
  have strip: "strip (replicate (Suc n) 0x130) = replicate (Suc n) 0x130"
    by (rule strip_no_space) (auto simp: is_space_def split: if_splits)
  have snoc: "concat (replicate (Suc n) [105, 45 :: int]) = (concat (replicate n [105, 45]) @ [105]) @ [45]"
    by (induction n) simp_all
  have hd: "\<not> hd (concat (replicate n [105, 45]) @ [105 :: int]) = 45"
    by (cases n) simp_all
  have "dropWhile (\<lambda>c. c = 45) (concat (replicate n [105, 45]) @ [105 :: int]) = concat (replicate n [105, 45]) @ [105]"
    using hd by (intro dropWhile_eq_self) blast
  then have "strip_by (\<lambda>c. c = 45) (concat (replicate (Suc n) [105, 45 :: int])) = concat (replicate n [105, 45]) @ [105]"
    unfolding snoc strip_by_def by (cases n) simp_all
  then show ?thesis
    by (simp add: normalize_agent_id_def strip collapse_dotted del: replicate_Suc map_replicate)
qed

text \<open>
  The length limit is checked before normalization only. An agent_id
  of the longest accepted length, 256 dotted capital I, is accepted and stored as 511 characters,
  and that stored value is refused when it is sent back.
\<close>

theorem agent_id_outgrows_limit:
  "validate_scope (JObj [(u ''agent_id'', JStr (replicate 256 0x130))]) [u ''agent_id''] =
     Inr (Some [(u ''agent_id'', JStr (concat (replicate 255 [105, 45]) @ [105]))])
   \<and> validate_scope (JObj [(u ''agent_id'', JStr (concat (replicate 255 [105, 45]) @ [105]))])
       [u ''agent_id''] = refuse Validation_error (Scope_value_too_long (u ''agent_id''))"
proof -
  let ?v = "replicate 256 (0x130 :: int)" and ?n = "concat (replicate 255 [105, 45]) @ [105 :: int]"
  have norm: "normalize_agent_id ?v = ?n" using normalize_dotted [of 255] by simp
  have strip: "strip ?v = ?v"
    by (rule strip_no_space) (auto simp: is_space_def)
  have len: "length ?n = 511"
    by (simp add: length_concat sum_list_replicate)
  have "agent_name ?n" using agent_name_normalize [of ?v] norm by simp
  then have strip': "strip ?n = ?n" by (intro strip_no_space) (rule agent_name_not_space)
  have nv: "?v \<noteq> []" "?v \<noteq> u ''*''" by (auto simp: u_def dest: arg_cong [where f = length])
  have nn: "?n \<noteq> []" "?n \<noteq> u ''*''" using len by (auto dest: arg_cong [where f = length])
  have nest: "reject_nested_filters [(u ''agent_id'', v)] = Inr ()" for v
    by (simp add: NESTED_FILTER_KEYS_def)
  have "clean_value (u ''agent_id'') (JStr ?v) = Inr (JStr ?n)"
    using nv norm strip
    by (simp add: clean_value_def clean_text_def is_wildcard_def too_long_text_def Let_def
        MAX_SCOPE_KEY_LENGTH_def MAX_SCOPE_VALUE_LENGTH_def del: replicate_Suc)
  moreover have "clean_value (u ''agent_id'') (JStr ?n) =
      refuse Validation_error (Scope_value_too_long (u ''agent_id''))"
    using nn len strip'
    by (simp add: clean_value_def is_wildcard_def too_long_text_def
        MAX_SCOPE_KEY_LENGTH_def MAX_SCOPE_VALUE_LENGTH_def)
  ultimately show ?thesis
      by (simp add: nest validate_scope_def dict_keys_def MAX_SCOPE_KEYS_def refuse_def Let_def)
qed

end
