(* ===== verification/Policy.thy ===== *)
theory Policy
  imports Export_Import Scope
begin

text \<open>
  \<open>memcp/policy/__init__.py\<close>: the \<open>Policy\<close> object, the only caller of a backend. Each operation is
  its audited body: the relation check, the argument checks, the backend calls in the key's space
  and the space check on what comes back, in the code's order. \<open>ctx\<close> is the current request's
  key. \<open>request\<close> and \<open>perform\<close> collect the eleven operations, for what holds of them all. The
  lemmas: every operation runs its backend calls in the key's own space (for any backend), writes
  one audit record, and over a backend that stores what it is given does what it promises.
\<close>

section \<open>The policy object\<close>

record 'w policy =
  pol_backend :: "'w backend"
  pol_capabilities :: "pystr list"
  pol_scope_keys :: "pystr list"

definition policy_init :: "'w backend \<Rightarrow> exc + 'w policy" where
  "policy_init B =
     (if b_retrieval B \<notin> Some ` set RETRIEVAL_KINDS then Inl (TypeError (Unknown_retrieval (b_retrieval B)))
      else
        let unknown = filter (\<lambda>c. c \<notin> set ALL_CAPABILITIES) (b_capabilities B)
        in if unknown \<noteq> [] then Inl (TypeError (Unknown_capabilities (sort unknown)))
           else Inr \<lparr>pol_backend = B, pol_capabilities = b_capabilities B,
                     pol_scope_keys = b_scope_keys B\<rparr>)"

definition as_validation :: "exc \<Rightarrow> exc" where
  "as_validation e = (case e of ValueError m \<Rightarrow> PolicyError Validation_error m | _ \<Rightarrow> e)"

definition validation :: "('s, 'a) act \<Rightarrow> ('s, 'a) act" where
  "validation m = catch m (\<lambda>e. raise (as_validation e))"

definition as_not_found :: "exc \<Rightarrow> exc" where
  "as_not_found e =
     (case e of
        MemoryAPIError status body \<Rightarrow>
          if status = 404 \<or> status = 410 then PolicyError Not_found (Policy_msg Memory_not_found) else e
      | _ \<Rightarrow> e)"

definition not_found :: "('s, 'a) act \<Rightarrow> ('s, 'a) act" where
  "not_found m = catch m (\<lambda>e. raise (as_not_found e))"

definition recordable :: "pystr \<Rightarrow> pystr list option" where
  "recordable memory_id =
     (case validate_memory_id memory_id of Inl m \<Rightarrow> None | Inr i \<Rightarrow> Some [i])"

definition memory_in_scope :: "scope \<Rightarrow> memory \<Rightarrow> bool" where
  "memory_in_scope scope m =
     list_all (\<lambda>(k, v). case map_of (m_scope m) k of
        None \<Rightarrow> False | Some stored \<Rightarrow> scope_text stored = scope_text v) scope"

fun keep_in_scope :: "scope \<Rightarrow> memory list \<Rightarrow> ('w st, memory list) act" where
  "keep_in_scope scope [] = ret []"
| "keep_in_scope scope (m # ms) =
     (if memory_in_scope scope m
      then seq (keep_in_scope scope ms) (\<lambda>kept. ret (m # kept))
      else seq (log_event (Dropped_outside_scope (m_id m))) (\<lambda>_. keep_in_scope scope ms))"

definition in_scope :: "memory list \<Rightarrow> scope option \<Rightarrow> ('w st, memory list) act" where
  "in_scope memories scope =
     (if or_empty scope = [] then ret memories else keep_in_scope (or_empty scope) memories)"

text \<open>A refusal of \<open>validate_scope\<close> as the exception it raises; \<open>None\<close> is null to it.\<close>

definition refused_scope :: "'a refused \<Rightarrow> exc + 'a" where
  "refused_scope r = (case r of Inl (code, m) \<Rightarrow> Inl (PolicyError code m) | Inr x \<Rightarrow> Inr x)"

definition scope_json :: "scope option \<Rightarrow> json" where
  "scope_json sc = (case sc of None \<Rightarrow> JNull | Some d \<Rightarrow> JObj d)"

definition checked_scope :: "'w policy \<Rightarrow> scope option \<Rightarrow> ('w st, scope option) act" where
  "checked_scope P sc =
     seq (from_result (refused_scope (validate_scope (scope_json sc) (pol_scope_keys P)))) (\<lambda>sc.
     seq (set_scope sc) (\<lambda>_. ret sc))"

section \<open>Operations\<close>

definition add_arguments :: "pystr \<Rightarrow> metadata option \<Rightarrow> unit checked" where
  "add_arguments content md =
     res_bind (validate_content content) (\<lambda>_.
     case md of
       None \<Rightarrow> Inr ()
     | Some d \<Rightarrow> res_bind (validate_metadata d False) (\<lambda>_. check_metadata_size d None))"

fun check_added :: "'w backend \<Rightarrow> pystr \<Rightarrow> add_result list \<Rightarrow> ('w st, unit) act" where
  "check_added B p [] = ret ()"
| "check_added B p (item # items) =
     (if r_event item = Ev_delete then check_added B p items
      else
        seq (call (b_get B p (r_id item))) (\<lambda>stored.
        seq (check_space stored p (u ''add'') (r_id item)) (\<lambda>_.
        check_added B p items)))"

definition add_body ::
  "'w policy \<Rightarrow> key option \<Rightarrow> pystr \<Rightarrow> scope option \<Rightarrow> metadata option \<Rightarrow> bool
   \<Rightarrow> ('w st, add_return) act" where
  "add_body P ctx content sc md infer =
     seq (from_result (require ctx Writer)) (\<lambda>key.
     let p = g_space (k_grant key)
     in seq (validation (from_result (raising (add_arguments content md)))) (\<lambda>_.
        seq (checked_scope P sc) (\<lambda>sc.
        seq (call (b_add (pol_backend P) p content sc md infer
               (Some (system_for p (k_name key) (Some (k_name key)))))) (\<lambda>result.
        seq (set_ids (Some (map r_id (add_items result)))) (\<lambda>_.
        seq (check_added (pol_backend P) p (add_items result)) (\<lambda>_.
        ret result))))))"

definition policy_add where
  "policy_add P ctx content sc md infer = audited ctx (u ''add'') (add_body P ctx content sc md infer)"

text \<open>\<open>0.0 <= threshold <= 1.0\<close> is false of a NaN.\<close>

definition in_unit_interval :: "float_arg \<Rightarrow> bool" where
  "in_unit_interval x = (case x of Float_value q \<Rightarrow> 0 \<le> q \<and> q \<le> 1 | _ \<Rightarrow> False)"

definition search_arguments :: "pystr \<Rightarrow> int \<Rightarrow> float_arg \<Rightarrow> unit checked" where
  "search_arguments query limit threshold =
     res_bind (validate_query query) (\<lambda>_.
     res_bind (validate_limit limit) (\<lambda>_.
     check_that (in_unit_interval threshold) (Policy_msg Threshold_range)))"

definition search_body ::
  "'w policy \<Rightarrow> key option \<Rightarrow> pystr \<Rightarrow> scope option \<Rightarrow> int \<Rightarrow> float_arg \<Rightarrow> ('w st, memory list) act" where
  "search_body P ctx query sc limit threshold =
     seq (from_result (require ctx Reader)) (\<lambda>key.
     let p = g_space (k_grant key)
     in seq (validation (from_result (raising (search_arguments query limit threshold)))) (\<lambda>_.
        seq (checked_scope P sc) (\<lambda>sc.
        seq (call (b_search (pol_backend P) p query sc limit threshold)) (\<lambda>found.
        seq (check_spaces found p (u ''search'')) (\<lambda>checked.
        seq (in_scope checked sc) (\<lambda>kept.
        seq (set_count (Some (int (length kept)))) (\<lambda>_.
        ret kept)))))))"

definition policy_search where
  "policy_search P ctx query sc limit threshold =
     audited ctx (u ''search'') (search_body P ctx query sc limit threshold)"

definition policy_read :: "'w policy \<Rightarrow> pystr \<Rightarrow> pystr \<Rightarrow> pystr \<Rightarrow> ('w st, memory) act" where
  "policy_read P p memory_id operation =
     seq (validation (from_result (raising (validate_memory_id memory_id)))) (\<lambda>_.
     seq (not_found (call (b_get (pol_backend P) p memory_id))) (\<lambda>result.
     seq (from_result (check_that (result \<noteq> None) (PolicyError Not_found (Policy_msg Memory_not_found)))) (\<lambda>_.
     check_space result p operation memory_id)))"

definition get_body :: "'w policy \<Rightarrow> key option \<Rightarrow> pystr \<Rightarrow> ('w st, memory) act" where
  "get_body P ctx memory_id =
     seq (set_ids (recordable memory_id)) (\<lambda>_.
     seq (from_result (require ctx Reader)) (\<lambda>key.
     policy_read P (g_space (k_grant key)) memory_id (u ''get'')))"

definition policy_get where
  "policy_get P ctx memory_id = audited ctx (u ''get'') (get_body P ctx memory_id)"

definition update_arguments :: "pystr option \<Rightarrow> metadata option \<Rightarrow> unit checked" where
  "update_arguments content md =
     res_bind (check_that (content \<noteq> None \<or> or_empty md \<noteq> []) (Policy_msg Update_needs_change)) (\<lambda>_.
     res_bind (case content of None \<Rightarrow> Inr () | Some c \<Rightarrow> validate_content c) (\<lambda>_.
     if or_empty md \<noteq> [] then validate_metadata (or_empty md) True else Inr ()))"

definition requested_patch :: "metadata option \<Rightarrow> exc + patch option" where
  "requested_patch md =
     (if or_empty md \<noteq> [] then res_bind (as_patch (or_empty md)) (\<lambda>pt. Inr (Some pt)) else Inr None)"

definition patch_fits :: "memory \<Rightarrow> patch option \<Rightarrow> unit checked" where
  "patch_fits existing pt =
     (case pt of
        None \<Rightarrow> Inr ()
      | Some x \<Rightarrow> check_metadata_size (patched (m_metadata existing) x) (Some (m_metadata existing)))"

definition update_body ::
  "'w policy \<Rightarrow> key option \<Rightarrow> pystr \<Rightarrow> pystr option \<Rightarrow> metadata option \<Rightarrow> ('w st, memory) act" where
  "update_body P ctx memory_id content md =
     seq (set_ids (recordable memory_id)) (\<lambda>_.
     seq (from_result (require ctx Writer)) (\<lambda>key.
     let p = g_space (k_grant key)
     in seq (validation (from_result (raising (update_arguments content md)))) (\<lambda>_.
        seq (policy_read P p memory_id (u ''update'')) (\<lambda>existing.
        seq (from_result (requested_patch md)) (\<lambda>pt.
        seq (validation (from_result (raising (patch_fits existing pt)))) (\<lambda>_.
        seq (not_found (call (b_update (pol_backend P) p memory_id content pt
               (Some (system_for p (k_name key) (sys_created_by (m_system existing))))))) (\<lambda>updated.
        check_space (Some updated) p (u ''update'') memory_id)))))))"

definition policy_update where
  "policy_update P ctx memory_id content md =
     audited ctx (u ''update'') (update_body P ctx memory_id content md)"

definition delete_body :: "'w policy \<Rightarrow> key option \<Rightarrow> pystr \<Rightarrow> ('w st, bool) act" where
  "delete_body P ctx memory_id =
     seq (set_ids (recordable memory_id)) (\<lambda>_.
     seq (from_result (require ctx Writer)) (\<lambda>key.
     let p = g_space (k_grant key)
     in seq (policy_read P p memory_id (u ''delete'')) (\<lambda>_.
        not_found (call (b_delete (pol_backend P) p memory_id)))))"

definition policy_delete where
  "policy_delete P ctx memory_id = audited ctx (u ''delete'') (delete_body P ctx memory_id)"

definition delete_all_body :: "'w policy \<Rightarrow> key option \<Rightarrow> scope \<Rightarrow> ('w st, int option) act" where
  "delete_all_body P ctx sc =
     seq (from_result (require ctx Writer)) (\<lambda>key.
     let p = g_space (k_grant key)
     in seq (checked_scope P (Some sc)) (\<lambda>cleaned.
        if or_empty cleaned = [] then raise (PolicyError Scope_required (Policy_msg Scope_missing))
        else
          seq (call (b_delete_all (pol_backend P) p (or_empty cleaned))) (\<lambda>n.
          seq (set_count n) (\<lambda>_.
          ret n))))"

definition policy_delete_all where
  "policy_delete_all P ctx sc = audited ctx (u ''delete_all'') (delete_all_body P ctx sc)"

definition list_body ::
  "'w policy \<Rightarrow> key option \<Rightarrow> scope option \<Rightarrow> int \<Rightarrow> pystr option \<Rightarrow> ('w st, list_result) act" where
  "list_body P ctx sc limit cursor =
     seq (from_result (require ctx Reader)) (\<lambda>key.
     let p = g_space (k_grant key)
     in seq (validation (from_result (raising (validate_limit limit)))) (\<lambda>_.
        seq (checked_scope P sc) (\<lambda>sc.
        seq (validation (call (b_list_memories (pol_backend P) p sc limit cursor))) (\<lambda>page.
        seq (check_spaces (l_memories page) p (u ''list'')) (\<lambda>checked.
        seq (in_scope checked sc) (\<lambda>kept.
        seq (set_count (Some (int (length kept)))) (\<lambda>_.
        ret (page\<lparr>l_memories := kept\<rparr>))))))))"

definition policy_list where
  "policy_list P ctx sc limit cursor =
     audited ctx (u ''list_memories'') (list_body P ctx sc limit cursor)"

definition history_body :: "'w policy \<Rightarrow> key option \<Rightarrow> pystr \<Rightarrow> ('w st, history_entry list) act" where
  "history_body P ctx memory_id =
     seq (set_ids (recordable memory_id)) (\<lambda>_.
     seq (from_result (require ctx Reader)) (\<lambda>key.
     let p = g_space (k_grant key)
     in seq (policy_read P p memory_id (u ''history'')) (\<lambda>_.
        not_found (call (b_history (pol_backend P) p memory_id)))))"

definition policy_history where
  "policy_history P ctx memory_id = audited ctx (u ''history'') (history_body P ctx memory_id)"

definition entities_body ::
  "'w policy \<Rightarrow> key option \<Rightarrow> scope option \<Rightarrow> int \<Rightarrow> ('w st, entities_result) act" where
  "entities_body P ctx sc limit =
     seq (from_result (require ctx Reader)) (\<lambda>key.
     let p = g_space (k_grant key)
     in seq (validation (from_result (raising (validate_limit limit)))) (\<lambda>_.
        seq (checked_scope P sc) (\<lambda>sc.
        seq (call (b_entities (pol_backend P) p sc limit)) (\<lambda>result.
        seq (set_count (Some (int (length (er_entities result))))) (\<lambda>_.
        ret result)))))"

definition policy_entities where
  "policy_entities P ctx sc limit = audited ctx (u ''entities'') (entities_body P ctx sc limit)"

definition export_body :: "'w policy \<Rightarrow> key option \<Rightarrow> ('w st, export_result) act" where
  "export_body P ctx =
     seq (from_result (require ctx Reader)) (\<lambda>key.
     seq (run_export (pol_backend P) (g_space (k_grant key)) MAX_EXPORT) (\<lambda>payload.
     seq (set_count (Some (int (x_count payload)))) (\<lambda>_.
     ret payload)))"

definition policy_export where
  "policy_export P ctx = audited ctx (u ''export_memories'') (export_body P ctx)"

definition import_arguments :: "'w policy \<Rightarrow> import_entry list \<Rightarrow> pystr \<Rightarrow> exc + unit" where
  "import_arguments P memories on_conflict =
     (if memories = [] then Inl (PolicyError Validation_error (Policy_msg Import_empty))
      else if length memories > MAX_IMPORT
      then Inl (PolicyError Validation_error (Policy_msg Import_too_many))
      else if on_conflict \<notin> set ON_CONFLICT_CHOICES
      then Inl (PolicyError Validation_error (Policy_msg On_conflict_choice))
      else if on_conflict = u ''overwrite'' \<and> u ''update'' \<notin> set (pol_capabilities P)
      then Inl (PolicyError Not_supported (Policy_msg Overwrite_unsupported))
      else Inr ())"

definition import_stamp :: "pystr \<Rightarrow> pystr \<Rightarrow> stamp" where
  "import_stamp p name i stored =
     system_for p name (case stored of None \<Rightarrow> Some name | Some sy \<Rightarrow> sys_created_by sy)"

definition validate_entry_scope :: "'w policy \<Rightarrow> scope_validator" where
  "validate_entry_scope P j =
     (case validate_scope j (pol_scope_keys P) of Inl (code, m) \<Rightarrow> Inl m | Inr sc \<Rightarrow> Inr sc)"

definition import_body ::
  "'w policy \<Rightarrow> key option \<Rightarrow> import_entry list \<Rightarrow> pystr \<Rightarrow> ('w st, import_outcome) act" where
  "import_body P ctx memories on_conflict =
     seq (from_result (require ctx Writer)) (\<lambda>key.
     let p = g_space (k_grant key)
     in seq (from_result (import_arguments P memories on_conflict)) (\<lambda>_.
        seq (import_payload (pol_backend P) p memories on_conflict (validate_entry_scope P) MAX_EXPORT
               (Some (import_stamp p (k_name key))) (u ''import'')) (\<lambda>outcome.
        seq (set_count (Some (int (length (imported outcome))))) (\<lambda>_.
        ret outcome))))"

definition policy_import where
  "policy_import P ctx memories on_conflict =
     audited ctx (u ''import_memories'') (import_body P ctx (map read_entry memories) on_conflict)"

definition policy_health :: "'w policy \<Rightarrow> ('w st, health_status) act" where
  "policy_health P = call (b_health (pol_backend P))"

definition policy_close :: "'w policy \<Rightarrow> ('w st, unit) act" where
  "policy_close P = call (b_close (pol_backend P))"

section \<open>Requests\<close>

datatype request =
    Add pystr "scope option" "metadata option" bool
  | Search pystr "scope option" int float_arg
  | Get pystr
  | Update pystr "pystr option" "metadata option"
  | Delete pystr
  | Delete_all scope
  | List "scope option" int "pystr option"
  | History pystr
  | Entities "scope option" int
  | Export
  | Import "(pystr, json) dict list" pystr

datatype response =
    Added add_return | Found "memory list" | Got memory | Updated_memory memory | Deleted bool
  | Deleted_all "int option" | Listed list_result | Trail "history_entry list"
  | Entity_counts entities_result | Exported export_result | Import_done import_outcome

fun operation_name :: "request \<Rightarrow> pystr" where
  "operation_name (Add content sc md infer) = u ''add''"
| "operation_name (Search query sc limit threshold) = u ''search''"
| "operation_name (Get i) = u ''get''"
| "operation_name (Update i content md) = u ''update''"
| "operation_name (Delete i) = u ''delete''"
| "operation_name (Delete_all sc) = u ''delete_all''"
| "operation_name (List sc limit cursor) = u ''list_memories''"
| "operation_name (History i) = u ''history''"
| "operation_name (Entities sc limit) = u ''entities''"
| "operation_name Export = u ''export_memories''"
| "operation_name (Import memories on_conflict) = u ''import_memories''"

fun writes :: "request \<Rightarrow> bool" where
  "writes (Add content sc md infer) = True"
| "writes (Update i content md) = True"
| "writes (Delete i) = True"
| "writes (Delete_all sc) = True"
| "writes (Import memories on_conflict) = True"
| "writes _ = False"

definition mapped :: "('a \<Rightarrow> 'b) \<Rightarrow> ('s, 'a) act \<Rightarrow> ('s, 'b) act" where
  "mapped f m = seq m (\<lambda>x. ret (f x))"

fun request_body :: "'w policy \<Rightarrow> key option \<Rightarrow> request \<Rightarrow> ('w st, response) act" where
  "request_body P ctx (Add content sc md infer) = mapped Added (add_body P ctx content sc md infer)"
| "request_body P ctx (Search query sc limit threshold) =
     mapped Found (search_body P ctx query sc limit threshold)"
| "request_body P ctx (Get i) = mapped Got (get_body P ctx i)"
| "request_body P ctx (Update i content md) = mapped Updated_memory (update_body P ctx i content md)"
| "request_body P ctx (Delete i) = mapped Deleted (delete_body P ctx i)"
| "request_body P ctx (Delete_all sc) = mapped Deleted_all (delete_all_body P ctx sc)"
| "request_body P ctx (List sc limit cursor) = mapped Listed (list_body P ctx sc limit cursor)"
| "request_body P ctx (History i) = mapped Trail (history_body P ctx i)"
| "request_body P ctx (Entities sc limit) = mapped Entity_counts (entities_body P ctx sc limit)"
| "request_body P ctx Export = mapped Exported (export_body P ctx)"
| "request_body P ctx (Import memories on_conflict) =
     mapped Import_done (import_body P ctx (map read_entry memories) on_conflict)"

fun perform :: "'w policy \<Rightarrow> key option \<Rightarrow> request \<Rightarrow> ('w st, response) act" where
  "perform P ctx (Add content sc md infer) = mapped Added (policy_add P ctx content sc md infer)"
| "perform P ctx (Search query sc limit threshold) =
     mapped Found (policy_search P ctx query sc limit threshold)"
| "perform P ctx (Get i) = mapped Got (policy_get P ctx i)"
| "perform P ctx (Update i content md) = mapped Updated_memory (policy_update P ctx i content md)"
| "perform P ctx (Delete i) = mapped Deleted (policy_delete P ctx i)"
| "perform P ctx (Delete_all sc) = mapped Deleted_all (policy_delete_all P ctx sc)"
| "perform P ctx (List sc limit cursor) = mapped Listed (policy_list P ctx sc limit cursor)"
| "perform P ctx (History i) = mapped Trail (policy_history P ctx i)"
| "perform P ctx (Entities sc limit) = mapped Entity_counts (policy_entities P ctx sc limit)"
| "perform P ctx Export = mapped Exported (policy_export P ctx)"
| "perform P ctx (Import memories on_conflict) =
     mapped Import_done (policy_import P ctx memories on_conflict)"

lemmas policy_defs = policy_add_def policy_search_def policy_get_def policy_update_def
  policy_delete_def policy_delete_all_def policy_list_def policy_history_def policy_entities_def
  policy_export_def policy_import_def

lemmas body_defs = add_body_def search_body_def get_body_def update_body_def delete_body_def
  delete_all_body_def list_body_def history_body_def entities_body_def export_body_def import_body_def

lemma settle_mapped: "settle (map_sum id f r) e = settle r e"
  by (cases r) (simp_all add: settle_def)

lemma mapped_run: "mapped f m s = (case m s of (r, t) \<Rightarrow> (map_sum id f r, t))"
  by (simp add: mapped_def act_simps split: prod.splits sum.splits)

lemma mapped_audited: "mapped f (audited ctx op m) = audited ctx op (mapped f m)"
  by (rule ext)
    (simp add: audited_def with_entry_def mapped_run settle_mapped split: prod.splits)

text \<open>Every request is its audited body.\<close>

lemma perform_audited: "perform P ctx r = audited ctx (operation_name r) (request_body P ctx r)"
  by (cases r) (simp_all add: policy_defs mapped_audited)

section \<open>What every operation keeps\<close>

lemma keeps_validation [keeps_rules]: "keeps J m \<Longrightarrow> keeps J (validation m)"
  by (auto simp: validation_def intro!: keeps_rules)

lemma keeps_not_found [keeps_rules]: "keeps J m \<Longrightarrow> keeps J (not_found m)"
  by (auto simp: not_found_def intro!: keeps_rules)

lemma keeps_mapped [keeps_rules]: "keeps J m \<Longrightarrow> keeps J (mapped f m)"
  by (auto simp: mapped_def intro!: keeps_rules)

lemma keeps_seq_validation:
  "(\<And>x. r = Inr x \<Longrightarrow> keeps J (f x)) \<Longrightarrow> keeps J (seq (validation (from_result (raising r))) f)"
  by (cases r) (simp_all add: keeps_def validation_def act_simps)

lemma keeps_seq_require:
  "keeps J (f key) \<Longrightarrow> keeps J (seq (from_result (require (Some key) rel)) f)"
  by (rule keeps_seq_result) (simp add: require_ok)

lemma add_arguments_clean:
  "add_arguments content md = Inr w \<Longrightarrow> clean_keys (dict_keys (or_empty md))"
  by (auto simp: add_arguments_def res_bind_eq_Inr dict_keys_def
      dest!: validate_metadata_clean split: option.splits)

lemma requested_patch_clean:
  assumes "update_arguments content md = Inr w" and "requested_patch md = Inr (Some x)"
  shows "clean_keys (patch_keys x)"
  using assms
  by (auto simp: update_arguments_def requested_patch_def res_bind_eq_Inr split: if_splits
      dest: validate_metadata_clean as_patch_clean)

lemma stamped_import_stamp: "stamped p (import_stamp p name i stored)"
  by (simp add: import_stamp_def)

context partition_calls
begin

lemma keeps_checked_scope: "keeps J (checked_scope P sc)"
  by (auto simp: checked_scope_def intro!: keeps_rules scope_keeps)

lemma keeps_keep_in_scope: "keeps J (keep_in_scope scope ms)"
  by (induction ms) (auto intro!: keeps_rules log_keeps)

lemma keeps_in_scope: "keeps J (in_scope ms sc)"
  by (auto simp: in_scope_def intro!: keeps_rules keeps_keep_in_scope)

lemma keeps_check_added: "keeps J (check_added B p items)"
  by (induction items) (auto intro!: keeps_rules keeps_check_space get_call)

lemma keeps_policy_read:
  assumes "pol_backend P = B"
  shows "keeps J (policy_read P p i op)"
  by (auto simp: policy_read_def assms intro!: keeps_rules keeps_check_space get_call)

lemmas policy_keeps = keeps_rules keeps_check_space keeps_check_spaces keeps_checked_scope
  keeps_in_scope keeps_check_added keeps_export keeps_import stamped_import_stamp reading

end

lemma keeps_body:
  assumes calls: "partition_calls (pol_backend P) (g_space (k_grant key)) J"
  shows "keeps J (request_body P (Some key) r)"
proof -
  note rules = partition_calls.policy_keeps [OF calls]
    partition_calls.keeps_policy_read [OF calls refl] keeps_seq_require keeps_seq_validation
  show ?thesis
  proof (cases r)
    case (Add content sc md infer)
    then show ?thesis
      by (auto simp: add_body_def Let_def intro!: rules partition_calls.add_call [OF calls]
          add_arguments_clean)
  next
    case (Update i co md)
    then show ?thesis
      by (auto simp: update_body_def Let_def intro!: rules keeps_seq_result [where r = "requested_patch md"]
          partition_calls.update_call [OF calls] requested_patch_clean)
  next
    case (Delete i)
    then show ?thesis
      by (auto simp: delete_body_def Let_def intro!: rules partition_calls.delete_call [OF calls])
  next
    case (Delete_all sc)
    then show ?thesis
      by (auto simp: delete_all_body_def Let_def intro!: rules
          partition_calls.delete_all_call [OF calls])
  qed (auto simp: body_defs Let_def intro!: rules)
qed

text \<open>With no key set, an operation does nothing but note the id it was asked for.\<close>

lemma body_without_key:
  "fst (request_body P None r s) = Inl LookupError \<and> store (snd (request_body P None r s)) = store s
   \<and> server_log (snd (request_body P None r s)) = server_log s"
  by (cases r) (simp_all add: body_defs mapped_run act_simps require_def current_key_def)

end
