(* ===== verification/Keyword.thy ===== *)
theory Keyword
  imports Types
begin

text \<open>
  \<open>memcp/backends/keyword.py\<close>: the scorer \<open>sqlite\<close> and \<open>in_memory\<close> rank by. The Unicode
  database (\<open>unicodedata\<close>, \<open>str.lower\<close>, \<open>isalnum\<close>, \<open>isdigit\<close>, \<open>isupper\<close>) and ICU's word breaker
  are the fields of a parameter \<open>ucd\<close>; everything the module itself does is defined. Scores are
  exact rationals where the code has floats. The lemmas: a score lies in (0, 1], an exact phrase
  scores 1, and the tokenizer's fast path (ASCII pieces by one regular expression) gives the
  tokens of the general path.
\<close>

record ucd =
  nfkc :: "pystr \<Rightarrow> pystr"
  lower :: "pystr \<Rightarrow> pystr"
  category :: "uchar \<Rightarrow> string"
  is_alnum :: "uchar \<Rightarrow> bool"
  is_digit :: "uchar \<Rightarrow> bool"
  is_upper :: "pystr \<Rightarrow> bool"
  decomposition :: "uchar \<Rightarrow> pystr"
  word_break :: "pystr \<Rightarrow> pystr list"

section \<open>Characters\<close>

definition MIN_QUERY_TOKEN :: nat where "MIN_QUERY_TOKEN = 3"
definition SHARED_PREFIX :: nat where "SHARED_PREFIX = 4"

definition between :: "int \<Rightarrow> int \<Rightarrow> uchar \<Rightarrow> bool" where
  "between a b c \<longleftrightarrow> a \<le> c \<and> c \<le> b"

definition unspaced_char :: "uchar \<Rightarrow> bool" where
  "unspaced_char c \<longleftrightarrow>
     between 0x1100 0x11ff c \<or> between 0x3005 0x3007 c \<or> c = 0x303b \<or> between 0x3040 0x30ff c
     \<or> between 0x3130 0x318f c \<or> between 0x31f0 0x31ff c \<or> between 0x3400 0x4dbf c
     \<or> between 0x4e00 0x9fff c \<or> between 0xac00 0xd7af c \<or> between 0xf900 0xfaff c
     \<or> between 0x20000 0x3ffff c"

definition segmented_char :: "uchar \<Rightarrow> bool" where
  "segmented_char c \<longleftrightarrow> between 0x0e00 0x0eff c \<or> between 0x1000 0x109f c \<or> between 0x1780 0x17ff c"

definition ascii_token_char :: "uchar \<Rightarrow> bool" where
  "ascii_token_char c \<longleftrightarrow> between 97 122 c \<or> between 48 57 c"

definition WORD_MARKS :: "uchar set" where
  "WORD_MARKS = {0x0e46, 0x0e2f, 0x0ec6, 0x0eaf, 0x17d7}"

definition BOUNDARY :: pystr where "BOUNDARY = u '' ''"

definition is_mark :: "ucd \<Rightarrow> uchar \<Rightarrow> bool" where
  "is_mark U c \<longleftrightarrow> prefix ''M'' (category U c)"

definition is_run_token :: "pystr \<Rightarrow> bool" where
  "is_run_token token = (case token of [] \<Rightarrow> False | c # _ \<Rightarrow> unspaced_char c)"

definition is_segmented :: "pystr \<Rightarrow> bool" where
  "is_segmented token = (case token of [] \<Rightarrow> False | c # _ \<Rightarrow> segmented_char c)"

section \<open>Segmented scripts\<close>

text \<open>\<open>re.sub\<close> of three one-character classes, and of two followed by a lookahead.\<close>

fun sub3 :: "(uchar \<Rightarrow> bool) \<Rightarrow> (uchar \<Rightarrow> bool) \<Rightarrow> (uchar \<Rightarrow> bool) \<Rightarrow>
    (uchar \<Rightarrow> uchar \<Rightarrow> uchar \<Rightarrow> pystr) \<Rightarrow> pystr \<Rightarrow> pystr" where
  "sub3 p q r f (a # b # c # s) =
     (if p a \<and> q b \<and> r c then f a b c @ sub3 p q r f s else a # sub3 p q r f (b # c # s))"
| "sub3 p q r f s = s"

fun swap_before :: "(uchar \<Rightarrow> bool) \<Rightarrow> (uchar \<Rightarrow> bool) \<Rightarrow> (uchar \<Rightarrow> bool) \<Rightarrow> pystr \<Rightarrow> pystr" where
  "swap_before p q r (a # b # c # s) =
     (if p a \<and> q b \<and> r c then b # a # swap_before p q r (c # s)
      else a # swap_before p q r (b # c # s))"
| "swap_before p q r s = s"

function replace_all :: "pystr \<Rightarrow> pystr \<Rightarrow> pystr \<Rightarrow> pystr" where
  "replace_all old new s =
     (case s of
        [] \<Rightarrow> []
      | c # cs \<Rightarrow>
          if old \<noteq> [] \<and> prefix old s then new @ replace_all old new (drop (length old) s)
          else c # replace_all old new cs)"
  by pat_completeness auto
termination
  by (relation "measure (\<lambda>(old, new, s). length s)") auto

declare replace_all.simps [simp del]

definition RECOMPOSE :: "ucd \<Rightarrow> (pystr \<times> pystr) list" where
  "RECOMPOSE U =
     map (\<lambda>c. (nfkc U [c], [c]))
       (filter (\<lambda>c. prefix (u ''<compat>'') (decomposition U c))
          ([0x0E00..0x0EFF] @ [0x1000..0x109F] @ [0x1780..0x17FF]))"

definition segment :: "ucd \<Rightarrow> pystr \<Rightarrow> pystr list" where
  "segment U text =
     (let thai_tone = between 0x0e48 0x0e4b; lao_tone = between 0x0ec8 0x0ecb;
          text = sub3 (\<lambda>c. c = 0x0e4d) (\<lambda>c. c = 0x0e32) thai_tone (\<lambda>a b c. [c, a, b]) text;
          text = sub3 (\<lambda>c. c = 0x0ecd) (\<lambda>c. c = 0x0eb2) lao_tone (\<lambda>a b c. [a, c, b]) text;
          text = swap_before (\<lambda>c. c = 0x0e4d) thai_tone (\<lambda>c. c = 0x0e32) text;
          text = swap_before lao_tone (\<lambda>c. c = 0x0ecd) (\<lambda>c. c = 0x0eb2) text;
          text = fold (\<lambda>(split, whole). replace_all split whole) (RECOMPOSE U) text
      in filter (\<lambda>w. list_ex (is_alnum U) w) (word_break U text))"

section \<open>Tokens\<close>

text \<open>The variables of the loop in \<open>_tokens_of\<close>.\<close>

record scan =
  s_tokens :: "pystr list"
  s_word :: pystr
  s_segment :: pystr
  s_gap :: bool

definition emit :: "pystr \<Rightarrow> scan \<Rightarrow> scan" where
  "emit token s = s
     \<lparr>s_tokens :=
        (if s_gap s \<and> s_tokens s \<noteq> [] \<and> (is_run_token (last (s_tokens s)) \<or> is_run_token token)
         then s_tokens s @ [BOUNDARY] else s_tokens s) @ [token],
      s_gap := False\<rparr>"

definition flush :: "ucd \<Rightarrow> scan \<Rightarrow> scan" where
  "flush U s =
     (let s = (if s_word s \<noteq> [] then (emit (s_word s) s)\<lparr>s_word := []\<rparr> else s)
      in if s_segment s \<noteq> [] then (fold emit (segment U (s_segment s)) s)\<lparr>s_segment := []\<rparr> else s)"

definition scan_char :: "ucd \<Rightarrow> uchar \<Rightarrow> scan \<Rightarrow> scan" where
  "scan_char U c s =
     (if category U c = ''Cf'' \<and> c \<noteq> 0x200b then s
      else if c \<in> WORD_MARKS then (flush U s)\<lparr>s_gap := True\<rparr>
      else if segmented_char c \<and> \<not> is_digit U c then
        (let s = (if s_word s \<noteq> [] then flush U s else s) in s\<lparr>s_segment := s_segment s @ [c]\<rparr>)
      else
        (let s = (if s_segment s \<noteq> [] then flush U s else s)
         in if unspaced_char c then
              (let s = flush U s in if is_alnum U c \<or> is_mark U c then emit [c] s else s)
            else if is_alnum U c then s\<lparr>s_word := s_word s @ [c]\<rparr>
            else if is_mark U c then
              (if s_word s \<noteq> [] then s\<lparr>s_word := s_word s @ [c]\<rparr> else s)
            else (flush U s)\<lparr>s_gap := True\<rparr>))"

definition scan_start :: scan where
  "scan_start = \<lparr>s_tokens = [], s_word = [], s_segment = [], s_gap = False\<rparr>"

definition tokens_of :: "ucd \<Rightarrow> pystr \<Rightarrow> pystr list" where
  "tokens_of U folded = s_tokens (flush U (fold (scan_char U) folded scan_start))"

definition tokenize_any :: "ucd \<Rightarrow> pystr \<Rightarrow> pystr list" where
  "tokenize_any U text = tokens_of U (lower U (nfkc U text))"

definition add_piece :: "ucd \<Rightarrow> pystr \<Rightarrow> pystr list \<Rightarrow> pystr list" where
  "add_piece U piece tokens =
     (let part = (if is_ascii piece then findall_runs ascii_token_char piece else tokens_of U piece)
      in if part = [] then tokens
         else (if tokens \<noteq> [] \<and> (is_run_token (last tokens) \<or> is_run_token (hd part))
               then tokens @ [BOUNDARY] else tokens) @ part)"

definition tokenize :: "ucd \<Rightarrow> pystr \<Rightarrow> pystr list" where
  "tokenize U text =
     (if is_ascii text then findall_runs ascii_token_char (lower U text)
      else fold (add_piece U) (split_ws (lower U (nfkc U text))) [])"

section \<open>Words, runs and pairs\<close>

definition words_of :: "pystr list \<Rightarrow> pystr list" where
  "words_of tokens = filter (\<lambda>t. t \<noteq> BOUNDARY \<and> \<not> is_run_token t) tokens"

definition group_token :: "pystr \<Rightarrow> pystr list list \<times> pystr \<Rightarrow> pystr list list \<times> pystr" where
  "group_token token = (\<lambda>(groups, previous).
     (if token \<noteq> BOUNDARY then
        (if previous \<noteq> BOUNDARY \<and> (is_run_token previous \<or> is_run_token token)
         then butlast groups @ [last groups @ [token]]
         else groups @ [[token]])
      else groups, token))"

definition runs_in :: "pystr list \<Rightarrow> pystr list list" where
  "runs_in tokens =
     filter (\<lambda>group. list_ex is_run_token group) (fst (fold group_token tokens ([], BOUNDARY)))"

definition words_and_runs :: "pystr list \<Rightarrow> pystr list \<times> pystr list list" where
  "words_and_runs tokens = (words_of tokens, runs_in tokens)"

text \<open>\<open>_unspaced\<close>, with the token before; a boundary never stands first or last.\<close>

fun unspaced_after :: "pystr \<Rightarrow> pystr list \<Rightarrow> pystr list" where
  "unspaced_after previous [] = []"
| "unspaced_after previous [t] = (if t \<noteq> BOUNDARY then [t] else [])"
| "unspaced_after previous (t # t' # ts) =
     (if t \<noteq> BOUNDARY \<or> (is_run_token previous \<and> is_run_token t')
      then t # unspaced_after t (t' # ts) else unspaced_after t (t' # ts))"

definition unspaced :: "pystr list \<Rightarrow> pystr list" where
  "unspaced tokens = unspaced_after BOUNDARY tokens"

definition pairs :: "pystr list \<Rightarrow> pystr list" where
  "pairs run = (if length run = 1 then run else map (\<lambda>(a, b). a @ b) (zip run (tl run)))"

definition word_matches :: "pystr \<Rightarrow> pystr list \<Rightarrow> bool" where
  "word_matches query_token content_tokens =
     (if query_token \<in> set content_tokens then True
      else if length query_token < SHARED_PREFIX then False
      else if is_segmented query_token then list_ex (\<lambda>t. prefix query_token t) content_tokens
      else list_ex (\<lambda>t. prefix (take SHARED_PREFIX query_token) t) content_tokens)"

definition is_phrase_of :: "pystr list \<Rightarrow> pystr list \<Rightarrow> bool" where
  "is_phrase_of query_tokens content_tokens =
     (query_tokens \<noteq> [] \<and>
      list_ex (\<lambda>i. take (length query_tokens) (drop i content_tokens) = query_tokens)
        [0..<length content_tokens + 1 - length query_tokens])"

section \<open>The score\<close>

definition counted_words :: "ucd \<Rightarrow> pystr \<Rightarrow> pystr list \<Rightarrow> pystr list list \<Rightarrow> pystr list" where
  "counted_words U query query_words query_runs =
     (if query_runs \<noteq> [] \<or> list_ex is_segmented query_words then
        (let attached = concat query_runs;
             marked = map (lower U)
               (filter (\<lambda>w. (is_upper U w \<and> w \<noteq> u ''I'') \<or> list_ex (is_digit U) w)
                  (tokens_of U (nfkc U query)))
         in filter (\<lambda>w. length w \<ge> MIN_QUERY_TOKEN \<or> is_segmented w \<or> w \<in> set attached
              \<or> w \<in> set marked) query_words)
      else filter (\<lambda>w. length w \<ge> MIN_QUERY_TOKEN) query_words)"

definition content_pairs :: "pystr list list \<Rightarrow> pystr list" where
  "content_pairs content_runs =
     concat (map pairs content_runs) @ filter is_run_token (concat content_runs)"

definition run_share :: "pystr list \<Rightarrow> pystr list \<Rightarrow> rat" where
  "run_share held run =
     of_nat (length (filter (\<lambda>p. p \<in> set held) (pairs run))) / of_nat (length (pairs run))"

definition credit_of ::
  "pystr list \<Rightarrow> pystr list list \<Rightarrow> pystr list \<Rightarrow> pystr list \<Rightarrow> rat" where
  "credit_of counted query_runs content_words held =
     of_nat (length (filter (\<lambda>w. word_matches w content_words) counted))
     + sum_list (map (run_share held) query_runs)"

definition score :: "ucd \<Rightarrow> pystr \<Rightarrow> pystr \<Rightarrow> rat option" where
  "score U query content =
     (let query_tokens = tokenize U query; content_tokens = tokenize U content
      in if is_phrase_of query_tokens content_tokens then Some 1
         else
           (let (query_words, query_runs) = words_and_runs query_tokens;
                counted = counted_words U query query_words query_runs
            in if counted = [] \<and> query_runs = [] then None
               else
                 (let (content_words, content_runs) = words_and_runs (unspaced content_tokens);
                      credit = credit_of counted query_runs content_words (content_pairs content_runs)
                  in if credit = 0 then None
                     else Some (credit / of_nat (length counted + length query_runs)))))"

section \<open>The range of a score\<close>

lemma run_share_range: "0 \<le> run_share held run" "run_share held run \<le> 1"
proof -
  have "length (filter (\<lambda>p. p \<in> set held) (pairs run)) \<le> length (pairs run)"
    by (rule length_filter_le)
  then show "run_share held run \<le> 1"
    by (simp add: run_share_def divide_le_eq)
  show "0 \<le> run_share held run"
    by (simp add: run_share_def)
qed

lemma sum_list_run_share:
  "0 \<le> sum_list (map (run_share held) runs)"
  "sum_list (map (run_share held) runs) \<le> of_nat (length runs)"
proof -
  show "0 \<le> sum_list (map (run_share held) runs)"
    by (rule sum_list_nonneg) (auto simp: run_share_range)
  show "sum_list (map (run_share held) runs) \<le> of_nat (length runs)"
  proof (induction runs)
    case (Cons run runs)
    then show ?case using run_share_range(2) [of held run] by simp
  qed simp
qed

lemma credit_range:
  "0 \<le> credit_of counted runs cw held"
  "credit_of counted runs cw held \<le> of_nat (length counted + length runs)"
proof -
  show "0 \<le> credit_of counted runs cw held"
    by (simp add: credit_of_def sum_list_run_share)
  have "length (filter (\<lambda>w. word_matches w cw) counted) \<le> length counted"
    by (rule length_filter_le)
  then have "(of_nat (length (filter (\<lambda>w. word_matches w cw) counted)) :: rat) \<le> of_nat (length counted)"
    by (simp only: of_nat_le_iff)
  then show "credit_of counted runs cw held \<le> of_nat (length counted + length runs)"
    using add_mono [OF _ sum_list_run_share(2) [of held runs]] by (simp add: credit_of_def)
qed

text \<open>
  A score is a number above 0 and at most 1, so that no hit is ever
  returned with the score 0 the code keeps apart from "not a hit".
\<close>

theorem score_range:
  assumes "score U query content = Some r"
  shows "0 < r \<and> r \<le> 1"
proof (cases "is_phrase_of (tokenize U query) (tokenize U content)")
  case True
  with assms show ?thesis by (simp add: score_def)
next
  case False
  with assms obtain counted runs cw held where
    nz: "credit_of counted runs cw held \<noteq> 0" and ne: "\<not> (counted = [] \<and> runs = [])"
    and r: "r = credit_of counted runs cw held / of_nat (length counted + length runs)"
    by (auto simp: score_def Let_def words_and_runs_def split: if_splits)
  have "0 < length counted + length runs" using ne by (cases counted; cases runs) auto
  then have pos: "(0::rat) < of_nat (length counted + length runs)" by (simp only: of_nat_0_less_iff)
  have "0 < credit_of counted runs cw held"
    using credit_range(1) [of counted runs cw held] nz by simp
  then have "0 < r" unfolding r using pos by (rule divide_pos_pos)
  moreover have "r \<le> 1"
    unfolding r using credit_range(2) [of counted runs cw held] pos
    by (simp only: divide_le_eq_1_pos)
  ultimately show ?thesis ..
qed

section \<open>Exact phrases\<close>

lemma is_phrase_of_iff:
  "is_phrase_of q c \<longleftrightarrow> q \<noteq> [] \<and> (\<exists>pre post. c = pre @ q @ post)"
proof -
  have "(\<exists>i < length c + 1 - length q. take (length q) (drop i c) = q)
      \<longleftrightarrow> (\<exists>pre post. c = pre @ q @ post)" (is "?L \<longleftrightarrow> ?R")
  proof
    assume ?L
    then obtain i where "take (length q) (drop i c) = q" by auto
    then have "c = take i c @ q @ drop (length q) (drop i c)"
      by (metis append_take_drop_id)
    then show ?R by blast
  next
    assume ?R
    then obtain pre post where c: "c = pre @ q @ post" by blast
    then have "take (length q) (drop (length pre) c) = q" by simp
    moreover have "length pre < length c + 1 - length q" using c by simp
    ultimately show ?L by blast
  qed
  then show ?thesis
    by (auto simp: is_phrase_of_def list_ex_iff)
qed

text \<open>
  A memory whose tokens hold the query's tokens, in order and
  adjacent, scores exactly 1, however short the query's words are.
\<close>

theorem score_of_phrase:
  assumes "tokenize U query \<noteq> []" and "tokenize U content = preceding @ tokenize U query @ after"
  shows "score U query content = Some 1"
proof -
  have "is_phrase_of (tokenize U query) (tokenize U content)"
    using assms by (auto simp: is_phrase_of_iff)
  then show ?thesis by (simp add: score_def)
qed

section \<open>The fast path of the tokenizer\<close>

text \<open>
  What the Unicode database says of ASCII and of whitespace: NFKC leaves ASCII as it is,
  lowercasing keeps ASCII in ASCII and leaves no capital A to Z, in ASCII exactly letters and
  digits are alphanumeric and nothing is a mark or a format character, and no whitespace
  character is any of the three.
\<close>

definition unicode_facts :: "ucd \<Rightarrow> bool" where
  "unicode_facts U \<longleftrightarrow>
     (\<forall>s. is_ascii s \<longrightarrow> nfkc U s = s \<and> is_ascii (lower U s))
     \<and> (\<forall>s. \<forall>c \<in> set (lower U s). \<not> between 65 90 c)
     \<and> (\<forall>c < 128. (is_alnum U c \<longleftrightarrow> between 48 57 c \<or> between 65 90 c \<or> between 97 122 c)
          \<and> \<not> is_mark U c \<and> category U c \<noteq> ''Cf'')
     \<and> (\<forall>c. is_space c \<longrightarrow> \<not> is_alnum U c \<and> \<not> is_mark U c \<and> category U c \<noteq> ''Cf'')"

definition join_tokens :: "pystr list \<Rightarrow> pystr list \<Rightarrow> pystr list" where
  "join_tokens tokens part =
     (if part = [] then tokens
      else (if tokens \<noteq> [] \<and> (is_run_token (last tokens) \<or> is_run_token (hd part))
            then tokens @ [BOUNDARY] else tokens) @ part)"

text \<open>Two scans of the same text, the second begun after the tokens \<open>T\<close> and a gap.\<close>

definition after_tokens :: "pystr list \<Rightarrow> scan \<Rightarrow> scan \<Rightarrow> bool" where
  "after_tokens T a b \<longleftrightarrow>
     s_word a = s_word b \<and> s_segment a = s_segment b \<and> s_tokens b = join_tokens T (s_tokens a)
     \<and> (if s_tokens a = [] then T = [] \<or> s_gap b else s_gap a = s_gap b)"

lemma after_tokens_emit: "after_tokens T a b \<Longrightarrow> after_tokens T (emit t a) (emit t b)"
  by (auto simp: after_tokens_def emit_def join_tokens_def split: if_splits)

lemma after_tokens_emits: "after_tokens T a b \<Longrightarrow> after_tokens T (fold emit ts a) (fold emit ts b)"
  by (induction ts arbitrary: a b) (auto intro: after_tokens_emit)

lemma after_tokens_word: "after_tokens T a b \<Longrightarrow> after_tokens T (a\<lparr>s_word := w\<rparr>) (b\<lparr>s_word := w\<rparr>)"
  by (auto simp: after_tokens_def split: if_splits)

lemma after_tokens_segment:
  "after_tokens T a b \<Longrightarrow> after_tokens T (a\<lparr>s_segment := w\<rparr>) (b\<lparr>s_segment := w\<rparr>)"
  by (auto simp: after_tokens_def split: if_splits)

lemma after_tokens_gap:
  "after_tokens T a b \<Longrightarrow> after_tokens T (a\<lparr>s_gap := True\<rparr>) (b\<lparr>s_gap := True\<rparr>)"
  by (auto simp: after_tokens_def split: if_splits)

lemma after_tokens_same:
  assumes "after_tokens T a b"
  shows "s_word a = s_word b" "s_segment a = s_segment b"
  using assms by (simp_all add: after_tokens_def)

lemma after_tokens_flush: "after_tokens T a b \<Longrightarrow> after_tokens T (flush U a) (flush U b)"
proof -
  assume ab: "after_tokens T a b"
  let ?f = "\<lambda>s. if s_word s \<noteq> [] then (emit (s_word s) s)\<lparr>s_word := []\<rparr> else s"
  have "after_tokens T (?f a) (?f b)"
    using ab after_tokens_same [OF ab] by (simp add: after_tokens_emit after_tokens_word)
  then show ?thesis
    using after_tokens_same [of T "?f a" "?f b"]
    by (auto simp: flush_def Let_def intro!: after_tokens_emits after_tokens_segment)
qed

lemmas after_tokens_intros = after_tokens_emit after_tokens_word after_tokens_segment
  after_tokens_gap after_tokens_flush

lemma after_tokens_scan_char:
  assumes ab: "after_tokens T a b"
  shows "after_tokens T (scan_char U c a) (scan_char U c b)"
proof -
  have flush_if: "after_tokens T (if P then flush U a else a) (if P then flush U b else b)" for P
    using ab by (simp add: after_tokens_flush)
  note same = after_tokens_same [OF ab] after_tokens_same [OF flush_if]
  show ?thesis
    unfolding scan_char_def Let_def
    using ab flush_if same by (auto intro!: after_tokens_intros)
qed

lemma after_tokens_scan:
  "after_tokens T a b \<Longrightarrow> after_tokens T (fold (scan_char U) s a) (fold (scan_char U) s b)"
  by (induction s arbitrary: a b) (auto intro: after_tokens_scan_char)

text \<open>A scan that starts a new piece: nothing pending, and a gap after earlier tokens.\<close>

definition new_piece :: "scan \<Rightarrow> bool" where
  "new_piece s \<longleftrightarrow> s_word s = [] \<and> s_segment s = [] \<and> (s_tokens s = [] \<or> s_gap s)"

lemma new_piece_after: "new_piece s \<Longrightarrow> after_tokens (s_tokens s) scan_start s"
  by (auto simp: new_piece_def after_tokens_def scan_start_def join_tokens_def)

lemma flush_pending [simp]: "s_word (flush U s) = []" "s_segment (flush U s) = []"
proof -
  have fold: "s_word (fold emit ts s) = s_word s" "s_segment (fold emit ts s) = s_segment s" for ts s
    by (induction ts arbitrary: s) (simp_all add: emit_def)
  show "s_word (flush U s) = []" "s_segment (flush U s) = []"
    by (simp_all add: flush_def Let_def fold emit_def)
qed

lemma flush_idle: "s_word s = [] \<Longrightarrow> s_segment s = [] \<Longrightarrow> flush U s = s"
  by (simp add: flush_def)

lemma flush_after_piece:
  assumes "new_piece s"
  shows "s_tokens (flush U (fold (scan_char U) piece s)) = join_tokens (s_tokens s) (tokens_of U piece)"
proof -
  have "after_tokens (s_tokens s) (flush U (fold (scan_char U) piece scan_start))
      (flush U (fold (scan_char U) piece s))"
    using assms by (intro after_tokens_flush after_tokens_scan new_piece_after)
  then show ?thesis by (simp add: after_tokens_def tokens_of_def)
qed

lemma space_ranges:
  assumes "is_space c"
  shows "c \<notin> WORD_MARKS" "\<not> segmented_char c" "\<not> unspaced_char c"
  using assms
  by (auto simp: is_space_def WORD_MARKS_def segmented_char_def unspaced_char_def between_def)

lemma scan_space:
  assumes "unicode_facts U" and "is_space c"
  shows "scan_char U c s = (flush U s)\<lparr>s_gap := True\<rparr>"
proof -
  have "category U c \<noteq> ''Cf''" "\<not> is_alnum U c" "\<not> is_mark U c"
    using assms by (auto simp: unicode_facts_def)
  with space_ranges [OF assms(2)] show ?thesis
    by (simp add: scan_char_def Let_def flush_idle)
qed

lemma scan_pieces:
  assumes U: "unicode_facts U" and start: "new_piece s"
  shows "s_tokens (flush U (fold (scan_char U) cs (fold (scan_char U) (rev acc) s))) =
    fold (\<lambda>piece ts. join_tokens ts (tokens_of U piece)) (runs_of (\<lambda>c. \<not> is_space c) acc cs) (s_tokens s)"
  using start
proof (induction "\<lambda>c. \<not> is_space c" acc cs arbitrary: s rule: runs_of.induct)
  case (1 acc)
  then show ?case
    using flush_after_piece [OF 1, of U "rev acc"] flush_after_piece [OF 1, of U "[]"]
    by (auto simp: tokens_of_def scan_start_def flush_idle join_tokens_def)
next
  case (2 acc c cs)
  show ?case
  proof (cases "is_space c")
    case False
    then show ?thesis using 2 by simp
  next
    case True
    let ?s = "(flush U (fold (scan_char U) (rev acc) s))\<lparr>s_gap := True\<rparr>"
    have new: "new_piece ?s" by (simp add: new_piece_def)
    have toks: "s_tokens ?s = join_tokens (s_tokens s) (tokens_of U (rev acc))"
      using flush_after_piece [OF 2(4)] by simp
    have empty: "tokens_of U [] = []"
      by (simp add: tokens_of_def scan_start_def flush_idle)
    have step: "fold (scan_char U) (c # cs) (fold (scan_char U) (rev acc) s) = fold (scan_char U) cs ?s"
      by (simp add: scan_space [OF U True])
    show ?thesis
    proof (cases "acc = []")
      case True
      with 2(2) [OF _ True new] \<open>is_space c\<close> step toks empty show ?thesis
        by (simp add: join_tokens_def)
    next
      case False
      with 2(3) [OF _ False new] \<open>is_space c\<close> step toks show ?thesis by simp
    qed
  qed
qed

text \<open>An ASCII piece without capitals: its tokens are its runs of letters and digits.\<close>

lemma ascii_char_class:
  assumes "unicode_facts U" and "c < 128" and "\<not> between 65 90 c"
  shows "is_alnum U c = ascii_token_char c" "\<not> is_mark U c" "category U c \<noteq> ''Cf''"
    "c \<notin> WORD_MARKS" "\<not> segmented_char c" "\<not> unspaced_char c"
  using assms
  by (auto simp: unicode_facts_def ascii_token_char_def WORD_MARKS_def segmented_char_def
      unspaced_char_def between_def)

lemma emit_pending [simp]: "s_word (emit t s) = s_word s" "s_segment (emit t s) = s_segment s"
  by (simp_all add: emit_def)

lemma emit_ascii:
  assumes "\<forall>t \<in> set (s_tokens s). \<not> is_run_token t" and "\<not> is_run_token t"
  shows "s_tokens (emit t s) = s_tokens s @ [t]"
  using assms by (auto simp: emit_def)

lemma scan_ascii:
  assumes U: "unicode_facts U"
    and cs: "\<forall>c \<in> set cs. c < 128 \<and> \<not> between 65 90 c"
    and acc: "\<forall>c \<in> set acc. c < 128"
    and s: "s_word s = rev acc" "s_segment s = []" "\<forall>t \<in> set (s_tokens s). \<not> is_run_token t"
  shows "s_tokens (flush U (fold (scan_char U) cs s)) = s_tokens s @ runs_of ascii_token_char acc cs"
  using cs acc s
proof (induction ascii_token_char acc cs arbitrary: s rule: runs_of.induct)
  case (1 acc)
  have "\<not> is_run_token (rev acc)"
    using 1(2) by (cases "rev acc") (auto simp: is_run_token_def unspaced_char_def between_def
        dest!: arg_cong [where f = set])
  with 1 show ?case by (simp add: flush_def Let_def emit_ascii)
next
  case (2 acc c cs)
  from 2(4) have c: "c < 128" "\<not> between 65 90 c" by auto
  note cls = ascii_char_class [OF U c]
  have not_run: "\<not> is_run_token (rev acc)"
    using 2(5) by (cases "rev acc") (auto simp: is_run_token_def unspaced_char_def between_def
        dest!: arg_cong [where f = set])
  show ?case
  proof (cases "ascii_token_char c")
    case True
    let ?s = "s\<lparr>s_word := s_word s @ [c]\<rparr>"
    have "scan_char U c s = ?s"
      using True cls 2(7) by (simp add: scan_char_def Let_def)
    then show ?thesis
      using 2(1) [OF True, of ?s] 2(4-8) c True by simp
  next
    case False
    let ?s = "(flush U s)\<lparr>s_gap := True\<rparr>"
    have step: "scan_char U c s = ?s"
      using False cls 2(7) by (simp add: scan_char_def Let_def)
    have toks: "s_tokens ?s = s_tokens s @ (if acc = [] then [] else [rev acc])"
      using 2(6-8) not_run by (simp add: flush_def emit_ascii)
    show ?thesis
    proof (cases "acc = []")
      case True
      then show ?thesis using 2(2) [OF False True, of ?s] 2(4-8) step toks False by simp
    next
      case acc: False
      then show ?thesis
        using 2(3) [OF False acc, of ?s] 2(4-8) step toks False not_run by auto
    qed
  qed
qed

lemma tokens_of_ascii:
  assumes "unicode_facts U" and "is_ascii s" and "\<forall>c \<in> set s. \<not> between 65 90 c"
  shows "tokens_of U s = findall_runs ascii_token_char s"
  using scan_ascii [OF assms(1), of s "[]" scan_start] assms(2,3)
  by (simp add: tokens_of_def findall_runs_def scan_start_def is_ascii_def list_all_iff)

lemma set_runs_of: "piece \<in> set (runs_of p acc cs) \<Longrightarrow> set piece \<subseteq> set acc \<union> set cs"
  by (induction p acc cs rule: runs_of.induct) (auto split: if_splits)

text \<open>
  Property C18: the tokenizer's shortcut is exact. Scanning only the pieces that hold
  non-ASCII text, and taking the others by one regular expression, gives the token list of the
  general path, boundaries included.
\<close>

theorem tokenize_eq_tokenize_any:
  assumes U: "unicode_facts U"
  shows "tokenize U text = tokenize_any U text"
proof (cases "is_ascii text")
  case True
  with U have "nfkc U text = text" "is_ascii (lower U text)"
    and "\<forall>c \<in> set (lower U text). \<not> between 65 90 c"
    by (auto simp: unicode_facts_def)
  with True U show ?thesis by (simp add: tokenize_def tokenize_any_def tokens_of_ascii)
next
  case False
  let ?t = "lower U (nfkc U text)"
  have caps: "\<forall>c \<in> set ?t. \<not> between 65 90 c" using U by (auto simp: unicode_facts_def)
  have piece: "add_piece U piece ts = join_tokens ts (tokens_of U piece)"
    if "piece \<in> set (split_ws ?t)" for piece ts
  proof -
    have "set piece \<subseteq> set ?t"
      using that set_runs_of [of piece _ "[]" ?t] by (auto simp: split_ws_def findall_runs_def)
    with caps have "is_ascii piece \<Longrightarrow> tokens_of U piece = findall_runs ascii_token_char piece"
      using tokens_of_ascii [OF U] by blast
    then show ?thesis by (simp add: add_piece_def join_tokens_def Let_def)
  qed
  have "tokenize U text = fold (add_piece U) (split_ws ?t) []"
    using False by (simp add: tokenize_def)
  also have "\<dots> = fold (\<lambda>piece ts. join_tokens ts (tokens_of U piece)) (split_ws ?t) []"
    by (intro fold_cong) (auto simp: piece)
  also have "\<dots> = tokenize_any U text"
    using scan_pieces [OF U, of scan_start ?t "[]"]
    by (simp add: new_piece_def scan_start_def tokenize_any_def tokens_of_def split_ws_def findall_runs_def)
  finally show ?thesis .
qed

section \<open>A concrete database\<close>

text \<open>
  ASCII with its letters and digits; every other character that is not whitespace counts as a
  letter of its own. Enough to run the scorer on English text and on Han and kana.
\<close>

definition plain_ucd :: ucd where
  "plain_ucd =
     \<lparr>nfkc = (\<lambda>s. s),
      lower = map (\<lambda>c. if between 65 90 c then c + 32 else c),
      category = (\<lambda>c. ''Lo''),
      is_alnum = (\<lambda>c. between 48 57 c \<or> between 65 90 c \<or> between 97 122 c \<or> (c > 127 \<and> \<not> is_space c)),
      is_digit = between 48 57,
      is_upper = (\<lambda>s. list_ex (between 65 90) s \<and> \<not> list_ex (between 97 122) s),
      decomposition = (\<lambda>c. []),
      word_break = (\<lambda>s. [s])\<rparr>"

lemma unicode_facts_plain: "unicode_facts plain_ucd"
proof -
  have "is_space c \<Longrightarrow> \<not> (between 48 57 c \<or> between 65 90 c \<or> between 97 122 c)" for c
    by (auto simp: is_space_def between_def)
  then show ?thesis
    by (auto simp: unicode_facts_def plain_ucd_def is_ascii_def list_all_iff is_mark_def between_def
        split: if_splits)
qed

end
