(* ===== verification/Local_Store.thy ===== *)
theory Local_Store
  imports Backend Keyword
begin

text \<open>
  What the two local backends (\<open>backends/in_memory.py\<close>, \<open>backends/sqlite.py\<close>) share: the
  environment their state carries for \<open>uuid.uuid4()\<close> and the clock (a sequence of ids and of
  timestamps and the number already drawn), the refusal of a nested scope, and ranking by the
  keyword scorer.
\<close>

record env =
  uuid4 :: "nat \<Rightarrow> pystr"
  clock :: "nat \<Rightarrow> pystr"
  ticks :: nat

definition reject_scope :: "scope option \<Rightarrow> exc + unit" where
  "reject_scope sc =
     (if or_empty sc \<noteq> [] then raising (reject_nested_filters (or_empty sc)) else Inr ())"

lemma reject_scope_ok [simp]:
  "reject_scope sc = Inr x \<longleftrightarrow> fst ` set (or_empty sc) \<inter> NESTED_FILTER_KEYS = {}"
  by (auto simp: reject_scope_def)

lemma reject_scope_bad:
  "fst ` set (or_empty sc) \<inter> NESTED_FILTER_KEYS \<noteq> {} \<Longrightarrow> \<exists>e. reject_scope sc = Inl e"
  by (cases "reject_scope sc") auto

definition keyword_rank :: "ucd \<Rightarrow> pystr \<Rightarrow> memory \<Rightarrow> rat option" where
  "keyword_rank U query m = score U query (m_content m)"

section \<open>Sorting and slicing a mapped list\<close>

lemma map_py_slice: "map f (py_slice xs i j) = py_slice (map f xs) i j"
  by (simp add: py_slice_def Let_def take_map drop_map)

lemma map_sort_key:
  assumes "\<And>x. key (f x) = key' x"
  shows "map f (sort_key key' xs) = sort_key key (map f xs)"
proof -
  have "map f (insort_key key' x ys) = insort_key key (f x) (map f ys)" for x ys
    by (induction ys) (auto simp: assms)
  then show ?thesis by (induction xs) simp_all
qed

end
