(* ===== verification/InMemory.thy ===== *)
theory InMemory
  imports Local_Store
begin

text \<open>
  \<open>memcp/backends/in_memory.py\<close>: the store is two dictionaries, memories and their history,
  both by memory id. The lemmas: the store's
  invariant, and that every operation implements the abstract store of \<open>Backend\<close>, errors
  included, so that the backend is a \<open>storing_backend\<close>.
\<close>

section \<open>The store\<close>

record mem_entry =
  e_user_id :: pystr
  e_content :: pystr
  e_scope :: scope
  e_metadata :: metadata
  e_system :: system
  e_created_at :: pystr
  e_updated_at :: "pystr option"

record mem_store =
  ms_store :: "(pystr, mem_entry) dict"
  ms_history :: "(pystr, history_entry list) dict"
  ms_env :: env

definition entry_to_memory :: "pystr \<Rightarrow> mem_entry \<Rightarrow> rat option \<Rightarrow> memory" where
  "entry_to_memory mid e sc =
     \<lparr>m_id = mid, m_content = e_content e, m_score = sc, m_scope = e_scope e,
      m_metadata = e_metadata e, m_created_at = e_created_at e, m_updated_at = e_updated_at e,
      m_partition = e_user_id e, m_system = e_system e\<rparr>"

definition in_memory_init :: "(nat \<Rightarrow> pystr) \<Rightarrow> (nat \<Rightarrow> pystr) \<Rightarrow> mem_store" where
  "in_memory_init ids stamps =
     \<lparr>ms_store = [], ms_history = [], ms_env = \<lparr>uuid4 = ids, clock = stamps, ticks = 0\<rparr>\<rparr>"

definition mem_uuid4 :: "(mem_store, pystr) act" where
  "mem_uuid4 w =
     (Inr (uuid4 (ms_env w) (ticks (ms_env w))),
      w\<lparr>ms_env := (ms_env w)\<lparr>ticks := Suc (ticks (ms_env w))\<rparr>\<rparr>)"

definition mem_now :: "(mem_store, pystr) act" where
  "mem_now w =
     (Inr (clock (ms_env w) (ticks (ms_env w))),
      w\<lparr>ms_env := (ms_env w)\<lparr>ticks := Suc (ticks (ms_env w))\<rparr>\<rparr>)"

section \<open>Operations\<close>

definition mem_validate_partition :: "pystr \<Rightarrow> unit checked" where
  "mem_validate_partition p = Inr ()"

text \<open>\<open>all(entry_scope.get(k) == scope_text(v) for k, v in scope.items())\<close>.\<close>

definition entry_in_scope :: "scope \<Rightarrow> mem_entry \<Rightarrow> bool" where
  "entry_in_scope sc e =
     list_all (\<lambda>(k, v). map_of (e_scope e) k = Some (JStr (scope_text v))) sc"

definition mem_add ::
  "pystr \<Rightarrow> pystr \<Rightarrow> scope option \<Rightarrow> metadata option \<Rightarrow> bool \<Rightarrow> system option
   \<Rightarrow> (mem_store, add_return) act" where
  "mem_add p content sc md infer sy =
     seq (from_result (refuse_partition mem_validate_partition p)) (\<lambda>_.
     seq (from_result (reject_scope sc)) (\<lambda>_.
     seq (from_result (refuse_reserved_metadata (dict_keys (or_empty md)))) (\<lambda>_.
     seq mem_uuid4 (\<lambda>memory_id.
     seq mem_now (\<lambda>now.
     seq (modify (\<lambda>w. w\<lparr>ms_store := dict_set memory_id
            \<lparr>e_user_id = p, e_content = content, e_scope = scope_as_text (or_empty sc),
             e_metadata = or_empty md,
             e_system = (case sy of None \<Rightarrow> no_system | Some x \<Rightarrow> x),
             e_created_at = now, e_updated_at = None\<rparr> (ms_store w)\<rparr>)) (\<lambda>_.
     seq (modify (\<lambda>w. w\<lparr>ms_history := dict_set memory_id
            [\<lparr>h_action = u ''created'', h_timestamp = now, h_content_before = None,
              h_content_after = Some content,
              h_author = sys_author (case sy of None \<Rightarrow> no_system | Some x \<Rightarrow> x)\<rparr>]
            (ms_history w)\<rparr>)) (\<lambda>_.
     ret (Many [\<lparr>r_id = memory_id, r_status = u ''ready'', r_created_at = now,
                 r_event = Ev_add\<rparr>]))))))))"

text \<open>Hits are sorted by score, highest first; equal scores keep the store's order.\<close>

definition mem_hits :: "ucd \<Rightarrow> pystr \<Rightarrow> pystr \<Rightarrow> scope option \<Rightarrow> mem_store \<Rightarrow> (rat \<times> pystr \<times> mem_entry) list" where
  "mem_hits U p query sc w =
     List.map_filter (\<lambda>(mid, e).
       if e_user_id e \<noteq> p then None
       else if or_empty sc \<noteq> [] \<and> \<not> entry_in_scope (or_empty sc) e then None
       else (case score U query (e_content e) of
               None \<Rightarrow> None
             | Some relevance \<Rightarrow> Some (relevance, mid, e))) (ms_store w)"

definition mem_search ::
  "ucd \<Rightarrow> pystr \<Rightarrow> pystr \<Rightarrow> scope option \<Rightarrow> int \<Rightarrow> float_arg \<Rightarrow> (mem_store, memory list) act" where
  "mem_search U p query sc limit threshold =
     seq (from_result (refuse_partition mem_validate_partition p)) (\<lambda>_.
     seq (from_result (reject_scope sc)) (\<lambda>_.
     reads (\<lambda>w.
       ret (map (\<lambda>(relevance, mid, e). entry_to_memory mid e (Some relevance))
             (py_slice (sort_key (\<lambda>h. - fst h) (mem_hits U p query sc w)) 0 limit)))))"

definition mem_delete :: "pystr \<Rightarrow> pystr \<Rightarrow> (mem_store, bool) act" where
  "mem_delete p memory_id =
     seq (from_result (refuse_partition mem_validate_partition p)) (\<lambda>_.
     reads (\<lambda>w.
       case map_of (ms_store w) memory_id of
         None \<Rightarrow> raise (MemoryAPIError 404 (Raw (u ''Not found'')))
       | Some e \<Rightarrow>
           if e_user_id e \<noteq> p then raise (MemoryAPIError 404 (Raw (u ''Not found'')))
           else
             seq (modify (\<lambda>w. w\<lparr>ms_store := dict_pop memory_id (ms_store w)\<rparr>)) (\<lambda>_.
             seq (modify (\<lambda>w. w\<lparr>ms_history := dict_pop memory_id (ms_history w)\<rparr>)) (\<lambda>_.
             ret True))))"

definition mem_doomed :: "pystr \<Rightarrow> scope \<Rightarrow> mem_store \<Rightarrow> pystr list" where
  "mem_doomed p sc w =
     map fst (filter (\<lambda>(mid, e). e_user_id e = p \<and> entry_in_scope sc e) (ms_store w))"

definition mem_delete_all :: "pystr \<Rightarrow> scope \<Rightarrow> (mem_store, int option) act" where
  "mem_delete_all p sc =
     seq (from_result (refuse_partition mem_validate_partition p)) (\<lambda>_.
     seq (from_result (raising (reject_nested_filters sc))) (\<lambda>_.
     reads (\<lambda>w.
       let to_delete = mem_doomed p sc w
       in seq (modify (\<lambda>w. w\<lparr>ms_store := fold dict_pop to_delete (ms_store w),
                             ms_history := fold dict_pop to_delete (ms_history w)\<rparr>)) (\<lambda>_.
          ret (Some (int (length to_delete)))))))"

definition mem_get :: "pystr \<Rightarrow> pystr \<Rightarrow> (mem_store, memory option) act" where
  "mem_get p memory_id =
     seq (from_result (refuse_partition mem_validate_partition p)) (\<lambda>_.
     reads (\<lambda>w.
       case map_of (ms_store w) memory_id of
         None \<Rightarrow> ret None
       | Some e \<Rightarrow>
           if e_user_id e \<noteq> p then ret None
           else ret (Some (entry_to_memory memory_id e None))))"

text \<open>\<open>entry["metadata"].update(patch.set)\<close>, then \<open>pop(key, None)\<close> for each removed key.\<close>

definition patch_entry ::
  "pystr option \<Rightarrow> patch option \<Rightarrow> system option \<Rightarrow> pystr \<Rightarrow> mem_entry \<Rightarrow> mem_entry" where
  "patch_entry content pt sy now e = e
     \<lparr>e_content := (case content of None \<Rightarrow> e_content e | Some c \<Rightarrow> c),
      e_updated_at := Some now,
      e_metadata := (case pt of None \<Rightarrow> e_metadata e
        | Some p \<Rightarrow> fold dict_pop (p_remove p) (dict_update (e_metadata e) (p_set p))),
      e_system := (case sy of None \<Rightarrow> e_system e | Some x \<Rightarrow> x)\<rparr>"

definition mem_update ::
  "pystr \<Rightarrow> pystr \<Rightarrow> pystr option \<Rightarrow> patch option \<Rightarrow> system option \<Rightarrow> (mem_store, memory) act" where
  "mem_update p memory_id content pt sy =
     seq (from_result (refuse_partition mem_validate_partition p)) (\<lambda>_.
     seq (from_result (case pt of None \<Rightarrow> Inr () | Some x \<Rightarrow> refuse_reserved_metadata (patch_keys x))) (\<lambda>_.
     reads (\<lambda>w.
       case map_of (ms_store w) memory_id of
         None \<Rightarrow> raise (MemoryAPIError 404 (Raw (u ''Not found'')))
       | Some e \<Rightarrow>
           if e_user_id e \<noteq> p then raise (MemoryAPIError 404 (Raw (u ''Not found'')))
           else
             seq mem_now (\<lambda>now.
             let e' = patch_entry content pt sy now e
             in seq (modify (\<lambda>w. w\<lparr>ms_store := dict_set memory_id e' (ms_store w)\<rparr>)) (\<lambda>_.
                seq (modify (\<lambda>w.
                  case map_of (ms_history w) memory_id of
                    None \<Rightarrow> w
                  | Some trail \<Rightarrow> w\<lparr>ms_history := dict_set memory_id (trail @
                      [\<lparr>h_action = u ''updated'', h_timestamp = now,
                        h_content_before = Some (e_content e),
                        h_content_after = Some (e_content e'),
                        h_author = sys_author (e_system e')\<rparr>]) (ms_history w)\<rparr>)) (\<lambda>_.
                ret (entry_to_memory memory_id e' None)))))))"

definition mem_listing :: "pystr \<Rightarrow> scope option \<Rightarrow> mem_store \<Rightarrow> memory list" where
  "mem_listing p sc w =
     map (\<lambda>(mid, e). entry_to_memory mid e None)
       (filter (\<lambda>(mid, e). e_user_id e = p \<and> (or_empty sc = [] \<or> entry_in_scope (or_empty sc) e))
          (ms_store w))"

definition mem_list_memories ::
  "pystr \<Rightarrow> scope option \<Rightarrow> int \<Rightarrow> pystr option \<Rightarrow> (mem_store, list_result) act" where
  "mem_list_memories p sc limit cursor =
     seq (from_result (refuse_partition mem_validate_partition p)) (\<lambda>_.
     reads (\<lambda>w. from_result (raising (paginate (mem_listing p sc w) cursor limit))))"

definition mem_history :: "pystr \<Rightarrow> pystr \<Rightarrow> (mem_store, history_entry list) act" where
  "mem_history p memory_id =
     seq (from_result (refuse_partition mem_validate_partition p)) (\<lambda>_.
     reads (\<lambda>w.
       case map_of (ms_store w) memory_id of
         None \<Rightarrow> raise (MemoryAPIError 404 (Raw (u ''Not found'')))
       | Some e \<Rightarrow>
           if e_user_id e \<noteq> p then raise (MemoryAPIError 404 (Raw (u ''Not found'')))
           else ret (or_empty (map_of (ms_history w) memory_id))))"

definition mem_entities :: "pystr \<Rightarrow> scope option \<Rightarrow> int \<Rightarrow> (mem_store, entities_result) act" where
  "mem_entities p sc limit = raise NotImplementedError"

definition mem_health :: "(mem_store, health_status) act" where
  "mem_health = ret \<lparr>hs_status = u ''healthy'', hs_backend = u ''in_memory'', hs_latency_ms = Some 0\<rparr>"

definition mem_close :: "(mem_store, unit) act" where
  "mem_close = modify (\<lambda>w. w\<lparr>ms_store := [], ms_history := []\<rparr>)"

definition in_memory_backend :: "ucd \<Rightarrow> mem_store backend" where
  "in_memory_backend U =
     \<lparr>b_retrieval = Some (u ''keyword''),
      b_extracts_facts = False,
      b_capabilities = [u ''update'', u ''list'', u ''history''],
      b_scope_keys = [u ''agent_id'', u ''run_id''],
      b_validate_partition = mem_validate_partition,
      b_add = mem_add,
      b_search = mem_search U,
      b_delete = mem_delete,
      b_delete_all = mem_delete_all,
      b_get = mem_get,
      b_update = mem_update,
      b_list_memories = mem_list_memories,
      b_history = mem_history,
      b_entities = mem_entities,
      b_health = mem_health,
      b_close = mem_close\<rparr>"

section \<open>Dictionary lemmas\<close>

lemma dict_set_present:
  "wf_dict d \<Longrightarrow> k \<in> fst ` set d \<Longrightarrow> dict_set k v d = map (\<lambda>q. if fst q = k then (k, v) else q) d"
proof (induction d)
  case (Cons q d)
  show ?case
  proof (cases "fst q = k")
    case True
    with Cons.prems(1) have "k \<notin> fst ` set d" by (auto simp: wf_dict_def)
    then have "map (\<lambda>q. if fst q = k then (k, v) else q) d = d"
      by (intro map_idI) (auto simp: image_iff)
    with True show ?thesis by simp
  next
    case False
    with Cons show ?thesis by (auto simp: wf_dict_def)
  qed
qed simp

lemma fold_pop_filter: "fold dict_pop ks d = filter (\<lambda>q. fst q \<notin> set ks) d"
proof (induction ks arbitrary: d)
  case (Cons k ks)
  then show ?case
    by (auto simp: AList.delete_eq intro!: filter_cong)
qed simp

lemma keys_fold_pop_all: "fst ` set (fold dict_pop ks d) = fst ` set d - set ks"
  by (force simp: fold_pop_filter)

lemma keys_dict_set: "fst ` set (dict_set k v d) = insert k (fst ` set d)"
  by (simp add: dom_update)

section \<open>The invariant and the abstract store\<close>

definition mem_inv :: "mem_store \<Rightarrow> bool" where
  "mem_inv w \<longleftrightarrow>
     wf_dict (ms_store w) \<and> fst ` set (ms_history w) = fst ` set (ms_store w)
     \<and> inj (uuid4 (ms_env w))
     \<and> fst ` set (ms_store w) \<subseteq> uuid4 (ms_env w) ` {..<ticks (ms_env w)}"

definition mem_abs :: "mem_store \<Rightarrow> spec" where
  "mem_abs w =
     \<lparr>sp_listing = (\<lambda>p. map (\<lambda>(mid, e). entry_to_memory mid e None)
        (filter (\<lambda>(mid, e). e_user_id e = p) (ms_store w))),
      sp_trail = (\<lambda>i. or_empty (map_of (ms_history w) i))\<rparr>"

lemma mem_inv_init: "inj ids \<Longrightarrow> mem_inv (in_memory_init ids stamps)"
  by (simp add: mem_inv_def in_memory_init_def)

lemma entry_to_memory_sel [simp]:
  "m_id (entry_to_memory i e sc) = i" "m_content (entry_to_memory i e sc) = e_content e"
  "m_scope (entry_to_memory i e sc) = e_scope e" "m_metadata (entry_to_memory i e sc) = e_metadata e"
  "m_partition (entry_to_memory i e sc) = e_user_id e" "m_system (entry_to_memory i e sc) = e_system e"
  "m_score (entry_to_memory i e sc) = sc" "m_created_at (entry_to_memory i e sc) = e_created_at e"
  "m_updated_at (entry_to_memory i e sc) = e_updated_at e"
  by (simp_all add: entry_to_memory_def)

lemma mem_listing_abs: "sp_listing (mem_abs w) p =
    map (\<lambda>(mid, e). entry_to_memory mid e None) (filter (\<lambda>(mid, e). e_user_id e = p) (ms_store w))"
  by (simp add: mem_abs_def)

lemma mem_trail_abs: "sp_trail (mem_abs w) i = or_empty (map_of (ms_history w) i)"
  by (simp add: mem_abs_def)

lemma mem_spec_get:
  assumes "wf_dict (ms_store w)"
  shows "spec_get p i (mem_abs w) =
    (case map_of (ms_store w) i of
       None \<Rightarrow> None
     | Some e \<Rightarrow> if e_user_id e = p then Some (entry_to_memory i e None) else None)"
proof -
  have "wf_dict d \<Longrightarrow>
    find (\<lambda>m. m_id m = i) (map (\<lambda>(mid, e). entry_to_memory mid e None)
        (filter (\<lambda>(mid, e). e_user_id e = p) d)) =
      (case map_of d i of None \<Rightarrow> None
       | Some e \<Rightarrow> if e_user_id e = p then Some (entry_to_memory i e None) else None)" for d
  proof (induction d)
    case (Cons q d)
    obtain k e where q: "q = (k, e)" by (cases q)
    from Cons.prems q have "wf_dict d" and "map_of d k = None"
      by (auto simp: wf_dict_def map_of_eq_None_iff)
    with Cons.IH q show ?case by auto
  qed simp
  from this [OF assms] show ?thesis by (simp add: spec_get_def mem_listing_abs)
qed

lemma scope_contains_entry: "scope_contains (e_scope e) sc = entry_in_scope sc e"
  by (auto simp: scope_contains_def entry_in_scope_def list_all_iff)

lemma matching_entry: "matching sc (entry_to_memory i e s) = entry_in_scope (or_empty sc) e"
  by (simp add: matching_def scope_contains_entry)

lemma entry_in_scope_Nil [simp]: "entry_in_scope [] e"
  by (simp add: entry_in_scope_def)

lemma mem_abs_env [simp]: "mem_abs (w\<lparr>ms_env := x\<rparr>) = mem_abs w"
  by (simp add: mem_abs_def)

lemma mem_inv_tick: "mem_inv w \<Longrightarrow> mem_inv (w\<lparr>ms_env := (ms_env w)\<lparr>ticks := Suc (ticks (ms_env w))\<rparr>\<rparr>)"
  by (auto simp: mem_inv_def less_Suc_eq lessThan_def)

lemmas mem_run = act_simps mem_validate_partition_def refuse_partition_def mem_uuid4_def mem_now_def

lemma mem_uuid4_fresh:
  assumes "mem_inv w" and "ticks (ms_env w) \<le> n"
  shows "uuid4 (ms_env w) n \<notin> fst ` set (ms_store w)"
proof
  assume "uuid4 (ms_env w) n \<in> fst ` set (ms_store w)"
  with assms(1) obtain k where "k < ticks (ms_env w)" "uuid4 (ms_env w) n = uuid4 (ms_env w) k"
    by (auto simp: mem_inv_def)
  with assms show False by (auto simp: mem_inv_def dest: injD)
qed

section \<open>Every operation implements the abstract one\<close>

lemma mem_get_refines:
  "mem_inv w \<Longrightarrow> mem_get p i w = (Inr (spec_get p i (mem_abs w)), w)"
  by (simp add: mem_get_def mem_run mem_inv_def mem_spec_get split: option.splits)

lemma mem_inv_insert:
  assumes inv: "mem_inv w" and n: "ticks (ms_env w) \<le> n" "n < n'"
  shows "mem_inv (w\<lparr>ms_env := (ms_env w)\<lparr>ticks := n'\<rparr>,
      ms_store := dict_set (uuid4 (ms_env w) n) e (ms_store w),
      ms_history := dict_set (uuid4 (ms_env w) n) h (ms_history w)\<rparr>)"
proof -
  have "uuid4 (ms_env w) ` {..<ticks (ms_env w)} \<subseteq> uuid4 (ms_env w) ` {..<n'}"
    using n by (intro image_mono) auto
  then show ?thesis
    using inv n by (auto simp: mem_inv_def keys_dict_set)
qed

lemma mem_abs_insert:
  assumes "i \<notin> fst ` set (ms_store w)"
  shows "mem_abs (w\<lparr>ms_env := x, ms_store := dict_set i e (ms_store w), ms_history := dict_set i
      [\<lparr>h_action = u ''created'', h_timestamp = e_created_at e, h_content_before = None,
        h_content_after = Some (e_content e), h_author = sys_author (e_system e)\<rparr>] (ms_history w)\<rparr>)
    = spec_add (e_user_id e) (entry_to_memory i e None) (mem_abs w)"
  using assms
  by (auto simp: mem_abs_def spec_add_def dict_set_fresh fun_eq_iff memory_author_def)

lemma mem_add_run:
  assumes inv: "mem_inv w" and "clean_keys (dict_keys (or_empty md))"
    and "fst ` set (or_empty sc) \<inter> NESTED_FILTER_KEYS = {}"
  shows "\<exists>i now w'. i = uuid4 (ms_env w) (ticks (ms_env w)) \<and> now = clock (ms_env w) (Suc (ticks (ms_env w)))
        \<and> ms_env w' = (ms_env w)\<lparr>ticks := Suc (Suc (ticks (ms_env w)))\<rparr>
        \<and> mem_add p c sc md infer sy w =
          (Inr (Many [\<lparr>r_id = i, r_status = u ''ready'', r_created_at = now, r_event = Ev_add\<rparr>]), w')
        \<and> mem_inv w' \<and> (\<forall>q. i \<notin> m_id ` set (sp_listing (mem_abs w) q))
        \<and> mem_abs w' = spec_add p
            \<lparr>m_id = i, m_content = c, m_score = None, m_scope = scope_as_text (or_empty sc),
             m_metadata = or_empty md, m_created_at = now, m_updated_at = None,
             m_partition = p, m_system = (case sy of None \<Rightarrow> no_system | Some x \<Rightarrow> x)\<rparr> (mem_abs w)"
proof -
  let ?n = "ticks (ms_env w)"
  let ?i = "uuid4 (ms_env w) ?n" and ?now = "clock (ms_env w) (Suc ?n)"
  let ?e = "\<lparr>e_user_id = p, e_content = c, e_scope = scope_as_text (or_empty sc),
      e_metadata = or_empty md, e_system = (case sy of None \<Rightarrow> no_system | Some x \<Rightarrow> x),
      e_created_at = ?now, e_updated_at = None\<rparr>"
  let ?w = "w\<lparr>ms_env := (ms_env w)\<lparr>ticks := Suc (Suc ?n)\<rparr>, ms_store := dict_set ?i ?e (ms_store w),
      ms_history := dict_set ?i
        [\<lparr>h_action = u ''created'', h_timestamp = ?now, h_content_before = None,
          h_content_after = Some c, h_author = sys_author (e_system ?e)\<rparr>] (ms_history w)\<rparr>"
  have fresh: "?i \<notin> fst ` set (ms_store w)"
    using inv by (rule mem_uuid4_fresh) simp
  have ok: "reject_scope sc = Inr ()" "refuse_reserved_metadata (dict_keys (or_empty md)) = Inr ()"
    using assms(2,3) by simp_all
  have "mem_add p c sc md infer sy w =
      (Inr (Many [\<lparr>r_id = ?i, r_status = u ''ready'', r_created_at = ?now, r_event = Ev_add\<rparr>]), ?w)"
    by (simp add: mem_add_def mem_run ok)
  moreover have "mem_inv ?w" using inv by (rule mem_inv_insert) simp_all
  moreover have "\<forall>q. ?i \<notin> m_id ` set (sp_listing (mem_abs w) q)"
    using fresh by (force simp: mem_listing_abs)
  moreover have "mem_abs ?w = spec_add p (entry_to_memory ?i ?e None) (mem_abs w)"
    using mem_abs_insert [OF fresh, where x = "(ms_env w)\<lparr>ticks := Suc (Suc ?n)\<rparr>" and e = ?e] by simp
  ultimately show ?thesis
    by (intro exI [of _ ?i] exI [of _ ?now] exI [of _ ?w]) (simp add: entry_to_memory_def)
qed

lemma mem_add_refines:
  assumes inv: "mem_inv w" and "clean_keys (dict_keys (or_empty md))"
    and "fst ` set (or_empty sc) \<inter> NESTED_FILTER_KEYS = {}"
  shows "\<exists>i now w'. mem_add p c sc md infer sy w =
          (Inr (Many [\<lparr>r_id = i, r_status = u ''ready'', r_created_at = now, r_event = Ev_add\<rparr>]), w')
        \<and> mem_inv w' \<and> (\<forall>q. i \<notin> m_id ` set (sp_listing (mem_abs w) q))
        \<and> mem_abs w' = spec_add p
            \<lparr>m_id = i, m_content = c, m_score = None, m_scope = scope_as_text (or_empty sc),
             m_metadata = or_empty md, m_created_at = now, m_updated_at = None,
             m_partition = p, m_system = (case sy of None \<Rightarrow> no_system | Some x \<Rightarrow> x)\<rparr> (mem_abs w)"
  using mem_add_run [OF assms] by blast

lemma mem_add_refuses:
  assumes "fst ` set (or_empty sc) \<inter> NESTED_FILTER_KEYS \<noteq> {}"
  shows "\<exists>e. mem_add p c sc md infer sy w = (Inl e, w)"
  using reject_scope_bad [OF assms] by (auto simp: mem_add_def mem_run)

lemma patch_entry_memory:
  "entry_to_memory i (patch_entry co pt sy now e) None
     = updated_memory (entry_to_memory i e None) co pt sy now"
  by (simp add: patch_entry_def updated_memory_def entry_to_memory_def apply_patch_def
      split: option.splits)

lemma mem_inv_set:
  assumes "mem_inv w" and "i \<in> fst ` set (ms_store w)"
  shows "mem_inv (w\<lparr>ms_store := dict_set i e (ms_store w), ms_history := dict_set i h (ms_history w)\<rparr>)"
  using assms by (auto simp: mem_inv_def keys_dict_set)

lemma mem_abs_set:
  assumes inv: "mem_inv w" and at: "map_of (ms_store w) i = Some e" and p: "e_user_id e = p"
    and m': "m' = entry_to_memory i e' None" and p': "e_user_id e' = p"
    and h: "map_of (ms_history w) i = Some trail"
    and hist: "h = trail @ [\<lparr>h_action = u ''updated'', h_timestamp = now,
        h_content_before = Some (e_content e), h_content_after = Some (e_content e'),
        h_author = sys_author (e_system e')\<rparr>]"
  shows "mem_abs (w\<lparr>ms_store := dict_set i e' (ms_store w), ms_history := dict_set i h (ms_history w)\<rparr>)
    = spec_update p (entry_to_memory i e None) m' now (mem_abs w)"
proof -
  let ?d = "ms_store w"
  have wf: "wf_dict ?d" using inv by (simp add: mem_inv_def)
  have mem: "i \<in> fst ` set ?d" using at by (metis domI dom_map_of_conv_image_fst)
  have same: "(k, x) \<in> set ?d \<Longrightarrow> k = i \<Longrightarrow> x = e" for k x
    using wf at by (auto simp: map_of_wf_in_set)
  have "map (\<lambda>(mid, e). entry_to_memory mid e None)
      (filter (\<lambda>(mid, e). e_user_id e = q) (dict_set i e' ?d)) =
    (if q = p then map (\<lambda>x. if m_id x = i then m' else x)
        (map (\<lambda>(mid, e). entry_to_memory mid e None) (filter (\<lambda>(mid, e). e_user_id e = p) ?d))
     else map (\<lambda>(mid, e). entry_to_memory mid e None) (filter (\<lambda>(mid, e). e_user_id e = q) ?d))" for q
  proof -
    have filt: "filter (\<lambda>(mid, e). e_user_id e = q) (map (\<lambda>x. if fst x = i then (i, e') else x) ?d)
      = map (\<lambda>x. if fst x = i then (i, e') else x) (filter (\<lambda>(mid, e). e_user_id e = q) ?d)"
      using same p p' by (auto simp: filter_map comp_def intro!: arg_cong [where f = "map _"] filter_cong)
    show ?thesis
      using same p p' m'
      by (auto simp: dict_set_present [OF wf mem] filt)
  qed
  then show ?thesis
    using h hist m' by (auto simp: mem_abs_def spec_update_def fun_eq_iff memory_author_def)
qed

lemma mem_update_missing:
  assumes "mem_inv w" and "\<And>x. pt = Some x \<Longrightarrow> clean_keys (patch_keys x)"
    and "spec_get p i (mem_abs w) = None"
  shows "mem_update p i co pt sy w = (Inl (MemoryAPIError 404 (Raw (u ''Not found''))), w)"
proof -
  have "(case pt of None \<Rightarrow> Inr () | Some x \<Rightarrow> refuse_reserved_metadata (patch_keys x)) = Inr ()"
    using assms(2) by (auto split: option.splits)
  then show ?thesis
    using assms by (auto simp: mem_update_def mem_run mem_inv_def mem_spec_get split: option.splits if_splits)
qed

lemma mem_update_run:
  assumes inv: "mem_inv w" and clean: "\<And>x. pt = Some x \<Longrightarrow> clean_keys (patch_keys x)"
    and found: "spec_get p i (mem_abs w) = Some m"
  shows "\<exists>now w'. now = clock (ms_env w) (ticks (ms_env w))
        \<and> ms_env w' = (ms_env w)\<lparr>ticks := Suc (ticks (ms_env w))\<rparr>
        \<and> mem_update p i co pt sy w = (Inr (updated_memory m co pt sy now), w') \<and> mem_inv w'
        \<and> mem_abs w' = spec_update p m (updated_memory m co pt sy now) now (mem_abs w)"
proof -
  obtain e where e: "map_of (ms_store w) i = Some e" "e_user_id e = p" "m = entry_to_memory i e None"
    using inv found by (auto simp: mem_inv_def mem_spec_get split: option.splits if_splits)
  have keys: "i \<in> fst ` set (ms_store w)" using e(1) by (metis domI dom_map_of_conv_image_fst)
  then obtain trail where h: "map_of (ms_history w) i = Some trail"
    using inv by (metis mem_inv_def map_of_eq_None_iff not_None_eq)
  let ?now = "clock (ms_env w) (ticks (ms_env w))"
  let ?w1 = "w\<lparr>ms_env := (ms_env w)\<lparr>ticks := Suc (ticks (ms_env w))\<rparr>\<rparr>"
  let ?e' = "patch_entry co pt sy ?now e"
  let ?h = "trail @ [\<lparr>h_action = u ''updated'', h_timestamp = ?now,
        h_content_before = Some (e_content e), h_content_after = Some (e_content ?e'),
        h_author = sys_author (e_system ?e')\<rparr>]"
  let ?w = "?w1\<lparr>ms_store := dict_set i ?e' (ms_store w), ms_history := dict_set i ?h (ms_history w)\<rparr>"
  have ok: "(case pt of None \<Rightarrow> Inr () | Some x \<Rightarrow> refuse_reserved_metadata (patch_keys x)) = Inr ()"
    using clean by (auto split: option.splits)
  have inv1: "mem_inv ?w1" using inv by (rule mem_inv_tick)
  have "mem_update p i co pt sy w = (Inr (entry_to_memory i ?e' None), ?w)"
    using e(1,2) h ok by (simp add: mem_update_def mem_run Let_def)
  moreover have "mem_inv ?w" using mem_inv_set [OF inv1] keys by simp
  moreover have "mem_abs ?w = spec_update p m (entry_to_memory i ?e' None) ?now (mem_abs w)"
    using mem_abs_set [OF inv1, of i e p _ ?e' trail ?h ?now] e h
    by (simp add: patch_entry_def)
  ultimately show ?thesis
    unfolding e(3) patch_entry_memory by (intro exI [of _ ?now] exI [of _ ?w]) simp
qed

lemma mem_update_refines:
  assumes inv: "mem_inv w" and clean: "\<And>x. pt = Some x \<Longrightarrow> clean_keys (patch_keys x)"
    and found: "spec_get p i (mem_abs w) = Some m"
  shows "\<exists>now w'. mem_update p i co pt sy w = (Inr (updated_memory m co pt sy now), w') \<and> mem_inv w'
        \<and> mem_abs w' = spec_update p m (updated_memory m co pt sy now) now (mem_abs w)"
  using mem_update_run [OF assms] by blast

lemma mem_remove:
  assumes inv: "mem_inv w"
    and D: "\<And>mid e. (mid, e) \<in> set (ms_store w) \<Longrightarrow>
        mid \<in> set ks \<longleftrightarrow> e_user_id e = p \<and> doomed (entry_to_memory mid e None)"
    and ks: "set ks \<subseteq> fst ` set (ms_store w)"
  shows "mem_inv (w\<lparr>ms_store := fold dict_pop ks (ms_store w), ms_history := fold dict_pop ks (ms_history w)\<rparr>)"
    and "mem_abs (w\<lparr>ms_store := fold dict_pop ks (ms_store w), ms_history := fold dict_pop ks (ms_history w)\<rparr>)
      = spec_remove p doomed (mem_abs w)"
proof -
  let ?d = "ms_store w"
  show "mem_inv (w\<lparr>ms_store := fold dict_pop ks ?d, ms_history := fold dict_pop ks (ms_history w)\<rparr>)"
    using inv by (auto simp: mem_inv_def keys_fold_pop_all)
  have "filter (\<lambda>(mid, e). e_user_id e = q) (filter (\<lambda>x. fst x \<notin> set ks) ?d) =
     filter (\<lambda>(mid, e). q = p \<longrightarrow> \<not> doomed (entry_to_memory mid e None)) (filter (\<lambda>(mid, e). e_user_id e = q) ?d)" for q
    using D by (auto intro!: filter_cong)
  then have listing: "sp_listing (mem_abs (w\<lparr>ms_store := fold dict_pop ks ?d, ms_history := hh\<rparr>)) q =
     (if q = p then filter (\<lambda>m. \<not> doomed m) (sp_listing (mem_abs w) p) else sp_listing (mem_abs w) q)" for q hh
    by (auto simp: mem_listing_abs fold_pop_filter filter_map comp_def split_def
        intro!: arg_cong [where f = "map _"] filter_cong)
  have "set ks = m_id ` set (filter doomed (sp_listing (mem_abs w) p))"
    using D ks by (force simp: mem_listing_abs)
  then show "mem_abs (w\<lparr>ms_store := fold dict_pop ks ?d, ms_history := fold dict_pop ks (ms_history w)\<rparr>)
      = spec_remove p doomed (mem_abs w)"
    using listing
    by (auto simp: spec_remove_def mem_abs_def fun_eq_iff map_of_fold_pop)
qed

lemma mem_delete_missing:
  "mem_inv w \<Longrightarrow> spec_get p i (mem_abs w) = None \<Longrightarrow>
   mem_delete p i w = (Inl (MemoryAPIError 404 (Raw (u ''Not found''))), w)"
  by (auto simp: mem_delete_def mem_run mem_inv_def mem_spec_get split: option.splits if_splits)

lemma mem_delete_refines:
  assumes inv: "mem_inv w" and found: "spec_get p i (mem_abs w) = Some m"
  shows "\<exists>w'. mem_delete p i w = (Inr True, w') \<and> mem_inv w'
        \<and> mem_abs w' = spec_remove p (\<lambda>x. m_id x = i) (mem_abs w)"
proof -
  obtain e where e: "map_of (ms_store w) i = Some e" "e_user_id e = p"
    using inv found by (auto simp: mem_inv_def mem_spec_get split: option.splits if_splits)
  have wf: "wf_dict (ms_store w)" using inv by (simp add: mem_inv_def)
  have D: "mid \<in> set [i] \<longleftrightarrow> e_user_id x = p \<and> m_id (entry_to_memory mid x None) = i"
    if "(mid, x) \<in> set (ms_store w)" for mid x
    using that e wf by (auto simp: map_of_wf_in_set)
  have "set [i] \<subseteq> fst ` set (ms_store w)"
    using e(1) by (auto dest!: map_of_SomeD intro: image_eqI [where x = "(i, e)"])
  note removed = mem_remove [where p = p and doomed = "\<lambda>x. m_id x = i", OF inv D this]
  have "mem_delete p i w = (Inr True, w\<lparr>ms_store := fold dict_pop [i] (ms_store w),
      ms_history := fold dict_pop [i] (ms_history w)\<rparr>)"
    using e by (simp add: mem_delete_def mem_run)
  with removed show ?thesis by blast
qed

lemma mem_delete_all_refines:
  assumes inv: "mem_inv w" and ok: "fst ` set d \<inter> NESTED_FILTER_KEYS = {}"
  shows "\<exists>w'. mem_delete_all p d w =
          (Inr (Some (int (length (filter (matching (Some d)) (sp_listing (mem_abs w) p))))), w')
        \<and> mem_inv w' \<and> mem_abs w' = spec_remove p (matching (Some d)) (mem_abs w)"
proof -
  let ?ks = "mem_doomed p d w"
  have wf: "wf_dict (ms_store w)" using inv by (simp add: mem_inv_def)
  have D: "mid \<in> set ?ks \<longleftrightarrow> e_user_id x = p \<and> matching (Some d) (entry_to_memory mid x None)"
    if "(mid, x) \<in> set (ms_store w)" for mid x
    using that wf by (force simp: mem_doomed_def matching_entry map_of_wf_in_set)
  have "set ?ks \<subseteq> fst ` set (ms_store w)" by (auto simp: mem_doomed_def)
  note removed = mem_remove [where p = p and doomed = "matching (Some d)", OF inv D this]
  have len: "length ?ks = length (filter (matching (Some d)) (sp_listing (mem_abs w) p))"
    by (simp add: mem_doomed_def mem_listing_abs filter_map comp_def split_def matching_entry)
  have nf: "reject_nested_filters d = Inr ()" using ok by simp
  have "mem_delete_all p d w = (Inr (Some (int (length ?ks))),
      w\<lparr>ms_store := fold dict_pop ?ks (ms_store w), ms_history := fold dict_pop ?ks (ms_history w)\<rparr>)"
    by (simp add: mem_delete_all_def mem_run nf Let_def)
  with removed len show ?thesis by auto
qed

lemma mem_delete_all_refuses:
  assumes "fst ` set d \<inter> NESTED_FILTER_KEYS \<noteq> {}"
  shows "\<exists>e. mem_delete_all p d w = (Inl e, w)"
proof -
  obtain m where "reject_nested_filters d = Inl m"
    using assms by (cases "reject_nested_filters d") auto
  then show ?thesis by (simp add: mem_delete_all_def mem_run)
qed

lemma mem_listing_eq: "mem_listing p sc w = filter (matching sc) (sp_listing (mem_abs w) p)"
  by (auto simp: mem_listing_def mem_listing_abs filter_map comp_def split_def matching_entry
      intro!: arg_cong [where f = "map _"] filter_cong)

lemma mem_list_refines:
  "mem_list_memories p sc l cu w =
     (raising (paginate (filter (matching sc) (sp_listing (mem_abs w) p)) cu l), w)"
  by (simp add: mem_list_memories_def mem_run mem_listing_eq)

lemma mem_history_refines:
  "mem_inv w \<Longrightarrow> mem_history p i w =
     ((case spec_get p i (mem_abs w) of
         None \<Rightarrow> Inl (MemoryAPIError 404 (Raw (u ''Not found'')))
       | Some m \<Rightarrow> Inr (sp_trail (mem_abs w) i)), w)"
  by (auto simp: mem_history_def mem_run mem_inv_def mem_spec_get mem_trail_abs
      split: option.splits if_splits)

lemma mem_hits_member:
  "(r, mid, e) \<in> set (mem_hits U p q sc w) \<longleftrightarrow>
     (mid, e) \<in> set (ms_store w) \<and> e_user_id e = p \<and> entry_in_scope (or_empty sc) e
     \<and> score U q (e_content e) = Some r"
  by (force simp: mem_hits_def List.map_filter_def image_iff split: if_splits option.splits)

lemma entry_unscored: "(entry_to_memory i e s)\<lparr>m_score := None\<rparr> = entry_to_memory i e None"
  by (simp add: entry_to_memory_def)

lemma entry_listed:
  "(i, e) \<in> set (ms_store w) \<Longrightarrow> entry_to_memory i e None \<in> set (sp_listing (mem_abs w) (e_user_id e))"
  by (force simp: mem_listing_abs)

lemma mem_search_run:
  assumes "fst ` set (or_empty sc) \<inter> NESTED_FILTER_KEYS = {}"
  shows "mem_search U p q sc l th w =
    (Inr (map (\<lambda>(r, mid, e). entry_to_memory mid e (Some r))
       (py_slice (sort_key (\<lambda>h. - fst h) (mem_hits U p q sc w)) 0 l)), w)"
proof -
  have ok: "reject_scope sc = Inr ()" using assms by simp
  show ?thesis by (simp add: mem_search_def mem_run ok)
qed

lemma entry_scored: "(entry_to_memory i e None)\<lparr>m_score := r\<rparr> = entry_to_memory i e r"
  by (simp add: entry_to_memory_def)

lemma mem_hits_abs:
  "map (\<lambda>(r, mid, e). (r, entry_to_memory mid e None)) (mem_hits U p q sc w) =
     List.map_filter (\<lambda>m. if matching sc m then map_option (\<lambda>r. (r, m)) (keyword_rank U q m) else None)
       (sp_listing (mem_abs w) p)"
proof -
  have "map (\<lambda>(r, mid, e). (r, entry_to_memory mid e None))
      (List.map_filter (\<lambda>(mid, e).
         if e_user_id e \<noteq> p then None
         else if or_empty sc \<noteq> [] \<and> \<not> entry_in_scope (or_empty sc) e then None
         else (case score U q (e_content e) of None \<Rightarrow> None | Some r \<Rightarrow> Some (r, mid, e))) d) =
    List.map_filter (\<lambda>m. if matching sc m then map_option (\<lambda>r. (r, m)) (keyword_rank U q m) else None)
      (map (\<lambda>(mid, e). entry_to_memory mid e None) (filter (\<lambda>(mid, e). e_user_id e = p) d))" for d
    by (induction d)
      (auto simp: map_filter_simps matching_entry entry_in_scope_def keyword_rank_def
        split: option.split if_splits)
  then show ?thesis by (simp add: mem_hits_def mem_listing_abs)
qed

lemma mem_search_refines:
  assumes "fst ` set (or_empty sc) \<inter> NESTED_FILTER_KEYS = {}"
  shows "mem_search U p q sc l th w =
    (Inr (spec_search (keyword_rank U) q sc l (sp_listing (mem_abs w) p)), w)"
proof -
  let ?f = "\<lambda>(r :: rat, mid, e). (r, entry_to_memory mid e None)"
  have score: "(\<lambda>(r, mid, e). entry_to_memory mid e (Some r)) = (\<lambda>(r, m). m\<lparr>m_score := Some r\<rparr>) \<circ> ?f"
    by (simp add: fun_eq_iff entry_scored)
  have sort: "map ?f (sort_key (\<lambda>h. - fst h) hs) = sort_key (\<lambda>h. - fst h) (map ?f hs)" for hs
    by (rule map_sort_key) auto
  have "map (\<lambda>(r, mid, e). entry_to_memory mid e (Some r)) (py_slice (sort_key (\<lambda>h. - fst h) hs) 0 l) =
      map (\<lambda>(r, m). m\<lparr>m_score := Some r\<rparr>) (py_slice (sort_key (\<lambda>h. - fst h) (map ?f hs)) 0 l)" for hs
    unfolding score map_map [symmetric] map_py_slice sort ..
  then show ?thesis
    by (simp add: mem_search_run [OF assms] spec_search_def mem_hits_abs)
qed

lemma mem_search_refuses:
  assumes "fst ` set (or_empty sc) \<inter> NESTED_FILTER_KEYS \<noteq> {}"
  shows "\<exists>e. mem_search U p q sc l th w = (Inl e, w)"
  using reject_scope_bad [OF assms] by (auto simp: mem_search_def mem_run)

lemma mem_inv_listing:
  "m \<in> set (sp_listing (mem_abs w) p) \<Longrightarrow> m_partition m = p \<and> m_score m = None"
  by (auto simp: mem_listing_abs)

lemma mem_inv_ids: "mem_inv w \<Longrightarrow> distinct (map m_id (sp_listing (mem_abs w) p))"
  by (simp add: mem_inv_def mem_listing_abs comp_def split_def wf_dict_def distinct_map_filter)

lemma mem_inv_apart:
  "mem_inv w \<Longrightarrow> p \<noteq> q \<Longrightarrow>
   m_id ` set (sp_listing (mem_abs w) p) \<inter> m_id ` set (sp_listing (mem_abs w) q) = {}"
  by (auto simp: mem_inv_def mem_listing_abs map_of_wf_in_set)

text \<open>The in-memory backend keeps the storing contract, whatever the Unicode database.\<close>

interpretation in_memory: storing_backend "in_memory_backend U" mem_inv mem_abs "keyword_rank U" "\<lambda>n. True" for U
proof (unfold_locales, goal_cases)
  case 1
  then show ?case by (simp add: mem_inv_listing)
next
  case 2
  then show ?case by (simp add: mem_inv_ids)
next
  case 3
  then show ?case by (simp add: mem_inv_apart)
qed (simp_all add: in_memory_backend_def mem_get_refines mem_add_refines mem_add_refuses
    mem_update_missing mem_update_refines mem_delete_missing mem_delete_refines
    mem_delete_all_refines mem_delete_all_refuses mem_list_refines mem_history_refines
    mem_search_refines mem_search_refuses mem_entities_def raise_def)

end
