(* ===== verification/Example.thy ===== *)
theory Example
  imports Policy InMemory
begin

text \<open>
  A small concrete run, for the witnesses: two spaces, a writer in each and a reader in the
  first, the in-memory backend empty at start.
\<close>

definition demo_env :: mem_store where
  "demo_env = in_memory_init (\<lambda>n. replicate (Suc n) 97) (\<lambda>n. replicate (Suc n) 48)"

definition demo_policy :: "mem_store policy" where
  "demo_policy =
     \<lparr>pol_backend = in_memory_backend plain_ucd,
      pol_capabilities = [u ''update'', u ''list'', u ''history''],
      pol_scope_keys = [u ''agent_id'', u ''run_id'']\<rparr>"

definition start :: "'w \<Rightarrow> 'w st" where
  "start w = \<lparr>store = w, entry = new_entry [] None None None None, audit_log = [], server_log = []\<rparr>"

definition ann :: key where
  "ann = \<lparr>k_name = u ''ann'', k_grant = \<lparr>g_space = u ''red'', g_relation = Writer\<rparr>\<rparr>"

definition ray :: key where
  "ray = \<lparr>k_name = u ''ray'', k_grant = \<lparr>g_space = u ''red'', g_relation = Reader\<rparr>\<rparr>"

definition bob :: key where
  "bob = \<lparr>k_name = u ''bob'', k_grant = \<lparr>g_space = u ''blue'', g_relation = Writer\<rparr>\<rparr>"

definition add_hi :: request where
  "add_hi = Add (u ''hi'') None None False"

lemma demo_init: "policy_init (in_memory_backend plain_ucd) = Inr demo_policy"
  by (simp add: policy_init_def in_memory_backend_def demo_policy_def RETRIEVAL_KINDS_def
      ALL_CAPABILITIES_def OPTIONAL_CAPABILITIES_def dict_keys_def)

lemma inj_demo: "inj (\<lambda>n. replicate (Suc n) (97 :: int))"
  by (auto simp: inj_def dest: arg_cong [where f = length])

lemma demo_inv: "mem_inv demo_env"
  unfolding demo_env_def by (rule mem_inv_init [OF inj_demo])

lemmas demo_defs = demo_policy_def demo_env_def in_memory_init_def start_def ann_def ray_def bob_def
  add_hi_def in_memory_backend_def mem_validate_partition_def refuse_partition_def

lemmas eval_simps = act_simps Let_def u_def perform_audited audited_def with_entry_def mapped_run
  opening_entry_def new_entry_def settle_def outcome_of_def
  require_def current_key_def validation_def as_validation_def not_found_def as_not_found_def
  checked_scope_def validate_scope_def scope_json_def refused_scope_def recordable_def
  body_defs add_arguments_def update_arguments_def requested_patch_def patch_fits_def
  search_arguments_def policy_read_def in_scope_def check_that_def
  validate_content_def strip_def strip_by_def is_space_def validate_memory_id_def is_memory_id_def
  is_id_char_def validate_limit_def validate_query_def in_unit_interval_def
  MAX_CONTENT_LENGTH_def MAX_LIMIT_def MAX_QUERY_LENGTH_def
  mem_add_def mem_get_def mem_update_def mem_delete_def mem_list_memories_def mem_listing_def
  mem_history_def mem_delete_all_def mem_doomed_def reject_scope_def mem_uuid4_def mem_now_def
  entry_to_memory_def dict_keys_def add_items_def check_space_run check_spaces_def in_space_def
  paginate_def py_slice_def slice_index_def system_for_def
  scope_as_text_def

text \<open>The evaluator at work: a writer adds a memory.\<close>

lemma demo_add:
  "fst (perform demo_policy (Some ann) add_hi (start demo_env)) =
     Inr (Added (Many [\<lparr>r_id = [97], r_status = u ''ready'', r_created_at = [48, 48], r_event = Ev_add\<rparr>]))"
  by (simp add: demo_defs eval_simps)

definition demo_one :: mem_store where
  "demo_one = demo_env
     \<lparr>ms_store := [([97], \<lparr>e_user_id = u ''red'', e_content = u ''hi'', e_scope = [], e_metadata = [],
        e_system = system_for (u ''red'') (u ''ann'') (Some (u ''ann'')), e_created_at = [48, 48],
        e_updated_at = None\<rparr>)],
      ms_history := [([97], [\<lparr>h_action = u ''created'', h_timestamp = [48, 48],
        h_content_before = None, h_content_after = Some (u ''hi''), h_author = Some (u ''ann'')\<rparr>])],
      ms_env := (ms_env demo_env)\<lparr>ticks := 2\<rparr>\<rparr>"

lemma demo_add_store: "store (snd (perform demo_policy (Some ann) add_hi (start demo_env))) = demo_one"
  by (simp add: demo_defs eval_simps demo_one_def)

lemma demo_get:
  "fst (perform demo_policy (Some ray) (Get [97]) (start demo_one)) =
     Inr (Got \<lparr>m_id = [97], m_content = u ''hi'', m_score = None, m_scope = [], m_metadata = [],
       m_created_at = [48, 48], m_updated_at = None, m_partition = u ''red'',
       m_system = system_for (u ''red'') (u ''ann'') (Some (u ''ann''))\<rparr>)"
  by (simp add: demo_defs eval_simps demo_one_def)

lemma demo_one_inv: "mem_inv demo_one"
  using inj_demo
  by (auto simp: mem_inv_def demo_one_def demo_env_def in_memory_init_def wf_dict_def image_iff
      intro!: bexI [of _ 0])

end
