(* ===== verification/Isolation.thy ===== *)
theory Isolation
  imports Policy Example
begin

text \<open>
  What policy guarantees over any backend at all, however it misbehaves: every call names the
  key's own space and carries its stamp, nothing from another space is handed back, a reader
  changes nothing, and each operation leaves exactly one audit record.
\<close>

section \<open>The calls a backend receives\<close>

datatype backend_call =
    Add_call pystr "metadata option" "system option"
  | Search_call pystr
  | Delete_call pystr
  | Delete_all_call pystr scope
  | Get_call pystr
  | Update_call pystr "patch option" "system option"
  | List_call pystr
  | History_call pystr
  | Entities_call pystr

definition spying :: "backend_call \<Rightarrow> ('w, 'a) act \<Rightarrow> ('w \<times> backend_call list, 'a) act" where
  "spying c m s = (case m (fst s) of (r, w) \<Rightarrow> (r, (w, snd s @ [c])))"

text \<open>The backend with a record of the calls it gets.\<close>

definition spied :: "'w backend \<Rightarrow> ('w \<times> backend_call list) backend" where
  "spied B =
     \<lparr>b_retrieval = b_retrieval B, b_extracts_facts = b_extracts_facts B,
      b_capabilities = b_capabilities B, b_scope_keys = b_scope_keys B,
      b_validate_partition = b_validate_partition B,
      b_add = (\<lambda>p c sc md infer sy. spying (Add_call p md sy) (b_add B p c sc md infer sy)),
      b_search = (\<lambda>p q sc l th. spying (Search_call p) (b_search B p q sc l th)),
      b_delete = (\<lambda>p i. spying (Delete_call p) (b_delete B p i)),
      b_delete_all = (\<lambda>p d. spying (Delete_all_call p d) (b_delete_all B p d)),
      b_get = (\<lambda>p i. spying (Get_call p) (b_get B p i)),
      b_update = (\<lambda>p i co pt sy. spying (Update_call p pt sy) (b_update B p i co pt sy)),
      b_list_memories = (\<lambda>p sc l cu. spying (List_call p) (b_list_memories B p sc l cu)),
      b_history = (\<lambda>p i. spying (History_call p) (b_history B p i)),
      b_entities = (\<lambda>p sc l. spying (Entities_call p) (b_entities B p sc l)),
      b_health = (\<lambda>s. case b_health B (fst s) of (r, w) \<Rightarrow> (r, (w, snd s))),
      b_close = (\<lambda>s. case b_close B (fst s) of (r, w) \<Rightarrow> (r, (w, snd s)))\<rparr>"

definition clean_patch :: "patch option \<Rightarrow> bool" where
  "clean_patch pt = (case pt of None \<Rightarrow> True | Some x \<Rightarrow> clean_keys (patch_keys x))"

definition stamp_of :: "pystr \<Rightarrow> system option \<Rightarrow> bool" where
  "stamp_of p sy = (case sy of None \<Rightarrow> False | Some x \<Rightarrow> stamped p x)"

fun call_allowed :: "pystr \<Rightarrow> backend_call \<Rightarrow> bool" where
  "call_allowed p (Add_call q md sy) =
     (q = p \<and> stamp_of p sy \<and> clean_keys (dict_keys (or_empty md)))"
| "call_allowed p (Search_call q) = (q = p)"
| "call_allowed p (Delete_call q) = (q = p)"
| "call_allowed p (Delete_all_call q d) = (q = p \<and> d \<noteq> [])"
| "call_allowed p (Get_call q) = (q = p)"
| "call_allowed p (Update_call q pt sy) = (q = p \<and> stamp_of p sy \<and> clean_patch pt)"
| "call_allowed p (List_call q) = (q = p)"
| "call_allowed p (History_call q) = (q = p)"
| "call_allowed p (Entities_call q) = (q = p)"

definition calls_from :: "pystr \<Rightarrow> backend_call list \<Rightarrow> 'w \<times> backend_call list \<Rightarrow> bool" where
  "calls_from p cs s \<longleftrightarrow> (\<exists>new. snd s = cs @ new \<and> list_all (call_allowed p) new)"

lemma keeps_spying: "call_allowed p c \<Longrightarrow> keeps (calls_from p cs) (spying c m)"
  by (auto simp: keeps_def calls_from_def spying_def split: prod.splits)

interpretation spy: confined_backend "spied B" p "calls_from p cs" for B p cs
  by unfold_locales
    (auto simp: spied_def stamp_of_def clean_patch_def intro!: keeps_spying split: option.splits)

text \<open>
  Property C3: whatever a key asks for and whatever the backend does, every call the
  backend receives names the key's own space; a write carries that space in its stamp and no
  reserved metadata key, and a bulk delete never comes with an empty scope.
\<close>

theorem calls_stay_in_space:
  assumes "pol_backend P = spied B" and "perform P (Some key) r s = (x, t)"
  shows "\<exists>new. snd (store t) = snd (store s) @ new \<and> list_all (call_allowed (g_space (k_grant key))) new"
proof -
  have "keeps (on_store (calls_from (g_space (k_grant key)) (snd (store s)))) (perform P (Some key) r)"
    unfolding perform_audited
    by (intro keeps_audited keeps_body) (simp add: assms(1) spy.confined.partition_calls_axioms)
  moreover have "on_store (calls_from (g_space (k_grant key)) (snd (store s))) s"
    by (simp add: on_store_def calls_from_def)
  ultimately have "on_store (calls_from (g_space (k_grant key)) (snd (store s))) t"
    using assms(2) by (rule keepsD)
  then show ?thesis by (simp add: on_store_def calls_from_def)
qed

definition demo_spied :: "(mem_store \<times> backend_call list) policy" where
  "demo_spied =
     \<lparr>pol_backend = spied (in_memory_backend plain_ucd), pol_capabilities = [],
      pol_scope_keys = [u ''agent_id'']\<rparr>"

theorem calls_stay_in_space_witness:
  "list_all (call_allowed (u ''red''))
     (snd (store (snd (perform demo_spied (Some ann) add_hi (start (demo_env, []))))))"
  using calls_stay_in_space [of demo_spied "in_memory_backend plain_ucd" ann add_hi "start (demo_env, [])"
      "fst (perform demo_spied (Some ann) add_hi (start (demo_env, [])))"
      "snd (perform demo_spied (Some ann) add_hi (start (demo_env, [])))"]
  by (auto simp: start_def ann_def demo_spied_def)

section \<open>How many calls an export makes\<close>

lemma spied_list_run:
  "call (b_list_memories (spied B) p sc l cu) s =
     (case b_list_memories B p sc l cu (fst (store s)) of
        (r, w) \<Rightarrow> (r, s\<lparr>store := (w, snd (store s) @ [List_call p])\<rparr>))"
  by (simp add: spied_def spying_def act_simps split: prod.splits)

lemma check_spaces_store: "store (snd (check_spaces ms p op s)) = store s"
  using check_spaces_ok [of ms p op s] check_spaces_bad [of ms p op s]
  by (cases "\<forall>m \<in> set ms. in_space m p") auto

text \<open>Each round but the last brings a memory, so the rounds are bounded by what is still wanted.\<close>

lemma list_all_calls:
  "int (length ms) \<le> limit \<Longrightarrow>
   \<exists>k \<le> nat (limit + 1 - int (length ms)).
     snd (store (snd (list_all_from (spied B) p limit op ms inc cu s))) =
       snd (store s) @ replicate k (List_call p)"
proof (induction "nat (limit + 1 - int (length ms))" arbitrary: ms inc cu s rule: less_induct)
  case less
  let ?n = "nat (limit + 1 - int (length ms))"
  have one: "1 \<le> ?n" using less.prems by simp
  obtain r w where b: "b_list_memories B p None (limit + 1 - int (length ms)) cu (fst (store s)) = (r, w)"
    by (cases "b_list_memories B p None (limit + 1 - int (length ms)) cu (fst (store s))")
  let ?t = "s\<lparr>store := (w, snd (store s) @ [List_call p])\<rparr>"
  have first: "snd (store ?t) = snd (store s) @ replicate 1 (List_call p)" by simp
  show ?case
  proof (cases r)
    case (Inl e)
    with b one first show ?thesis
      by (subst list_all_from.simps) (auto simp: spied_list_run intro!: exI [of _ 1])
  next
    case (Inr page)
    obtain r' t' where c: "check_spaces (l_memories page) p op ?t = (r', t')"
      by (cases "check_spaces (l_memories page) p op ?t")
    have t': "store t' = store ?t" using check_spaces_store [of "l_memories page" p op ?t] c by simp
    show ?thesis
    proof (cases r')
      case (Inl e)
      with b Inr c one t' show ?thesis
        by (subst list_all_from.simps) (auto simp: spied_list_run intro!: exI [of _ 1])
    next
      case ok: (Inr checked)
      have checked: "checked = l_memories page" using c ok check_spaces_Inr by blast
      show ?thesis
      proof (cases "l_next_cursor page = None \<or> l_memories page = [] \<or> int (length (ms @ checked)) > limit")
        case True
        with b Inr c ok one t' show ?thesis
          by (subst list_all_from.simps) (auto simp: spied_list_run Let_def intro!: exI [of _ 1])
      next
        case False
        let ?inc = "inc \<or> l_incomplete page"
        have fewer: "nat (limit + 1 - int (length (ms @ checked))) < ?n"
          and small: "int (length (ms @ checked)) \<le> limit"
          using False checked less.prems by auto
        from less.hyps [OF fewer small, of ?inc "l_next_cursor page" t'] obtain k
          where k: "k \<le> nat (limit + 1 - int (length (ms @ checked)))"
            "snd (store (snd (list_all_from (spied B) p limit op (ms @ checked) ?inc (l_next_cursor page) t'))) =
              snd (store t') @ replicate k (List_call p)" by blast
        have run: "list_all_from (spied B) p limit op ms inc cu s =
            list_all_from (spied B) p limit op (ms @ checked) ?inc (l_next_cursor page) t'"
          using False b Inr c ok by (subst list_all_from.simps) (auto simp: spied_list_run Let_def)
        have "Suc k \<le> ?n"
          using k(1) fewer by (rule le_less_trans [THEN Suc_leI])
        then show ?thesis
          using k(2) t' by (intro exI [of _ "Suc k"]) (simp add: run)
      qed
    qed
  qed
qed

text \<open>
  Property C16: an export always ends. Whatever the backend answers, cursors without
  end included, it makes at most 10,001 calls, each of them a listing of the key's own space.
\<close>

theorem export_calls_bounded:
  assumes "pol_backend P = spied B"
  shows "\<exists>k \<le> 10001. snd (store (snd (perform P (Some key) Export s))) =
    snd (store s) @ replicate k (List_call (g_space (k_grant key)))"
proof -
  let ?p = "g_space (k_grant key)" and ?s = "s\<lparr>entry := opening_entry (Some key) (u ''export_memories'')\<rparr>"
  obtain k where k: "k \<le> nat (MAX_EXPORT + 1)"
    "snd (store (snd (list_all_memories (spied B) ?p MAX_EXPORT (u ''export'') ?s))) =
      snd (store s) @ replicate k (List_call ?p)"
    using list_all_calls [of "[]" MAX_EXPORT B ?p "u ''export''" False None ?s]
    by (auto simp: list_all_memories_def MAX_EXPORT_def)
  have req: "require (Some key) Reader = Inr key" by (simp add: require_ok)
  obtain r t where run: "mapped Exported (export_body P (Some key)) ?s = (r, t)"
    by (cases "mapped Exported (export_body P (Some key)) ?s")
  then have "store t = store (snd (list_all_memories (spied B) ?p MAX_EXPORT (u ''export'') ?s))"
    by (auto simp: export_body_def run_export_def act_simps mapped_run req assms
        split: prod.splits sum.splits)
  with k run show ?thesis
    by (intro exI [of _ k]) (simp add: perform_audited audited_def with_entry_def MAX_EXPORT_def)
qed

theorem export_calls_bounded_witness:
  "\<exists>k \<le> 10001. snd (store (snd (perform demo_spied (Some ann) Export (start (demo_env, []))))) =
    replicate k (List_call (u ''red''))"
  using export_calls_bounded [of demo_spied "in_memory_backend plain_ucd" ann "start (demo_env, [])"]
  by (simp add: demo_spied_def start_def) (simp add: ann_def)

section \<open>What comes back\<close>

fun response_in_space :: "pystr \<Rightarrow> response \<Rightarrow> bool" where
  "response_in_space p (Found ms) = list_all (\<lambda>m. in_space m p) ms"
| "response_in_space p (Got m) = in_space m p"
| "response_in_space p (Updated_memory m) = in_space m p"
| "response_in_space p (Listed page) = list_all (\<lambda>m. in_space m p) (l_memories page)"
| "response_in_space p (Exported x) = (\<exists>ms. list_all (\<lambda>m. in_space m p) ms
     \<and> x_memories x = map serialize_memory ms)"
| "response_in_space p _ = True"

lemma ensures_with_entry [ensures_rules]: "ensures m Q \<Longrightarrow> ensures (with_entry e m) Q"
  by (auto simp: ensures_def with_entry_def split: prod.splits)

lemma ensures_mapped [ensures_rules]: "ensures m (\<lambda>x. Q (f x)) \<Longrightarrow> ensures (mapped f m) Q"
  unfolding mapped_def by (erule ensures_seq_with) (rule ensures_ret)

lemma ensures_require: "ensures (f key) Q \<Longrightarrow> ensures (seq (from_result (require (Some key) rel)) f) Q"
  by (auto simp: ensures_def act_simps require_ok split: sum.splits)

lemma ensures_in_scope:
  "list_all Q ms \<Longrightarrow> ensures (in_scope ms sc) (\<lambda>kept. list_all Q kept)"
proof -
  have "list_all Q ms \<Longrightarrow> ensures (keep_in_scope d ms) (\<lambda>kept. list_all Q kept)" for d
  proof (induction ms)
    case (Cons m ms)
    from Cons.prems have all: "list_all Q ms" and m: "Q m" by simp_all
    from m show ?case
      by (auto intro!: ensures_if ensures_seq [OF Cons.IH [OF all]]
          ensures_seq_with [OF Cons.IH [OF all]] ensures_ret)
  qed (simp add: ensures_ret)
  then show "list_all Q ms \<Longrightarrow> ensures (in_scope ms sc) (\<lambda>kept. list_all Q kept)"
    by (auto simp: in_scope_def intro!: ensures_rules)
qed

lemma ensures_export:
  "ensures (run_export B p limit) (\<lambda>x. \<exists>ms. list_all (\<lambda>m. in_space m p) ms
     \<and> x_memories x = map serialize_memory ms)"
  unfolding run_export_def
  by (rule ensures_seq_with [OF ensures_list_all]) (auto intro!: ensures_ret)

lemma ensures_True: "ensures m (\<lambda>_. True)"
  by (simp add: ensures_def)

lemma ensures_response:
  "ensures (perform P (Some key) r) (response_in_space (g_space (k_grant key)))"
proof -
  have read: "ensures (policy_read P p i op) (\<lambda>m. in_space m p)" for p i op
    by (auto simp: policy_read_def intro!: ensures_seq ensures_check_space)
  note rules = ensures_True read ensures_mapped ensures_require ensures_check_space
    ensures_seq_with [OF ensures_check_spaces] ensures_seq_with [OF ensures_in_scope]
    ensures_seq_with [OF ensures_export] ensures_seq ensures_ret
  show ?thesis
    unfolding perform_audited audited_def
    by (rule ensures_with_entry, cases r)
      (simp_all add: body_defs Let_def,
        ((rule rules | assumption | simp add: ensures_True)+)?)
qed

text \<open>
  Property C4: nothing from another space is ever handed back. For any backend, also
  one that returns other tenants' memories, each memory of a get, search, list, update or export
  that returns is stored under the key's space and names no other space in its stamp.
\<close>

theorem returned_in_space:
  assumes "perform P (Some key) r s = (Inr x, t)"
  shows "response_in_space (g_space (k_grant key)) x"
  by (rule ensuresD [OF ensures_response assms])

theorem returned_in_space_witness:
  "\<exists>x. fst (perform demo_policy (Some ray) (Get [97]) (start demo_one)) = Inr x
     \<and> response_in_space (u ''red'') x"
proof -
  obtain x t where run: "perform demo_policy (Some ray) (Get [97]) (start demo_one) = (Inr x, t)"
    using demo_get by (metis prod.collapse)
  from returned_in_space [OF run] run show ?thesis by (simp add: ray_def)
qed

section \<open>One record for each operation\<close>

text \<open>
  Property C6: each operation leaves exactly one audit record, whether it returns,
  refuses or fails, with its name, the caller's key, space and relation (none without a key), and
  the outcome that fits what happened.
\<close>

theorem one_audit_record:
  assumes "perform P ctx r s = (x, t)"
  shows "\<exists>a. audit_log t = audit_log s @ [a] \<and> ae_operation a = operation_name r
    \<and> ae_key a = map_option k_name ctx
    \<and> ae_space a = map_option (g_space \<circ> k_grant) ctx
    \<and> ae_relation a = map_option (g_relation \<circ> k_grant) ctx
    \<and> ae_outcome a = (case x of Inl e \<Rightarrow> outcome_of e | Inr _ \<Rightarrow> Outcome_ok)"
proof -
  have "keeps (on_record h L) (request_body P ctx r)" for h L
  proof (cases ctx)
    case (Some key)
    then show ?thesis by (simp add: keeps_body recording.partition_calls_axioms)
  next
    case None
    then show ?thesis
      by (cases r) (auto simp: body_defs require_def current_key_def keeps_def mapped_run act_simps
          on_record_def entry_head_def)
  qed
  then obtain a where a: "audit_log t = audit_log s @ [a]"
    "entry_head a = settle x (entry_head (opening_entry ctx (operation_name r)))"
    using with_entry_one assms unfolding perform_audited audited_def by metis
  have head: "ae_operation a = ae_operation (entry_head a)" "ae_key a = ae_key (entry_head a)"
    "ae_space a = ae_space (entry_head a)" "ae_relation a = ae_relation (entry_head a)"
    "ae_outcome a = ae_outcome (entry_head a)"
    by (simp_all add: entry_head_def)
  have "opening_entry ctx (operation_name r) = new_entry (operation_name r) (map_option k_name ctx)
      (map_option (g_space \<circ> k_grant) ctx) (map_option (g_relation \<circ> k_grant) ctx) None"
    by (cases ctx) (simp_all add: opening_entry_def current_key_def)
  then have "entry_head a = (new_entry (operation_name r) (map_option k_name ctx)
      (map_option (g_space \<circ> k_grant) ctx) (map_option (g_relation \<circ> k_grant) ctx) None)
      \<lparr>ae_outcome := (case x of Inl e \<Rightarrow> outcome_of e | Inr _ \<Rightarrow> Outcome_ok)\<rparr>"
    using a(2) by (cases x) (simp_all add: settle_def entry_head_def new_entry_def)
  with a(1) head show ?thesis by (intro exI [of _ a]) (simp add: new_entry_def)
qed

theorem one_audit_record_witness:
  "\<exists>a. audit_log (snd (perform demo_policy (Some ray) add_hi (start demo_env))) = [a]
     \<and> ae_key a = Some (u ''ray'') \<and> ae_outcome a = Outcome_code Forbidden"
proof -
  have run: "fst (perform demo_policy (Some ray) add_hi (start demo_env)) =
      Inl (PolicyError Forbidden (Policy_msg Forbidden_write))"
    by (simp add: demo_defs eval_simps)
  then obtain t where t: "perform demo_policy (Some ray) add_hi (start demo_env) =
      (Inl (PolicyError Forbidden (Policy_msg Forbidden_write)), t)"
    by (metis prod.collapse)
  from one_audit_record [OF t] t show ?thesis
    by (auto simp: start_def ray_def outcome_of_def)
qed

section \<open>Keys\<close>

text \<open>
  Property C5: a reader's request to add, update, delete, delete all or import is
  refused as \<open>forbidden\<close> before the backend is called: the store and the server log are as they
  were, and the refusal is the only thing recorded.
\<close>

theorem reader_cannot_write:
  assumes "g_relation (k_grant key) = Reader" and "writes r"
  shows "\<exists>a. perform P (Some key) r s =
      (Inl (PolicyError Forbidden (Policy_msg Forbidden_write)), s\<lparr>audit_log := audit_log s @ [a]\<rparr>)
    \<and> ae_outcome a = Outcome_code Forbidden"
proof -
  have req: "require (Some key) Writer = Inl (PolicyError Forbidden (Policy_msg Forbidden_write))"
    using assms(1) by (simp add: require_refused)
  show ?thesis
    using assms(2)
    by (cases r)
      (simp_all add: perform_audited audited_def with_entry_def body_defs mapped_run act_simps req
        settle_def outcome_of_def opening_entry_def current_key_def new_entry_def, (rule exI, rule conjI, rule refl, simp)+)
qed

theorem reader_cannot_write_witness:
  "\<exists>a. perform demo_policy (Some ray) add_hi (start demo_one) =
      (Inl (PolicyError Forbidden (Policy_msg Forbidden_write)),
       (start demo_one)\<lparr>audit_log := audit_log (start demo_one) @ [a]\<rparr>)
    \<and> ae_outcome a = Outcome_code Forbidden"
  by (rule reader_cannot_write) (simp_all add: ray_def add_hi_def)

text \<open>
  Outside a request, with no key set, every operation fails with
  LookupError and neither the store nor the server log changes.
\<close>

theorem no_key_no_access:
  "fst (perform P None r s) = Inl LookupError \<and> store (snd (perform P None r s)) = store s
   \<and> server_log (snd (perform P None r s)) = server_log s"
  using body_without_key [of P r "s\<lparr>entry := opening_entry None (operation_name r)\<rparr>"]
  by (auto simp: perform_audited audited_def with_entry_def split: prod.splits)

end
