(* ===== verification/Sqlite.thy ===== *)
theory Sqlite
  imports Local_Store
begin

text \<open>
  \<open>memcp/backends/sqlite.py\<close>: two tables behind one connection. A table is the list of its rows in
  \<open>rowid\<close> order, the order SQLite scans it in, whether it reads the table itself or an index entry
  of one \<open>user_id\<close>. Each operation is the statements of its \<open>op\<close> function, run under the lock; a
  write is a transaction, undone when a statement raises. The lemmas: the tables' invariant, and that
  every operation implements the abstract store of \<open>Backend\<close>, errors included, so that the backend
  is a \<open>storing_backend\<close>, as the in-memory one is.
\<close>

section \<open>The file\<close>

text \<open>
  The \<open>scope\<close>, \<open>metadata\<close> and \<open>system\<close> columns hold JSON text, written only by \<open>json.dumps\<close> and read
  only by \<open>json.loads\<close>; the text of a value is represented by the value.
\<close>

datatype 'a json_text = Json_text 'a

definition json_dumps_column :: "'a \<Rightarrow> 'a json_text" where
  "json_dumps_column v = Json_text v"

definition json_loads_column :: "'a json_text \<Rightarrow> 'a" where
  "json_loads_column t = (case t of Json_text v \<Rightarrow> v)"

lemma json_columns [simp]: "json_loads_column (json_dumps_column v) = v"
  by (simp add: json_loads_column_def json_dumps_column_def)

record memory_row =
  mr_rowid :: nat
  mr_id :: pystr
  mr_user_id :: pystr
  mr_content :: pystr
  mr_scope :: "scope json_text"
  mr_metadata :: "metadata json_text"
  mr_system :: "system json_text"
  mr_created_at :: pystr
  mr_updated_at :: "pystr option"

record history_row =
  hr_seq :: nat
  hr_memory_id :: pystr
  hr_action :: pystr
  hr_timestamp :: pystr
  hr_content_before :: "pystr option"
  hr_content_after :: "pystr option"
  hr_author :: "pystr option"

text \<open>\<open>t_last_seq\<close> is the largest \<open>seq\<close> ever used, which AUTOINCREMENT keeps.\<close>

record sql_file =
  t_memories :: "memory_row list"
  t_history :: "history_row list"
  t_last_seq :: nat

text \<open>
  \<open>db_fails\<close> says which contents the file cannot take: a statement that would leave such tables is
  refused (the disk is full or fails, another process holds the lock), at whatever point of an
  operation it comes.
\<close>

record sql_store =
  db_file :: sql_file
  db_open :: bool
  db_env :: env
  db_perf_counter :: "nat \<Rightarrow> rat"
  db_fails :: "sql_file \<Rightarrow> bool"

text \<open>\<open>CREATE TABLE IF NOT EXISTS\<close>: a new file gets empty tables, an old one keeps its own.\<close>

definition create_schema :: "sql_file option \<Rightarrow> sql_file" where
  "create_schema f =
     (case f of None \<Rightarrow> \<lparr>t_memories = [], t_history = [], t_last_seq = 0\<rparr> | Some tables \<Rightarrow> tables)"

definition sqlite_init ::
  "sql_file option \<Rightarrow> env \<Rightarrow> (nat \<Rightarrow> rat) \<Rightarrow> (sql_file \<Rightarrow> bool) \<Rightarrow> sql_store" where
  "sqlite_init f en timer fails =
     \<lparr>db_file = create_schema f, db_open = True, db_env = en, db_perf_counter = timer, db_fails = fails\<rparr>"

text \<open>A file that takes every write.\<close>

abbreviation reliable :: "sql_file \<Rightarrow> bool" where
  "reliable \<equiv> \<lambda>_. False"

definition sq_uuid4 :: "(sql_store, pystr) act" where
  "sq_uuid4 w =
     (Inr (uuid4 (db_env w) (ticks (db_env w))),
      w\<lparr>db_env := (db_env w)\<lparr>ticks := Suc (ticks (db_env w))\<rparr>\<rparr>)"

definition sq_now :: "(sql_store, pystr) act" where
  "sq_now w =
     (Inr (clock (db_env w) (ticks (db_env w))),
      w\<lparr>db_env := (db_env w)\<lparr>ticks := Suc (ticks (db_env w))\<rparr>\<rparr>)"

definition sq_perf_counter :: "(sql_store, rat) act" where
  "sq_perf_counter w =
     (Inr (db_perf_counter w (ticks (db_env w))),
      w\<lparr>db_env := (db_env w)\<lparr>ticks := Suc (ticks (db_env w))\<rparr>\<rparr>)"

section \<open>Statements\<close>

text \<open>A closed connection refuses every statement.\<close>

definition run_op :: "(sql_store, 'a) act \<Rightarrow> (sql_store, 'a) act" where
  "run_op fn = reads (\<lambda>w. if db_open w then fn else raise ProgrammingError)"

text \<open>A statement that writes: SQLite carries it out, or raises and has changed nothing.\<close>

definition execute_write :: "(sql_file \<Rightarrow> sql_file) \<Rightarrow> (sql_store, unit) act" where
  "execute_write change = reads (\<lambda>w.
     if db_fails w (change (db_file w)) then raise OperationalError
     else modify (\<lambda>w. w\<lparr>db_file := change (db_file w)\<rparr>))"

lemma execute_write_run [act_simps]:
  "execute_write change w =
     (if db_fails w (change (db_file w)) then (Inl OperationalError, w)
      else (Inr (), w\<lparr>db_file := change (db_file w)\<rparr>))"
  by (simp add: execute_write_def act_simps)

lemma wp_execute_write [wp_simps]:
  "wp (execute_write change) Q E w =
     (if db_fails w (change (db_file w)) then E OperationalError w
      else Q () (w\<lparr>db_file := change (db_file w)\<rparr>))"
  by (simp add: wp_def execute_write_run)

text \<open>\<open>with self._conn\<close>: committed, or undone when the block raises.\<close>

definition transaction :: "(sql_store, 'a) act \<Rightarrow> (sql_store, 'a) act" where
  "transaction block w =
     (case block w of (Inl e, w') \<Rightarrow> (Inl e, w) | (Inr x, w') \<Rightarrow> (Inr x, w'))"

definition next_rowid :: "memory_row list \<Rightarrow> nat" where
  "next_rowid rows = Suc (fold max (map mr_rowid rows) 0)"

text \<open>\<open>INSERT INTO memories\<close>: the row gets the next \<open>rowid\<close>; a used primary key is refused.\<close>

definition insert_memory :: "memory_row \<Rightarrow> (sql_store, unit) act" where
  "insert_memory row = reads (\<lambda>w.
     if list_ex (\<lambda>r. mr_id r = mr_id row) (t_memories (db_file w)) then raise IntegrityError
     else execute_write (\<lambda>f. f\<lparr>t_memories := t_memories f @
            [row\<lparr>mr_rowid := next_rowid (t_memories f)\<rparr>]\<rparr>))"

definition insert_history :: "history_row \<Rightarrow> (sql_store, unit) act" where
  "insert_history row = execute_write (\<lambda>f. f
     \<lparr>t_history := t_history f @ [row\<lparr>hr_seq := Suc (t_last_seq f)\<rparr>],
      t_last_seq := Suc (t_last_seq f)\<rparr>)"

text \<open>\<open>UPDATE memories SET content, updated_at, metadata, system WHERE id\<close>.\<close>

definition update_row ::
  "pystr \<Rightarrow> pystr \<Rightarrow> pystr \<Rightarrow> metadata \<Rightarrow> system \<Rightarrow> memory_row \<Rightarrow> memory_row" where
  "update_row memory_id content now md sy r =
     (if mr_id r = memory_id
      then r\<lparr>mr_content := content, mr_updated_at := Some now,
             mr_metadata := json_dumps_column md, mr_system := json_dumps_column sy\<rparr>
      else r)"

definition update_memory ::
  "pystr \<Rightarrow> pystr \<Rightarrow> pystr \<Rightarrow> metadata \<Rightarrow> system \<Rightarrow> (sql_store, unit) act" where
  "update_memory memory_id content now md sy = execute_write (\<lambda>f. f
     \<lparr>t_memories := map (update_row memory_id content now md sy) (t_memories f)\<rparr>)"

text \<open>
  \<open>DELETE FROM ... WHERE id IN (?, ?, ...)\<close>: one variable per id, and SQLite refuses a statement
  with more than \<open>vars\<close> of them (\<open>SQLITE_MAX_VARIABLE_NUMBER\<close>, set when the library is built; the
  other statements have at most seven).
\<close>

definition delete_memories :: "nat \<Rightarrow> pystr list \<Rightarrow> (sql_store, unit) act" where
  "delete_memories vars ids =
     (if length ids > vars then raise OperationalError
      else execute_write (\<lambda>f. f\<lparr>t_memories := filter (\<lambda>r. mr_id r \<notin> set ids) (t_memories f)\<rparr>))"

definition delete_history :: "nat \<Rightarrow> pystr list \<Rightarrow> (sql_store, unit) act" where
  "delete_history vars ids =
     (if length ids > vars then raise OperationalError
      else execute_write (\<lambda>f. f\<lparr>t_history := filter (\<lambda>r. hr_memory_id r \<notin> set ids) (t_history f)\<rparr>))"

definition user_rows :: "pystr \<Rightarrow> sql_store \<Rightarrow> memory_row list" where
  "user_rows p w = filter (\<lambda>r. mr_user_id r = p) (t_memories (db_file w))"

definition owned_row :: "pystr \<Rightarrow> pystr \<Rightarrow> sql_store \<Rightarrow> memory_row option" where
  "owned_row p memory_id w =
     find (\<lambda>r. mr_id r = memory_id \<and> mr_user_id r = p) (t_memories (db_file w))"

definition history_rows :: "pystr \<Rightarrow> sql_store \<Rightarrow> history_row list" where
  "history_rows memory_id w =
     sort_key hr_seq (filter (\<lambda>r. hr_memory_id r = memory_id) (t_history (db_file w)))"

definition row_to_memory :: "rat option \<Rightarrow> memory_row \<Rightarrow> memory" where
  "row_to_memory sc r =
     \<lparr>m_id = mr_id r, m_content = mr_content r, m_score = sc,
      m_scope = json_loads_column (mr_scope r), m_metadata = json_loads_column (mr_metadata r),
      m_created_at = mr_created_at r, m_updated_at = mr_updated_at r,
      m_partition = mr_user_id r, m_system = json_loads_column (mr_system r)\<rparr>"

definition row_to_history :: "history_row \<Rightarrow> history_entry" where
  "row_to_history r =
     \<lparr>h_action = hr_action r, h_timestamp = hr_timestamp r,
      h_content_before = hr_content_before r, h_content_after = hr_content_after r,
      h_author = hr_author r\<rparr>"

definition scope_matches :: "scope \<Rightarrow> scope \<Rightarrow> bool" where
  "scope_matches stored wanted =
     list_all (\<lambda>(k, v). case map_of stored k of None \<Rightarrow> False | Some s \<Rightarrow> scope_text s = scope_text v) wanted"

section \<open>Operations\<close>

definition sq_validate_partition :: "pystr \<Rightarrow> unit checked" where
  "sq_validate_partition p = Inr ()"

definition sq_add_op ::
  "pystr \<Rightarrow> pystr \<Rightarrow> scope \<Rightarrow> metadata \<Rightarrow> system \<Rightarrow> pystr \<Rightarrow> pystr \<Rightarrow> (sql_store, unit) act" where
  "sq_add_op p content sc md sy memory_id now =
     transaction (seq (insert_memory
       \<lparr>mr_rowid = 0, mr_id = memory_id, mr_user_id = p, mr_content = content,
        mr_scope = json_dumps_column (scope_as_text sc), mr_metadata = json_dumps_column md,
        mr_system = json_dumps_column sy, mr_created_at = now, mr_updated_at = None\<rparr>) (\<lambda>_.
     insert_history
       \<lparr>hr_seq = 0, hr_memory_id = memory_id, hr_action = u ''created'', hr_timestamp = now,
        hr_content_before = None, hr_content_after = Some content, hr_author = sys_author sy\<rparr>))"

definition sq_add ::
  "pystr \<Rightarrow> pystr \<Rightarrow> scope option \<Rightarrow> metadata option \<Rightarrow> bool \<Rightarrow> system option
   \<Rightarrow> (sql_store, add_return) act" where
  "sq_add p content sc md infer sy =
     seq (from_result (refuse_partition sq_validate_partition p)) (\<lambda>_.
     seq (from_result (reject_scope sc)) (\<lambda>_.
     seq (from_result (refuse_reserved_metadata (dict_keys (or_empty md)))) (\<lambda>_.
     seq sq_uuid4 (\<lambda>memory_id.
     seq sq_now (\<lambda>now.
     seq (run_op (sq_add_op p content (or_empty sc) (or_empty md)
            (case sy of None \<Rightarrow> no_system | Some x \<Rightarrow> x) memory_id now)) (\<lambda>_.
     ret (Many [\<lparr>r_id = memory_id, r_status = u ''ready'', r_created_at = now,
                 r_event = Ev_add\<rparr>])))))))"

definition sq_scored :: "ucd \<Rightarrow> pystr \<Rightarrow> pystr \<Rightarrow> scope option \<Rightarrow> sql_store \<Rightarrow> (rat \<times> memory_row) list" where
  "sq_scored U p query sc w =
     List.map_filter (\<lambda>r.
       if or_empty sc \<noteq> [] \<and> \<not> scope_matches (json_loads_column (mr_scope r)) (or_empty sc) then None
       else (case score U query (mr_content r) of
               None \<Rightarrow> None
             | Some relevance \<Rightarrow> Some (relevance, r))) (user_rows p w)"

definition sq_search ::
  "ucd \<Rightarrow> pystr \<Rightarrow> pystr \<Rightarrow> scope option \<Rightarrow> int \<Rightarrow> float_arg \<Rightarrow> (sql_store, memory list) act" where
  "sq_search U p query sc limit threshold =
     seq (from_result (refuse_partition sq_validate_partition p)) (\<lambda>_.
     seq (from_result (reject_scope sc)) (\<lambda>_.
     run_op (reads (\<lambda>w.
       ret (map (\<lambda>(relevance, r). row_to_memory (Some relevance) r)
             (py_slice (sort_key (\<lambda>h. - fst h) (sq_scored U p query sc w)) 0 limit))))))"

definition sq_delete :: "nat \<Rightarrow> pystr \<Rightarrow> pystr \<Rightarrow> (sql_store, bool) act" where
  "sq_delete vars p memory_id =
     seq (from_result (refuse_partition sq_validate_partition p)) (\<lambda>_.
     run_op (reads (\<lambda>w.
       if owned_row p memory_id w = None then raise (MemoryAPIError 404 (Raw (u ''Not found'')))
       else
         seq (transaction (seq (delete_memories vars [memory_id]) (\<lambda>_.
                           delete_history vars [memory_id]))) (\<lambda>_.
         ret True))))"

definition sq_doomed :: "pystr \<Rightarrow> scope \<Rightarrow> sql_store \<Rightarrow> pystr list" where
  "sq_doomed p sc w =
     map mr_id (filter (\<lambda>r. scope_matches (json_loads_column (mr_scope r)) sc) (user_rows p w))"

definition sq_delete_all :: "nat \<Rightarrow> pystr \<Rightarrow> scope \<Rightarrow> (sql_store, int option) act" where
  "sq_delete_all vars p sc =
     seq (from_result (refuse_partition sq_validate_partition p)) (\<lambda>_.
     seq (from_result (raising (reject_nested_filters sc))) (\<lambda>_.
     run_op (reads (\<lambda>w.
       let doomed = sq_doomed p sc w
       in if doomed = [] then ret (Some 0)
          else
            seq (transaction (seq (delete_memories vars doomed) (\<lambda>_.
                              delete_history vars doomed))) (\<lambda>_.
            ret (Some (int (length doomed))))))))"

definition sq_get :: "pystr \<Rightarrow> pystr \<Rightarrow> (sql_store, memory option) act" where
  "sq_get p memory_id =
     seq (from_result (refuse_partition sq_validate_partition p)) (\<lambda>_.
     run_op (reads (\<lambda>w. ret (map_option (row_to_memory None) (owned_row p memory_id w)))))"

text \<open>\<open>metadata.update(patch.set)\<close>, then \<open>pop(key, None)\<close> for each removed key.\<close>

definition row_patched :: "patch option \<Rightarrow> memory_row \<Rightarrow> metadata" where
  "row_patched pt r =
     (let md = json_loads_column (mr_metadata r)
      in case pt of None \<Rightarrow> md | Some p \<Rightarrow> fold dict_pop (p_remove p) (dict_update md (p_set p)))"

definition sq_update_op ::
  "pystr \<Rightarrow> pystr \<Rightarrow> pystr option \<Rightarrow> patch option \<Rightarrow> system option \<Rightarrow> pystr
   \<Rightarrow> (sql_store, memory) act" where
  "sq_update_op p memory_id content pt sy now = reads (\<lambda>w.
     case owned_row p memory_id w of
       None \<Rightarrow> raise (MemoryAPIError 404 (Raw (u ''Not found'')))
     | Some r \<Rightarrow>
         let new_content = (case content of None \<Rightarrow> mr_content r | Some c \<Rightarrow> c);
             new_system = (case sy of None \<Rightarrow> json_loads_column (mr_system r) | Some x \<Rightarrow> x)
         in seq (transaction
              (seq (update_memory memory_id new_content now (row_patched pt r) new_system) (\<lambda>_.
               insert_history
                 \<lparr>hr_seq = 0, hr_memory_id = memory_id, hr_action = u ''updated'', hr_timestamp = now,
                  hr_content_before = Some (mr_content r), hr_content_after = Some new_content,
                  hr_author = sys_author new_system\<rparr>))) (\<lambda>_.
            reads (\<lambda>w'.
              case owned_row p memory_id w' of
                None \<Rightarrow> raise (MemoryAPIError 404 (Raw (u ''Not found'')))
              | Some updated \<Rightarrow> ret (row_to_memory None updated))))"

definition sq_update ::
  "pystr \<Rightarrow> pystr \<Rightarrow> pystr option \<Rightarrow> patch option \<Rightarrow> system option \<Rightarrow> (sql_store, memory) act" where
  "sq_update p memory_id content pt sy =
     seq (from_result (refuse_partition sq_validate_partition p)) (\<lambda>_.
     seq (from_result (case pt of None \<Rightarrow> Inr () | Some x \<Rightarrow> refuse_reserved_metadata (patch_keys x))) (\<lambda>_.
     seq sq_now (\<lambda>now.
     run_op (sq_update_op p memory_id content pt sy now))))"

definition sq_listing :: "pystr \<Rightarrow> scope option \<Rightarrow> sql_store \<Rightarrow> memory list" where
  "sq_listing p sc w =
     map (row_to_memory None)
       (filter (\<lambda>r. or_empty sc = [] \<or> scope_matches (json_loads_column (mr_scope r)) (or_empty sc))
          (sort_key mr_rowid (user_rows p w)))"

definition sq_list_memories ::
  "pystr \<Rightarrow> scope option \<Rightarrow> int \<Rightarrow> pystr option \<Rightarrow> (sql_store, list_result) act" where
  "sq_list_memories p sc limit cursor =
     seq (from_result (refuse_partition sq_validate_partition p)) (\<lambda>_.
     seq (run_op (reads (\<lambda>w. ret (sq_listing p sc w)))) (\<lambda>memories.
     from_result (raising (paginate memories cursor limit))))"

definition sq_history :: "pystr \<Rightarrow> pystr \<Rightarrow> (sql_store, history_entry list) act" where
  "sq_history p memory_id =
     seq (from_result (refuse_partition sq_validate_partition p)) (\<lambda>_.
     run_op (reads (\<lambda>w.
       if owned_row p memory_id w = None then raise (MemoryAPIError 404 (Raw (u ''Not found'')))
       else ret (map row_to_history (history_rows memory_id w)))))"

definition sq_entities :: "pystr \<Rightarrow> scope option \<Rightarrow> int \<Rightarrow> (sql_store, entities_result) act" where
  "sq_entities p sc limit = raise NotImplementedError"

text \<open>\<open>round((elapsed) * 1000, 3)\<close>: milliseconds to three places.\<close>

definition round_ms :: "rat \<Rightarrow> rat" where
  "round_ms seconds = of_int (round_even (seconds * 1000 * 1000)) / 1000"

definition sq_health :: "(sql_store, health_status) act" where
  "sq_health =
     seq sq_perf_counter (\<lambda>started.
     catch
       (seq (run_op (ret ())) (\<lambda>_.
        seq sq_perf_counter (\<lambda>ended.
        ret \<lparr>hs_status = u ''healthy'', hs_backend = u ''sqlite'',
             hs_latency_ms = Some (round_ms (ended - started))\<rparr>)))
       (\<lambda>e. if e \<in> {IntegrityError, OperationalError, ProgrammingError}
            then ret \<lparr>hs_status = u ''unhealthy'', hs_backend = u ''sqlite'', hs_latency_ms = None\<rparr>
            else raise e))"

definition sq_close :: "(sql_store, unit) act" where
  "sq_close = modify (\<lambda>w. w\<lparr>db_open := False\<rparr>)"

definition sqlite_backend :: "ucd \<Rightarrow> nat \<Rightarrow> sql_store backend" where
  "sqlite_backend U vars =
     \<lparr>b_retrieval = Some (u ''keyword''),
      b_extracts_facts = False,
      b_capabilities = [u ''update'', u ''list'', u ''history''],
      b_scope_keys = [u ''agent_id'', u ''run_id''],
      b_validate_partition = sq_validate_partition,
      b_add = sq_add,
      b_search = sq_search U,
      b_delete = sq_delete vars,
      b_delete_all = sq_delete_all vars,
      b_get = sq_get,
      b_update = sq_update,
      b_list_memories = sq_list_memories,
      b_history = sq_history,
      b_entities = sq_entities,
      b_health = sq_health,
      b_close = sq_close\<rparr>"

section \<open>The invariant and the abstract store\<close>

definition text_values :: "scope \<Rightarrow> bool" where
  "text_values d \<longleftrightarrow> (\<forall>(k, v) \<in> set d. \<exists>s. v = JStr s)"

definition sq_inv :: "sql_store \<Rightarrow> bool" where
  "sq_inv w \<longleftrightarrow>
     db_open w \<and> sorted (map mr_rowid (t_memories (db_file w)))
     \<and> distinct (map mr_id (t_memories (db_file w)))
     \<and> (\<forall>r \<in> set (t_memories (db_file w)). text_values (json_loads_column (mr_scope r)))
     \<and> sorted (map hr_seq (t_history (db_file w)))
     \<and> (\<forall>h \<in> set (t_history (db_file w)). hr_seq h \<le> t_last_seq (db_file w))
     \<and> hr_memory_id ` set (t_history (db_file w)) \<subseteq> mr_id ` set (t_memories (db_file w))
     \<and> db_fails w = reliable \<and> inj (uuid4 (db_env w))
     \<and> (\<forall>n \<ge> ticks (db_env w). uuid4 (db_env w) n \<notin> mr_id ` set (t_memories (db_file w)))"

definition sq_abs :: "sql_store \<Rightarrow> spec" where
  "sq_abs w =
     \<lparr>sp_listing = (\<lambda>p. map (row_to_memory None) (user_rows p w)),
      sp_trail = (\<lambda>i. map row_to_history
        (filter (\<lambda>h. hr_memory_id h = i) (t_history (db_file w))))\<rparr>"

lemma sq_inv_new: "inj (uuid4 en) \<Longrightarrow> sq_inv (sqlite_init None en timer reliable)"
  by (simp add: sq_inv_def sqlite_init_def create_schema_def)

lemma row_to_memory_sel [simp]:
  "m_id (row_to_memory sc r) = mr_id r" "m_content (row_to_memory sc r) = mr_content r"
  "m_score (row_to_memory sc r) = sc" "m_partition (row_to_memory sc r) = mr_user_id r"
  "m_scope (row_to_memory sc r) = json_loads_column (mr_scope r)"
  "m_metadata (row_to_memory sc r) = json_loads_column (mr_metadata r)"
  "m_system (row_to_memory sc r) = json_loads_column (mr_system r)"
  "m_created_at (row_to_memory sc r) = mr_created_at r"
  by (simp_all add: row_to_memory_def)

lemma sq_listing_abs: "sp_listing (sq_abs w) p = map (row_to_memory None) (user_rows p w)"
  by (simp add: sq_abs_def)

lemma sq_abs_env [simp]: "sq_abs (w\<lparr>db_env := x\<rparr>) = sq_abs w" "user_rows p (w\<lparr>db_env := x\<rparr>) = user_rows p w"
  by (simp_all add: sq_abs_def user_rows_def)

lemma sq_inv_tick: "sq_inv w \<Longrightarrow> sq_inv (w\<lparr>db_env := (db_env w)\<lparr>ticks := Suc (ticks (db_env w))\<rparr>\<rparr>)"
  by (auto simp: sq_inv_def)

lemma scope_matches_contains:
  "text_values stored \<Longrightarrow> scope_matches stored wanted = scope_contains stored wanted"
  by (force simp: scope_matches_def scope_contains_def text_values_def list_all_iff
      split: option.splits dest: map_of_SomeD)

lemma sq_matching:
  "sq_inv w \<Longrightarrow> r \<in> set (t_memories (db_file w)) \<Longrightarrow>
   scope_matches (json_loads_column (mr_scope r)) sc = matching (Some sc) (row_to_memory s r)"
  by (simp add: sq_inv_def scope_matches_contains matching_def)

lemma user_rows_in: "r \<in> set (user_rows p w) \<longleftrightarrow> r \<in> set (t_memories (db_file w)) \<and> mr_user_id r = p"
  by (auto simp: user_rows_def)

lemma user_rows_sorted: "sq_inv w \<Longrightarrow> sort_key mr_rowid (user_rows p w) = user_rows p w"
  by (simp add: sq_inv_def user_rows_def sort_key_id_if_sorted sorted_filter)

lemma history_rows_abs: "sq_inv w \<Longrightarrow> map row_to_history (history_rows i w) = sp_trail (sq_abs w) i"
  by (simp add: sq_inv_def sq_abs_def history_rows_def sort_key_id_if_sorted sorted_filter)

lemma sq_owned: "spec_get p i (sq_abs w) = map_option (row_to_memory None) (owned_row p i w)"
proof -
  have "find (\<lambda>m. m_id m = i) (map (row_to_memory None) (filter (\<lambda>r. mr_user_id r = p) rows)) =
      map_option (row_to_memory None) (find (\<lambda>r. mr_id r = i \<and> mr_user_id r = p) rows)" for rows
    by (induction rows) auto
  then show ?thesis by (simp add: spec_get_def sq_listing_abs owned_row_def user_rows_def)
qed

lemma owned_row_in:
  "owned_row p i w = Some r \<Longrightarrow> r \<in> set (t_memories (db_file w)) \<and> mr_id r = i \<and> mr_user_id r = p"
  by (auto simp: owned_row_def find_Some_iff)

lemma row_of_id:
  "sq_inv w \<Longrightarrow> r \<in> set (t_memories (db_file w)) \<Longrightarrow> x \<in> set (t_memories (db_file w)) \<Longrightarrow>
   mr_id x = mr_id r \<Longrightarrow> x = r"
  by (auto simp: sq_inv_def distinct_map inj_on_def)

lemma id_in:
  "sq_inv w \<Longrightarrow> r \<in> set (t_memories (db_file w)) \<Longrightarrow> S \<subseteq> set (t_memories (db_file w)) \<Longrightarrow>
   mr_id r \<in> mr_id ` S \<longleftrightarrow> r \<in> S"
  by (rule inj_on_image_mem_iff [where B = "set (t_memories (db_file w))"])
    (simp_all add: sq_inv_def distinct_map)

lemmas sq_run = act_simps sq_validate_partition_def refuse_partition_def sq_uuid4_def sq_now_def
  run_op_def transaction_def

section \<open>Every operation implements the abstract one\<close>

lemma sq_get_refines: "sq_inv w \<Longrightarrow> sq_get p i w = (Inr (spec_get p i (sq_abs w)), w)"
  by (simp add: sq_get_def sq_run sq_owned sq_inv_def)

lemma next_rowid_above: "r \<in> set rows \<Longrightarrow> mr_rowid r \<le> next_rowid rows"
proof -
  have above: "x \<le> a \<Longrightarrow> x \<le> fold max xs a" for x a :: nat and xs
    by (induction xs arbitrary: a) (simp_all add: max.coboundedI2)
  then have "x \<in> set xs \<Longrightarrow> x \<le> fold max xs a" for x a :: nat and xs
    by (induction xs arbitrary: a) auto
  then show "r \<in> set rows \<Longrightarrow> mr_rowid r \<le> next_rowid rows"
    by (simp add: next_rowid_def le_SucI)
qed

text \<open>The tables after an add.\<close>

definition added_file :: "memory_row \<Rightarrow> sql_file \<Rightarrow> sql_file" where
  "added_file row f = f
     \<lparr>t_memories := t_memories f @ [row\<lparr>mr_rowid := next_rowid (t_memories f)\<rparr>],
      t_history := t_history f @
        [\<lparr>hr_seq = Suc (t_last_seq f), hr_memory_id = mr_id row, hr_action = u ''created'',
          hr_timestamp = mr_created_at row, hr_content_before = None,
          hr_content_after = Some (mr_content row), hr_author = sys_author (json_loads_column (mr_system row))\<rparr>],
      t_last_seq := Suc (t_last_seq f)\<rparr>"

lemma sq_inv_added:
  assumes inv: "sq_inv w" and n: "ticks (db_env w) \<le> n" "n < n'"
    and row: "mr_id row = uuid4 (db_env w) n" "text_values (json_loads_column (mr_scope row))"
  shows "sq_inv (w\<lparr>db_env := (db_env w)\<lparr>ticks := n'\<rparr>, db_file := added_file row (db_file w)\<rparr>)"
proof -
  have "uuid4 (db_env w) m \<noteq> uuid4 (db_env w) n" if "n' \<le> m" for m
    using inv n that by (auto simp: sq_inv_def dest: injD)
  then show ?thesis
    using inv n row next_rowid_above
    by (fastforce simp: sq_inv_def added_file_def sorted_append le_SucI image_iff)
qed

lemma sq_abs_added:
  assumes inv: "sq_inv w" and fresh: "mr_id row \<notin> mr_id ` set (t_memories (db_file w))"
  shows "sq_abs (w\<lparr>db_env := x, db_file := added_file row (db_file w)\<rparr>) =
    spec_add (mr_user_id row) (row_to_memory None row) (sq_abs w)"
proof -
  have "filter (\<lambda>h. hr_memory_id h = mr_id row) (t_history (db_file w)) = []"
    using inv fresh by (simp add: sq_inv_def filter_empty_conv) (metis image_eqI subsetD)
  then show ?thesis
    by (auto simp: sq_abs_def spec_add_def added_file_def user_rows_def fun_eq_iff row_to_memory_def
        row_to_history_def memory_author_def)
qed

lemma text_values_scope_as_text [simp]: "text_values (scope_as_text d)"
  by (auto simp: text_values_def scope_as_text_def)

lemma id_taken: "list_ex (\<lambda>r. mr_id r = i) rows \<longleftrightarrow> i \<in> mr_id ` set rows"
  by (induction rows) auto

lemma sq_add_run:
  assumes inv: "sq_inv w" and "clean_keys (dict_keys (or_empty md))"
    and "fst ` set (or_empty sc) \<inter> NESTED_FILTER_KEYS = {}"
  shows "\<exists>i now w'. i = uuid4 (db_env w) (ticks (db_env w)) \<and> now = clock (db_env w) (Suc (ticks (db_env w)))
        \<and> db_env w' = (db_env w)\<lparr>ticks := Suc (Suc (ticks (db_env w)))\<rparr>
        \<and> sq_add p c sc md infer sy w =
          (Inr (Many [\<lparr>r_id = i, r_status = u ''ready'', r_created_at = now, r_event = Ev_add\<rparr>]), w')
        \<and> sq_inv w' \<and> (\<forall>q. i \<notin> m_id ` set (sp_listing (sq_abs w) q))
        \<and> sq_abs w' = spec_add p
            \<lparr>m_id = i, m_content = c, m_score = None, m_scope = scope_as_text (or_empty sc),
             m_metadata = or_empty md, m_created_at = now, m_updated_at = None,
             m_partition = p, m_system = (case sy of None \<Rightarrow> no_system | Some x \<Rightarrow> x)\<rparr> (sq_abs w)"
proof -
  let ?n = "ticks (db_env w)"
  let ?i = "uuid4 (db_env w) ?n" and ?now = "clock (db_env w) (Suc ?n)"
  let ?sy = "case sy of None \<Rightarrow> no_system | Some x \<Rightarrow> x"
  let ?row = "\<lparr>mr_rowid = 0, mr_id = ?i, mr_user_id = p, mr_content = c,
      mr_scope = json_dumps_column (scope_as_text (or_empty sc)),
      mr_metadata = json_dumps_column (or_empty md), mr_system = json_dumps_column ?sy,
      mr_created_at = ?now, mr_updated_at = None\<rparr>"
  let ?w = "w\<lparr>db_env := (db_env w)\<lparr>ticks := Suc (Suc ?n)\<rparr>, db_file := added_file ?row (db_file w)\<rparr>"
  have fresh: "?i \<notin> mr_id ` set (t_memories (db_file w))" using inv by (simp add: sq_inv_def)
  then have new: "\<not> list_ex (\<lambda>r. mr_id r = ?i) (t_memories (db_file w))"
    by (simp add: id_taken)
  have ok: "reject_scope sc = Inr ()" "refuse_reserved_metadata (dict_keys (or_empty md)) = Inr ()"
    using assms(2,3) by simp_all
  have opened: "db_open w" "db_fails w = reliable" using inv by (simp_all add: sq_inv_def)
  have "sq_add p c sc md infer sy w =
      (Inr (Many [\<lparr>r_id = ?i, r_status = u ''ready'', r_created_at = ?now, r_event = Ev_add\<rparr>]), ?w)"
    by (simp add: sq_add_def sq_add_op_def sq_run ok opened insert_memory_def insert_history_def new
        added_file_def)
  moreover have "sq_inv ?w" using inv by (rule sq_inv_added) simp_all
  moreover have "\<forall>q. ?i \<notin> m_id ` set (sp_listing (sq_abs w) q)"
    using fresh by (force simp: sq_listing_abs user_rows_in)
  moreover have "sq_abs ?w = spec_add p (row_to_memory None ?row) (sq_abs w)"
    using sq_abs_added [OF inv, of ?row] fresh by simp
  ultimately show ?thesis
    by (intro exI [of _ ?i] exI [of _ ?now] exI [of _ ?w]) (simp add: row_to_memory_def)
qed

lemma sq_add_refines:
  assumes inv: "sq_inv w" and "clean_keys (dict_keys (or_empty md))"
    and "fst ` set (or_empty sc) \<inter> NESTED_FILTER_KEYS = {}"
  shows "\<exists>i now w'. sq_add p c sc md infer sy w =
          (Inr (Many [\<lparr>r_id = i, r_status = u ''ready'', r_created_at = now, r_event = Ev_add\<rparr>]), w')
        \<and> sq_inv w' \<and> (\<forall>q. i \<notin> m_id ` set (sp_listing (sq_abs w) q))
        \<and> sq_abs w' = spec_add p
            \<lparr>m_id = i, m_content = c, m_score = None, m_scope = scope_as_text (or_empty sc),
             m_metadata = or_empty md, m_created_at = now, m_updated_at = None,
             m_partition = p, m_system = (case sy of None \<Rightarrow> no_system | Some x \<Rightarrow> x)\<rparr> (sq_abs w)"
  using sq_add_run [OF assms] by blast

lemma sq_add_refuses:
  assumes "fst ` set (or_empty sc) \<inter> NESTED_FILTER_KEYS \<noteq> {}"
  shows "\<exists>e. sq_add p c sc md infer sy w = (Inl e, w)"
  using reject_scope_bad [OF assms] by (auto simp: sq_add_def sq_run)

subsection \<open>Deletes\<close>

text \<open>The tables after the rows of some ids, and their history, are deleted.\<close>

definition pruned_file :: "pystr list \<Rightarrow> sql_file \<Rightarrow> sql_file" where
  "pruned_file ids f = f
     \<lparr>t_memories := filter (\<lambda>r. mr_id r \<notin> set ids) (t_memories f),
      t_history := filter (\<lambda>h. hr_memory_id h \<notin> set ids) (t_history f)\<rparr>"

lemma prune_run:
  "sq_inv w \<Longrightarrow> length ids \<le> vars \<Longrightarrow>
   transaction (seq (delete_memories vars ids) (\<lambda>_. delete_history vars ids)) w =
     (Inr (), w\<lparr>db_file := pruned_file ids (db_file w)\<rparr>)"
  by (simp add: sq_inv_def transaction_def delete_memories_def delete_history_def act_simps pruned_file_def)

lemma prune_overflow:
  "vars < length ids \<Longrightarrow>
   transaction (seq (delete_memories vars ids) (\<lambda>_. delete_history vars ids)) w = (Inl OperationalError, w)"
  by (simp add: transaction_def delete_memories_def act_simps)

lemma sq_remove:
  assumes inv: "sq_inv w"
    and D: "\<And>r. r \<in> set (t_memories (db_file w)) \<Longrightarrow>
        mr_id r \<in> set ids \<longleftrightarrow> mr_user_id r = p \<and> doomed (row_to_memory None r)"
    and ids: "set ids \<subseteq> mr_id ` set (t_memories (db_file w))"
  shows "sq_inv (w\<lparr>db_file := pruned_file ids (db_file w)\<rparr>)"
    and "sq_abs (w\<lparr>db_file := pruned_file ids (db_file w)\<rparr>) = spec_remove p doomed (sq_abs w)"
proof -
  show "sq_inv (w\<lparr>db_file := pruned_file ids (db_file w)\<rparr>)"
    using inv by (auto simp: sq_inv_def pruned_file_def sorted_filter distinct_map_filter)
  have listing: "user_rows q (w\<lparr>db_file := pruned_file ids (db_file w)\<rparr>) =
      (if q = p then filter (\<lambda>r. \<not> doomed (row_to_memory None r)) (user_rows p w) else user_rows q w)" for q
    using D by (auto simp: user_rows_def pruned_file_def intro!: filter_cong)
  have trail: "filter (\<lambda>h. hr_memory_id h = i) (t_history (pruned_file ids f)) =
      (if i \<in> set ids then [] else filter (\<lambda>h. hr_memory_id h = i) (t_history f))" for i f
    by (auto simp: pruned_file_def filter_empty_conv intro!: filter_cong)
  have "set ids = m_id ` set (filter doomed (sp_listing (sq_abs w) p))"
    using D ids by (force simp: sq_listing_abs user_rows_in)
  then show "sq_abs (w\<lparr>db_file := pruned_file ids (db_file w)\<rparr>) = spec_remove p doomed (sq_abs w)"
    using listing trail by (simp add: spec_remove_def sq_abs_def fun_eq_iff filter_map comp_def)
qed

lemma sq_delete_missing:
  "sq_inv w \<Longrightarrow> spec_get p i (sq_abs w) = None \<Longrightarrow>
   sq_delete vars p i w = (Inl (MemoryAPIError 404 (Raw (u ''Not found''))), w)"
  by (simp add: sq_delete_def sq_run sq_owned sq_inv_def)

lemma sq_delete_refines:
  assumes inv: "sq_inv w" and found: "spec_get p i (sq_abs w) = Some m" and vars: "1 \<le> vars"
  shows "\<exists>w'. sq_delete vars p i w = (Inr True, w') \<and> sq_inv w'
        \<and> sq_abs w' = spec_remove p (\<lambda>x. m_id x = i) (sq_abs w)"
proof -
  obtain r where r: "owned_row p i w = Some r" using found by (auto simp: sq_owned)
  note row = owned_row_in [OF r]
  have "mr_id x \<in> set [i] \<longleftrightarrow> mr_user_id x = p \<and> m_id (row_to_memory None x) = i"
    if "x \<in> set (t_memories (db_file w))" for x
    using row_of_id [OF inv _ that, of r] row by auto
  moreover have "set [i] \<subseteq> mr_id ` set (t_memories (db_file w))" using row by auto
  ultimately have "sq_inv (w\<lparr>db_file := pruned_file [i] (db_file w)\<rparr>)"
    "sq_abs (w\<lparr>db_file := pruned_file [i] (db_file w)\<rparr>) = spec_remove p (\<lambda>x. m_id x = i) (sq_abs w)"
    using sq_remove [OF inv, where ids = "[i]" and p = p and doomed = "\<lambda>x. m_id x = i"] by blast+
  moreover have "db_open w" using inv by (simp add: sq_inv_def)
  then have "sq_delete vars p i w = (Inr True, w\<lparr>db_file := pruned_file [i] (db_file w)\<rparr>)"
    using vars by (simp add: sq_delete_def act_simps run_op_def sq_validate_partition_def
        refuse_partition_def r prune_run [OF inv])
  ultimately show ?thesis by blast
qed

lemma sq_doomed_eq:
  "sq_inv w \<Longrightarrow> sq_doomed p d w = map m_id (filter (matching (Some d)) (sp_listing (sq_abs w) p))"
  by (auto simp: sq_doomed_def sq_listing_abs filter_map comp_def sq_matching [where s = None] user_rows_in
      intro!: arg_cong [where f = "map mr_id"] filter_cong)

lemma sq_delete_all_refines:
  assumes inv: "sq_inv w" and ok: "fst ` set d \<inter> NESTED_FILTER_KEYS = {}"
    and vars: "length (filter (matching (Some d)) (sp_listing (sq_abs w) p)) \<le> vars"
  shows "\<exists>w'. sq_delete_all vars p d w =
          (Inr (Some (int (length (filter (matching (Some d)) (sp_listing (sq_abs w) p))))), w')
        \<and> sq_inv w' \<and> sq_abs w' = spec_remove p (matching (Some d)) (sq_abs w)"
proof -
  let ?ids = "sq_doomed p d w"
  have len: "length ?ids = length (filter (matching (Some d)) (sp_listing (sq_abs w) p))"
    by (simp add: sq_doomed_eq [OF inv])
  have D: "mr_id r \<in> set ?ids \<longleftrightarrow> mr_user_id r = p \<and> matching (Some d) (row_to_memory None r)"
    if "r \<in> set (t_memories (db_file w))" for r
  proof -
    let ?doomed = "filter (\<lambda>r. scope_matches (json_loads_column (mr_scope r)) d) (user_rows p w)"
    have "set ?doomed \<subseteq> set (t_memories (db_file w))" by (auto simp: user_rows_in)
    from id_in [OF inv that this] have "mr_id r \<in> set ?ids \<longleftrightarrow> r \<in> set ?doomed"
      by (simp add: sq_doomed_def)
    with that show ?thesis by (simp add: user_rows_in sq_matching [OF inv that, where s = None])
  qed
  have "set ?ids \<subseteq> mr_id ` set (t_memories (db_file w))" by (auto simp: sq_doomed_def user_rows_in)
  note removed = sq_remove [OF inv D this]
  have nf: "reject_nested_filters d = Inr ()" using ok by simp
  have opened: "db_open w" using inv by (simp add: sq_inv_def)
  show ?thesis
  proof (cases "?ids = []")
    case True
    then have "pruned_file ?ids (db_file w) = db_file w" by (simp add: pruned_file_def)
    with removed have "sq_abs w = spec_remove p (matching (Some d)) (sq_abs w)" by simp
    with True len inv show ?thesis
      by (simp add: sq_delete_all_def sq_run nf opened)
  next
    case False
    then have "sq_delete_all vars p d w = (Inr (Some (int (length ?ids))), w\<lparr>db_file := pruned_file ?ids (db_file w)\<rparr>)"
      using vars by (simp add: sq_delete_all_def act_simps sq_validate_partition_def
          refuse_partition_def run_op_def nf opened Let_def prune_run [OF inv] len)
    with removed len show ?thesis by auto
  qed
qed

text \<open>More ids than a statement has variables: SQLite refuses, and nothing is deleted.\<close>

lemma sq_delete_all_overflows:
  assumes inv: "sq_inv w" and ok: "fst ` set d \<inter> NESTED_FILTER_KEYS = {}"
    and vars: "vars < length (filter (matching (Some d)) (sp_listing (sq_abs w) p))"
  shows "sq_delete_all vars p d w = (Inl OperationalError, w)"
proof -
  have len: "vars < length (sq_doomed p d w)" using vars by (simp add: sq_doomed_eq [OF inv])
  have nf: "reject_nested_filters d = Inr ()" using ok by simp
  have "db_open w" using inv by (simp add: sq_inv_def)
  with len show ?thesis
    by (cases "sq_doomed p d w = []")
      (simp_all add: nf sq_delete_all_def act_simps sq_validate_partition_def refuse_partition_def
        run_op_def Let_def prune_overflow)
qed

lemma sq_delete_all_refuses:
  assumes "fst ` set d \<inter> NESTED_FILTER_KEYS \<noteq> {}"
  shows "\<exists>e. sq_delete_all vars p d w = (Inl e, w)"
proof -
  obtain m where "reject_nested_filters d = Inl m"
    using assms by (cases "reject_nested_filters d") auto
  then show ?thesis by (simp add: sq_delete_all_def sq_run)
qed

subsection \<open>Updates\<close>

definition updated_file :: "memory_row \<Rightarrow> memory_row \<Rightarrow> pystr \<Rightarrow> sql_file \<Rightarrow> sql_file" where
  "updated_file r r' now f = f
     \<lparr>t_memories := map (\<lambda>x. if mr_id x = mr_id r then r' else x) (t_memories f),
      t_history := t_history f @
        [\<lparr>hr_seq = Suc (t_last_seq f), hr_memory_id = mr_id r, hr_action = u ''updated'',
          hr_timestamp = now, hr_content_before = Some (mr_content r),
          hr_content_after = Some (mr_content r'),
          hr_author = sys_author (json_loads_column (mr_system r'))\<rparr>],
      t_last_seq := Suc (t_last_seq f)\<rparr>"

lemma map_replaced:
  assumes "\<And>x. x \<in> set xs \<Longrightarrow> g x = k \<Longrightarrow> f r' = f x"
  shows "map f (map (\<lambda>x. if g x = k then r' else x) xs) = map f xs"
  using assms by (induction xs) auto

lemma sq_updated:
  assumes inv: "sq_inv w" and r: "r \<in> set (t_memories (db_file w))"
    and r': "mr_rowid r' = mr_rowid r" "mr_id r' = mr_id r" "mr_user_id r' = mr_user_id r"
      "mr_scope r' = mr_scope r"
  shows "sq_inv (w\<lparr>db_file := updated_file r r' now (db_file w)\<rparr>)"
    and "sq_abs (w\<lparr>db_file := updated_file r r' now (db_file w)\<rparr>) =
      spec_update (mr_user_id r) (row_to_memory None r) (row_to_memory None r') now (sq_abs w)"
proof -
  let ?rows = "t_memories (db_file w)"
  define new where "new = map (\<lambda>x. if mr_id x = mr_id r then r' else x) ?rows"
  have only: "x = r" if "x \<in> set ?rows" "mr_id x = mr_id r" for x
    using row_of_id [OF inv r that] .
  have same: "map mr_rowid new = map mr_rowid ?rows" "map mr_id new = map mr_id ?rows"
    unfolding new_def using only r' by (intro map_replaced; metis)+
  have ids: "mr_id ` set new = mr_id ` set ?rows"
    using arg_cong [OF same(2), of set] by (simp only: set_map)
  have "sorted (map mr_rowid new)" "distinct (map mr_id new)"
    unfolding same using inv by (simp_all add: sq_inv_def)
  moreover have "\<forall>x \<in> set new. text_values (json_loads_column (mr_scope x))"
    using inv r r' by (auto simp: sq_inv_def new_def)
  moreover have "t_memories (updated_file r r' now (db_file w)) = new"
    "t_last_seq (updated_file r r' now (db_file w)) = Suc (t_last_seq (db_file w))"
    by (simp_all add: updated_file_def new_def)
  moreover have "sorted (map hr_seq (t_history (updated_file r r' now (db_file w))))"
    "\<forall>h \<in> set (t_history (updated_file r r' now (db_file w))). hr_seq h \<le> Suc (t_last_seq (db_file w))"
    "hr_memory_id ` set (t_history (updated_file r r' now (db_file w))) \<subseteq> mr_id ` set ?rows"
    using inv r by (auto simp: sq_inv_def updated_file_def sorted_append le_SucI)
  ultimately show "sq_inv (w\<lparr>db_file := updated_file r r' now (db_file w)\<rparr>)"
    using inv ids by (simp add: sq_inv_def)
  have "user_rows q (w\<lparr>db_file := updated_file r r' now (db_file w)\<rparr>) =
      (if q = mr_user_id r then map (\<lambda>x. if mr_id x = mr_id r then r' else x) (user_rows q w)
       else user_rows q w)" for q
  proof -
    have "filter (\<lambda>x. mr_user_id x = q) (map (\<lambda>x. if mr_id x = mr_id r then r' else x) xs) =
        map (\<lambda>x. if mr_id x = mr_id r then r' else x) (filter (\<lambda>x. mr_user_id x = q) xs)"
      if "set xs \<subseteq> set ?rows" for xs
      using that only r' by (induction xs) auto
    moreover have "q \<noteq> mr_user_id r \<Longrightarrow>
        map (\<lambda>x. if mr_id x = mr_id r then r' else x) (user_rows q w) = user_rows q w"
      using only by (intro map_idI) (auto simp: user_rows_in)
    ultimately show ?thesis by (simp add: user_rows_def updated_file_def)
  qed
  then show "sq_abs (w\<lparr>db_file := updated_file r r' now (db_file w)\<rparr>) =
      spec_update (mr_user_id r) (row_to_memory None r) (row_to_memory None r') now (sq_abs w)"
    by (auto simp: sq_abs_def spec_update_def fun_eq_iff updated_file_def row_to_history_def
        memory_author_def)
qed

lemma sq_update_missing:
  assumes "sq_inv w" and "\<And>x. pt = Some x \<Longrightarrow> clean_keys (patch_keys x)"
    and "spec_get p i (sq_abs w) = None"
  shows "\<exists>w'. sq_update p i co pt sy w = (Inl (MemoryAPIError 404 (Raw (u ''Not found''))), w')
    \<and> sq_inv w' \<and> sq_abs w' = sq_abs w"
proof -
  let ?w = "w\<lparr>db_env := (db_env w)\<lparr>ticks := Suc (ticks (db_env w))\<rparr>\<rparr>"
  have ok: "(case pt of None \<Rightarrow> Inr () | Some x \<Rightarrow> refuse_reserved_metadata (patch_keys x)) = Inr ()"
    using assms(2) by (auto split: option.splits)
  have "owned_row p i ?w = None" using assms(3) by (simp add: sq_owned owned_row_def)
  moreover have "db_open w" using assms(1) by (simp add: sq_inv_def)
  ultimately have "sq_update p i co pt sy w = (Inl (MemoryAPIError 404 (Raw (u ''Not found''))), ?w)"
    by (simp add: sq_update_def sq_update_op_def sq_run ok)
  with sq_inv_tick [OF assms(1)] show ?thesis by simp
qed

lemma find_replaced:
  "r \<in> set rows \<Longrightarrow> mr_id r = i \<Longrightarrow> mr_id r' = i \<Longrightarrow> mr_user_id r' = p \<Longrightarrow>
   find (\<lambda>x. mr_id x = i \<and> mr_user_id x = p) (map (\<lambda>x. if mr_id x = i then r' else x) rows) = Some r'"
  by (induction rows) auto

lemma update_row_sel [simp]:
  "mr_rowid (update_row i c t md sy r) = mr_rowid r" "mr_id (update_row i c t md sy r) = mr_id r"
  "mr_user_id (update_row i c t md sy r) = mr_user_id r" "mr_scope (update_row i c t md sy r) = mr_scope r"
  "mr_id r = i \<Longrightarrow> mr_content (update_row i c t md sy r) = c"
  "mr_id r = i \<Longrightarrow> json_loads_column (mr_system (update_row i c t md sy r)) = sy"
  by (simp_all add: update_row_def)

lemma write_run:
  assumes inv: "sq_inv w" and r: "r \<in> set (t_memories (db_file w))" "mr_id r = i"
  shows "transaction (seq (update_memory i c now md sy) (\<lambda>_. insert_history
      \<lparr>hr_seq = 0, hr_memory_id = i, hr_action = u ''updated'', hr_timestamp = now,
       hr_content_before = Some (mr_content r), hr_content_after = Some c,
       hr_author = sys_author sy\<rparr>)) w =
    (Inr (), w\<lparr>db_file := updated_file r (update_row i c now md sy r) now (db_file w)\<rparr>)"
proof -
  have "map (update_row i c now md sy) (t_memories (db_file w)) =
      map (\<lambda>x. if mr_id x = i then update_row i c now md sy r else x) (t_memories (db_file w))"
  proof (rule map_cong [OF refl])
    fix x
    assume "x \<in> set (t_memories (db_file w))"
    then show "update_row i c now md sy x = (if mr_id x = i then update_row i c now md sy r else x)"
      using row_of_id [OF inv r(1), of x] r(2) by (auto simp: update_row_def)
  qed
  moreover have "db_fails w = reliable" using inv by (simp add: sq_inv_def)
  ultimately show ?thesis
    using r(2) by (simp add: transaction_def act_simps update_memory_def insert_history_def updated_file_def)
qed

lemma sq_update_run:
  assumes inv: "sq_inv w" and clean: "\<And>x. pt = Some x \<Longrightarrow> clean_keys (patch_keys x)"
    and found: "spec_get p i (sq_abs w) = Some m"
  shows "\<exists>now w'. now = clock (db_env w) (ticks (db_env w))
        \<and> db_env w' = (db_env w)\<lparr>ticks := Suc (ticks (db_env w))\<rparr>
        \<and> sq_update p i co pt sy w = (Inr (updated_memory m co pt sy now), w') \<and> sq_inv w'
        \<and> sq_abs w' = spec_update p m (updated_memory m co pt sy now) now (sq_abs w)"
proof -
  let ?now = "clock (db_env w) (ticks (db_env w))"
  let ?w1 = "w\<lparr>db_env := (db_env w)\<lparr>ticks := Suc (ticks (db_env w))\<rparr>\<rparr>"
  obtain r where r: "owned_row p i w = Some r" and m: "m = row_to_memory None r"
    using found by (auto simp: sq_owned)
  note row = owned_row_in [OF r]
  let ?r' = "update_row i (case co of None \<Rightarrow> mr_content r | Some c \<Rightarrow> c) ?now (row_patched pt r)
    (case sy of None \<Rightarrow> json_loads_column (mr_system r) | Some x \<Rightarrow> x) r"
  let ?w = "?w1\<lparr>db_file := updated_file r ?r' ?now (db_file w)\<rparr>"
  have inv1: "sq_inv ?w1" using inv by (rule sq_inv_tick)
  have in1: "r \<in> set (t_memories (db_file ?w1))" "mr_id r = i" using row by simp_all
  note upd = sq_updated [OF inv1 in1(1) update_row_sel(1-4)]
  have memory: "row_to_memory None ?r' = updated_memory m co pt sy ?now"
    using row by (simp add: update_row_def m updated_memory_def row_to_memory_def
        row_patched_def apply_patch_def Let_def split: option.splits)
  have owned1: "owned_row p i ?w1 = Some r" using r by (simp add: owned_row_def)
  have owned: "owned_row p i ?w = Some ?r'"
    using row find_replaced [of r "t_memories (db_file w)" i ?r' p] by (simp add: owned_row_def updated_file_def)
  have ok: "(case pt of None \<Rightarrow> Inr () | Some x \<Rightarrow> refuse_reserved_metadata (patch_keys x)) = Inr ()"
    using clean by (auto split: option.splits)
  have "db_open w" using inv by (simp add: sq_inv_def)
  then have "sq_update p i co pt sy w = (Inr (row_to_memory None ?r'), ?w)"
    using owned
    by (simp add: sq_update_def sq_update_op_def act_simps sq_validate_partition_def
        refuse_partition_def sq_now_def run_op_def ok owned1 Let_def write_run [OF inv1 in1])
  moreover have "sq_inv ?w" using upd(1) by simp
  moreover have "sq_abs ?w = spec_update p m (updated_memory m co pt sy ?now) ?now (sq_abs w)"
    using upd(2) row by (simp add: m memory [unfolded m, symmetric])
  ultimately show ?thesis
    unfolding memory by (intro exI [of _ ?now] exI [of _ ?w]) simp
qed

lemma sq_update_refines:
  assumes inv: "sq_inv w" and clean: "\<And>x. pt = Some x \<Longrightarrow> clean_keys (patch_keys x)"
    and found: "spec_get p i (sq_abs w) = Some m"
  shows "\<exists>now w'. sq_update p i co pt sy w = (Inr (updated_memory m co pt sy now), w') \<and> sq_inv w'
        \<and> sq_abs w' = spec_update p m (updated_memory m co pt sy now) now (sq_abs w)"
  using sq_update_run [OF assms] by blast

subsection \<open>Reads\<close>

lemma sq_listing_eq:
  assumes inv: "sq_inv w"
  shows "sq_listing p sc w = filter (matching sc) (sp_listing (sq_abs w) p)"
proof -
  have "or_empty sc = [] \<or> scope_matches (json_loads_column (mr_scope r)) (or_empty sc) \<longleftrightarrow>
      matching sc (row_to_memory None r)" if "r \<in> set (user_rows p w)" for r
    using that sq_matching [OF inv, of r "or_empty sc" None]
    by (cases sc) (auto simp: user_rows_in matching_def)
  then show ?thesis
    by (auto simp: sq_listing_def user_rows_sorted [OF inv] sq_listing_abs filter_map comp_def
        intro!: arg_cong [where f = "map _"] filter_cong)
qed

lemma sq_list_refines:
  "sq_inv w \<Longrightarrow> sq_list_memories p sc l cu w =
     (raising (paginate (filter (matching sc) (sp_listing (sq_abs w) p)) cu l), w)"
  by (simp add: sq_list_memories_def sq_run sq_listing_eq) (simp add: sq_inv_def)

lemma sq_history_refines:
  assumes inv: "sq_inv w"
  shows "sq_history p i w =
     ((case spec_get p i (sq_abs w) of
         None \<Rightarrow> Inl (MemoryAPIError 404 (Raw (u ''Not found'')))
       | Some m \<Rightarrow> Inr (sp_trail (sq_abs w) i)), w)"
proof -
  have "db_open w" using inv by (simp add: sq_inv_def)
  then show ?thesis
    by (simp add: sq_history_def sq_run sq_owned history_rows_abs [OF inv] split: option.splits)
qed

lemma sq_scored_abs:
  assumes inv: "sq_inv w"
  shows "map (map_prod id (row_to_memory None)) (sq_scored U p q sc w) =
     List.map_filter (\<lambda>m. if matching sc m then map_option (\<lambda>r. (r, m)) (keyword_rank U q m) else None)
       (sp_listing (sq_abs w) p)"
proof -
  have "set rows \<subseteq> set (t_memories (db_file w)) \<Longrightarrow>
    map (map_prod id (row_to_memory None)) (List.map_filter (\<lambda>r.
       if or_empty sc \<noteq> [] \<and> \<not> scope_matches (json_loads_column (mr_scope r)) (or_empty sc) then None
       else (case score U q (mr_content r) of None \<Rightarrow> None | Some relevance \<Rightarrow> Some (relevance, r))) rows) =
    List.map_filter (\<lambda>m. if matching sc m then map_option (\<lambda>r. (r, m)) (keyword_rank U q m) else None)
      (map (row_to_memory None) rows)" for rows
  proof (induction rows)
    case (Cons r rows)
    then have "matching (Some (or_empty sc)) (row_to_memory None r) =
        scope_matches (json_loads_column (mr_scope r)) (or_empty sc)"
      by (simp add: sq_matching [OF inv, where s = None])
    moreover have "matching (Some (or_empty sc)) m = matching sc m" for m by (simp add: matching_def)
    moreover have "scope_matches d []" for d by (simp add: scope_matches_def)
    ultimately show ?case
      using Cons by (auto simp: map_filter_simps keyword_rank_def split: option.split)
  qed (simp add: map_filter_simps)
  moreover have "set (user_rows p w) \<subseteq> set (t_memories (db_file w))" by (auto simp: user_rows_in)
  ultimately show ?thesis unfolding sq_scored_def sq_listing_abs .
qed

lemma sq_search_refines:
  assumes inv: "sq_inv w" and scope: "fst ` set (or_empty sc) \<inter> NESTED_FILTER_KEYS = {}"
  shows "sq_search U p q sc l th w =
    (Inr (spec_search (keyword_rank U) q sc l (sp_listing (sq_abs w) p)), w)"
proof -
  let ?f = "map_prod id (row_to_memory None) :: rat \<times> memory_row \<Rightarrow> rat \<times> memory"
  have ok: "reject_scope sc = Inr ()" using scope by simp
  have opened: "db_open w" using inv by (simp add: sq_inv_def)
  have score: "(\<lambda>(r, row). row_to_memory (Some r) row) = (\<lambda>(r, m). m\<lparr>m_score := Some r\<rparr>) \<circ> ?f"
    by (simp add: fun_eq_iff row_to_memory_def)
  have sort: "map ?f (sort_key (\<lambda>h. - fst h) hs) = sort_key (\<lambda>h. - fst h) (map ?f hs)" for hs
    by (rule map_sort_key) auto
  have "map (\<lambda>(r, row). row_to_memory (Some r) row) (py_slice (sort_key (\<lambda>h. - fst h) hs) 0 l) =
      map (\<lambda>(r, m). m\<lparr>m_score := Some r\<rparr>) (py_slice (sort_key (\<lambda>h. - fst h) (map ?f hs)) 0 l)" for hs
    unfolding score map_map [symmetric] map_py_slice sort ..
  then show ?thesis
    by (simp add: sq_search_def sq_run ok opened spec_search_def sq_scored_abs [OF inv])
qed

lemma sq_search_refuses:
  assumes "fst ` set (or_empty sc) \<inter> NESTED_FILTER_KEYS \<noteq> {}"
  shows "\<exists>e. sq_search U p q sc l th w = (Inl e, w)"
  using reject_scope_bad [OF assms] by (auto simp: sq_search_def sq_run)

lemma sq_inv_listing:
  "m \<in> set (sp_listing (sq_abs w) p) \<Longrightarrow> m_partition m = p \<and> m_score m = None"
  by (auto simp: sq_listing_abs user_rows_in)

lemma sq_inv_ids: "sq_inv w \<Longrightarrow> distinct (map m_id (sp_listing (sq_abs w) p))"
  by (simp add: sq_inv_def sq_listing_abs comp_def user_rows_def distinct_map_filter)

lemma sq_inv_apart:
  assumes "sq_inv w" and "p \<noteq> q"
  shows "m_id ` set (sp_listing (sq_abs w) p) \<inter> m_id ` set (sp_listing (sq_abs w) q) = {}"
proof (rule equals0I)
  fix i
  assume "i \<in> m_id ` set (sp_listing (sq_abs w) p) \<inter> m_id ` set (sp_listing (sq_abs w) q)"
  then obtain r x where "r \<in> set (user_rows p w)" "x \<in> set (user_rows q w)" "mr_id x = mr_id r"
    by (auto simp: sq_listing_abs)
  with row_of_id [OF assms(1), of r x] assms(2) show False by (auto simp: user_rows_in)
qed

text \<open>The SQLite backend keeps the storing contract, for a bulk delete of up to \<open>vars\<close> memories.\<close>

interpretation sqlite: storing_backend "sqlite_backend U (Suc n)" sq_inv sq_abs "keyword_rank U"
  "\<lambda>k. k \<le> Suc n" for U n
proof (unfold_locales, goal_cases)
  case 1
  then show ?case by (simp add: sq_inv_listing)
next
  case 2
  then show ?case by (simp add: sq_inv_ids)
next
  case 3
  then show ?case by (simp add: sq_inv_apart)
qed (simp_all add: sqlite_backend_def sq_get_refines sq_add_refines sq_add_refuses
    sq_update_missing sq_update_refines sq_delete_missing sq_delete_refines
    sq_delete_all_refines sq_delete_all_overflows sq_delete_all_refuses sq_list_refines
    sq_history_refines sq_search_refines sq_search_refuses sq_entities_def raise_def)

end
