(* ===== verification/Behaviour.thy ===== *)
theory Behaviour
  imports Isolation Sqlite
begin

text \<open>
  What policy promises over a backend that stores what it is given (\<open>storing_backend\<close>): the effect
  and the answer of each operation in terms of the abstract store. Each lemma is proved once in
  the locale; the properties are their instances for the in-memory backend. \<open>well_stamped\<close> is the
  invariant that policy, as the only writer, keeps: every memory names no space but its own.
\<close>

section \<open>The stamps of a store\<close>

definition stamped_spec :: "spec \<Rightarrow> bool" where
  "stamped_spec s \<longleftrightarrow> (\<forall>q. \<forall>m \<in> set (sp_listing s q). in_space m q)"

definition well_stamped :: "('w \<Rightarrow> bool) \<Rightarrow> ('w \<Rightarrow> spec) \<Rightarrow> 'w \<Rightarrow> bool" where
  "well_stamped ok contents w \<longleftrightarrow> ok w \<and> stamped_spec (contents w)"

lemma in_space_updated:
  "in_space m p \<Longrightarrow> stamped p sy \<Longrightarrow> in_space (updated_memory m co pt (Some sy) now) p"
  by (simp add: in_space_def updated_memory_def stamped_def)

lemma updated_memory_sel [simp]:
  "m_id (updated_memory m co pt sy now) = m_id m"
  "m_partition (updated_memory m co pt sy now) = m_partition m"
  "m_scope (updated_memory m co pt sy now) = m_scope m"
  "m_created_at (updated_memory m co pt sy now) = m_created_at m"
  by (simp_all add: updated_memory_def)

lemma in_space_score [simp]: "in_space (m\<lparr>m_score := r\<rparr>) p = in_space m p"
  by (simp add: in_space_def)

lemma stamped_spec_get: "stamped_spec s \<Longrightarrow> spec_get p i s = Some m \<Longrightarrow> in_space m p"
  using spec_get_Some [of p i s m] by (auto simp: stamped_spec_def)

lemma stamped_spec_add: "stamped_spec s \<Longrightarrow> in_space m p \<Longrightarrow> stamped_spec (spec_add p m s)"
  by (simp add: stamped_spec_def spec_add_def)

lemma step_stamped:
  assumes "store_step p s s'" and "stamped_spec s"
  shows "stamped_spec s'"
  using assms(1)
proof cases
  case (updated i m sy co pt now)
  with assms(2) have "in_space m p" using stamped_spec_get by blast
  with updated have "in_space (updated_memory m co pt (Some sy) now) p" by (simp add: in_space_updated)
  with updated assms(2) show ?thesis by (auto simp: stamped_spec_def spec_update_def)
qed (use assms(2) in \<open>auto simp: stamped_spec_def spec_add_def spec_remove_def in_space_def stamped_def\<close>)

lemma well_stamped_holding: "well_stamped ok contents = holding ok contents stamped_spec"
  by (simp add: fun_eq_iff well_stamped_def holding_def)

sublocale storing_backend \<subseteq> stamps: confined_backend B p "well_stamped inv abs" for p
  unfolding well_stamped_holding by (rule confined_by_steps) (rule step_stamped)

section \<open>What each operation does\<close>

lemma audited_fst [simp]: "fst (audited ctx op m s) = fst (m (s\<lparr>entry := opening_entry ctx op\<rparr>))"
  by (simp add: audited_def with_entry_def split: prod.splits)

lemma audited_store [simp]:
  "store (snd (audited ctx op m s)) = store (snd (m (s\<lparr>entry := opening_entry ctx op\<rparr>)))"
  by (simp add: audited_def with_entry_def split: prod.splits)

lemma fst_mapped: "fst (mapped f m s) = map_sum id f (fst (m s))"
  by (simp add: mapped_run split: prod.splits)

lemma snd_mapped: "snd (mapped f m s) = snd (m s)"
  by (simp add: mapped_run split: prod.splits)

lemma require_reader [simp]: "require (Some key) Reader = Inr key"
  by (simp add: require_ok)

definition writer :: "key \<Rightarrow> bool" where
  "writer key \<longleftrightarrow> g_relation (k_grant key) = Writer"

abbreviation space_of :: "key \<Rightarrow> pystr" where
  "space_of key \<equiv> g_space (k_grant key)"

lemma require_writer [simp]: "writer key \<Longrightarrow> require (Some key) rel = Inr key"
  by (simp add: require_ok writer_def)

lemma validation_run:
  "validation m s = (case m s of (Inl e, t) \<Rightarrow> (Inl (as_validation e), t) | (Inr x, t) \<Rightarrow> (Inr x, t))"
  by (simp add: validation_def act_simps split: prod.splits sum.splits)

lemma check_run [act_simps]:
  "validation (from_result (raising r)) s =
     ((case r of Inl m \<Rightarrow> Inl (PolicyError Validation_error m) | Inr x \<Rightarrow> Inr x), s)"
  by (cases r) (simp_all add: validation_run act_simps as_validation_def)

lemma check_passed [act_simps]: "validation (from_result (Inr x)) s = (Inr x, s)"
  by (simp add: validation_run act_simps)

lemma check_failed [act_simps]:
  "validation (from_result (Inl (ValueError m))) s = (Inl (PolicyError Validation_error m), s)"
  by (simp add: validation_run act_simps as_validation_def)

lemma not_found_run [act_simps]:
  "not_found m s = (case m s of (Inl e, t) \<Rightarrow> (Inl (as_not_found e), t) | (Inr x, t) \<Rightarrow> (Inr x, t))"
  by (simp add: not_found_def act_simps split: prod.splits sum.splits)

definition invalid_id :: exc where
  "invalid_id = PolicyError Validation_error (Arg_msg Invalid_memory_id)"

definition missing :: exc where
  "missing = PolicyError Not_found (Policy_msg Memory_not_found)"

definition lookup_result :: "pystr \<Rightarrow> memory option \<Rightarrow> exc + memory" where
  "lookup_result i found =
     (if \<not> is_memory_id i then Inl invalid_id
      else (case found of None \<Rightarrow> Inl missing | Some m \<Rightarrow> Inr m))"

text \<open>What a search and a page answer, as functions of the space's memories.\<close>

definition search_answer ::
  "(pystr \<Rightarrow> memory \<Rightarrow> rat option) \<Rightarrow> 'w policy \<Rightarrow> pystr \<Rightarrow> scope option \<Rightarrow> int \<Rightarrow> float_arg
   \<Rightarrow> memory list \<Rightarrow> exc + memory list" where
  "search_answer rank P q sc l th memories =
     (case search_arguments q l th of
        Inl m \<Rightarrow> Inl (PolicyError Validation_error m)
      | Inr _ \<Rightarrow> res_bind (refused_scope (validate_scope (scope_json sc) (pol_scope_keys P)))
          (\<lambda>sc'. Inr (spec_search rank q sc' l memories)))"

definition list_answer ::
  "'w policy \<Rightarrow> scope option \<Rightarrow> int \<Rightarrow> pystr option \<Rightarrow> memory list \<Rightarrow> exc + list_result" where
  "list_answer P sc l cu memories =
     (case validate_limit l of
        Inl m \<Rightarrow> Inl (PolicyError Validation_error m)
      | Inr _ \<Rightarrow> res_bind (refused_scope (validate_scope (scope_json sc) (pol_scope_keys P)))
          (\<lambda>sc'. case paginate (filter (matching sc') memories) cu l of
             Inl m \<Rightarrow> Inl (PolicyError Validation_error m) | Inr page \<Rightarrow> Inr page))"

lemma spec_get_updated:
  "m \<in> set (sp_listing s p) \<Longrightarrow> m_id m = i \<Longrightarrow> m_id m' = i \<Longrightarrow>
   spec_get p i (spec_update p m m' now s) = Some m'"
proof -
  have "x \<in> set xs \<Longrightarrow> m_id x = i \<Longrightarrow> m_id m' = i \<Longrightarrow>
      find (\<lambda>y. m_id y = i) (map (\<lambda>y. if m_id y = i then m' else y) xs) = Some m'" for x xs
    by (induction xs) auto
  then show "m \<in> set (sp_listing s p) \<Longrightarrow> m_id m = i \<Longrightarrow> m_id m' = i \<Longrightarrow>
      spec_get p i (spec_update p m m' now s) = Some m'"
    by (simp add: spec_get_def spec_update_def)
qed

lemma spec_update_others:
  assumes "m_id m = i" and "m_id m' = i"
  shows "filter (\<lambda>x. m_id x \<noteq> i) (sp_listing (spec_update p m m' now s) p) =
     filter (\<lambda>x. m_id x \<noteq> i) (sp_listing s p)"
proof -
  have "filter (\<lambda>x. m_id x \<noteq> i) (map (\<lambda>y. if m_id y = i then m' else y) xs) =
      filter (\<lambda>x. m_id x \<noteq> i) xs" for xs
    using assms(2) by (induction xs) auto
  then show ?thesis by (simp add: spec_update_def assms(1))
qed

lemma map_of_filter_value:
  "wf_dict d \<Longrightarrow> map_of (filter (\<lambda>(k, v). v \<noteq> x) d) k =
     (case map_of d k of None \<Rightarrow> None | Some v \<Rightarrow> if v = x then None else Some v)"
proof (induction d)
  case (Cons a d)
  then have "fst a = k \<Longrightarrow> map_of d k = None"
    by (auto simp: wf_dict_def map_of_eq_None_iff)
  with Cons show ?case by (cases a) (auto simp: wf_dict_def)
qed simp

text \<open>What an update's merge patch does to the metadata, key by key.\<close>

lemma requested_patch_effect:
  assumes "requested_patch md = Inr pt" and "wf_dict (or_empty md)"
  shows "map_of (case pt of None \<Rightarrow> old | Some p \<Rightarrow> apply_patch p old) k =
    (case map_of (or_empty md) k of None \<Rightarrow> map_of old k
     | Some v \<Rightarrow> (if v = JNull then None else Some v))"
proof (cases "or_empty md = []")
  case True
  with assms(1) show ?thesis by (auto simp: requested_patch_def)
next
  case False
  let ?d = "or_empty md"
  let ?p = "\<lparr>p_set = filter (\<lambda>(k, v). v \<noteq> JNull) ?d, p_remove = map fst (filter (\<lambda>(k, v). v = JNull) ?d)\<rparr>"
  have pt: "pt = Some ?p"
    using assms False by (auto simp: requested_patch_def as_patch_total)
  have removed: "k \<in> fst ` {x \<in> set ?d. case x of (k, v) \<Rightarrow> v = JNull} \<longleftrightarrow> map_of ?d k = Some JNull"
    using map_of_wf_in_set [OF assms(2)] by force
  have set: "map_of (filter (\<lambda>(k, v). v \<noteq> JNull) ?d) k =
      (case map_of ?d k of None \<Rightarrow> None | Some v \<Rightarrow> if v = JNull then None else Some v)"
    by (rule map_of_filter_value [OF assms(2)])
  show ?thesis
    using assms(2) by (simp add: pt map_of_apply_patch removed set split: option.splits)
qed

context storing_backend
begin

lemma policy_read_run:
  assumes P: "pol_backend P = B" and w: "well_stamped inv abs (store s)"
  shows "policy_read P p i op s = (lookup_result i (spec_get p i (abs (store s))), s)"
proof -
  have inv: "inv (store s)" using w by (simp add: well_stamped_def)
  have arg: "validate_memory_id i = (if is_memory_id i then Inr i else Inl (Arg_msg Invalid_memory_id))"
    by (simp add: validate_memory_id_def)
  have space: "spec_get p i (abs (store s)) = Some m \<Longrightarrow> in_space m p" for m
    using w by (auto simp: well_stamped_def dest: stamped_spec_get)
  show ?thesis
    by (auto simp: policy_read_def act_simps arg P get_refines [OF inv] lookup_result_def
        invalid_id_def missing_def check_that_def check_space_run space split: option.splits)
qed

lemma policy_get_run:
  assumes P: "pol_backend P = B" and w: "well_stamped inv abs (store s)"
  shows "fst (policy_get P (Some key) i s) = lookup_result i (spec_get (space_of key) i (abs (store s)))"
    and "store (snd (policy_get P (Some key) i s)) = store s"
  using w by (simp_all add: policy_get_def get_body_def act_simps policy_read_run [OF P])

lemma policy_history_run:
  assumes P: "pol_backend P = B" and w: "well_stamped inv abs (store s)"
  shows "fst (policy_history P (Some key) i s) =
      (case lookup_result i (spec_get (space_of key) i (abs (store s))) of
         Inl e \<Rightarrow> Inl e | Inr m \<Rightarrow> Inr (sp_trail (abs (store s)) i))"
    and "store (snd (policy_history P (Some key) i s)) = store s"
proof -
  have inv: "inv (store s)" using w by (simp add: well_stamped_def)
  show "fst (policy_history P (Some key) i s) =
      (case lookup_result i (spec_get (space_of key) i (abs (store s))) of
         Inl e \<Rightarrow> Inl e | Inr m \<Rightarrow> Inr (sp_trail (abs (store s)) i))"
    "store (snd (policy_history P (Some key) i s)) = store s"
    using w by (auto simp: policy_history_def history_body_def act_simps Let_def P
        policy_read_run [OF P] history_refines [OF inv] lookup_result_def split: option.splits)
qed

lemma policy_delete_run:
  assumes P: "pol_backend P = B" and w: "well_stamped inv abs (store s)" and key: "writer key"
  shows "case lookup_result i (spec_get (space_of key) i (abs (store s))) of
      Inl e \<Rightarrow> fst (policy_delete P (Some key) i s) = Inl e
        \<and> store (snd (policy_delete P (Some key) i s)) = store s
    | Inr m \<Rightarrow> fst (policy_delete P (Some key) i s) = Inr True
        \<and> inv (store (snd (policy_delete P (Some key) i s)))
        \<and> abs (store (snd (policy_delete P (Some key) i s))) =
            spec_remove (space_of key) (\<lambda>x. m_id x = i) (abs (store s))"
proof (cases "lookup_result i (spec_get (space_of key) i (abs (store s)))")
  case (Inl e)
  with w key show ?thesis
    by (simp add: policy_delete_def delete_body_def act_simps Let_def policy_read_run [OF P])
next
  case (Inr m)
  then have found: "spec_get (space_of key) i (abs (store s)) = Some m"
    by (auto simp: lookup_result_def split: if_splits option.splits)
  have inv: "inv (store s)" using w by (simp add: well_stamped_def)
  obtain w' where "b_delete B (space_of key) i (store s) = (Inr True, w')" "inv w'"
    "abs w' = spec_remove (space_of key) (\<lambda>x. m_id x = i) (abs (store s))"
    using delete_refines [OF inv found] by blast
  with w key Inr show ?thesis
    by (simp add: policy_delete_def delete_body_def act_simps Let_def policy_read_run [OF P] P)
qed

text \<open>The scope a request names, as the backend gets it.\<close>

lemma checked_scope_run:
  "checked_scope P sc s =
     (case validate_scope (scope_json sc) (pol_scope_keys P) of
        Inl (code, m) \<Rightarrow> (Inl (PolicyError code m), s)
      | Inr sc' \<Rightarrow> (Inr sc', s\<lparr>entry := (entry s)\<lparr>ae_scope := sc'\<rparr>\<rparr>))"
  by (auto simp: checked_scope_def act_simps refused_scope_def split: sum.splits prod.splits)

lemma accepted_not_nested:
  "validate_scope j allowed = Inr sc \<Longrightarrow> fst ` set (or_empty sc) \<inter> NESTED_FILTER_KEYS = {}"
  using validate_scope_accepted [of j allowed] by (cases sc) (auto simp: scope_accepted_def)

lemma policy_delete_all_run:
  assumes P: "pol_backend P = B" and inv: "inv (store s)" and key: "writer key"
    and ok: "validate_scope (JObj d) (pol_scope_keys P) = Inr (Some d')" and ne: "d' \<noteq> []"
    and bulk: "bulk (length (filter (matching (Some d')) (sp_listing (abs (store s)) (space_of key))))"
  shows "fst (policy_delete_all P (Some key) d s) =
      Inr (Some (int (length (filter (matching (Some d')) (sp_listing (abs (store s)) (space_of key))))))
    \<and> inv (store (snd (policy_delete_all P (Some key) d s)))
    \<and> abs (store (snd (policy_delete_all P (Some key) d s))) =
        spec_remove (space_of key) (matching (Some d')) (abs (store s))"
proof -
  have nest: "fst ` set d' \<inter> NESTED_FILTER_KEYS = {}"
    using accepted_not_nested [OF ok] by simp
  obtain w' where "b_delete_all B (space_of key) d' (store s) =
      (Inr (Some (int (length (filter (matching (Some d')) (sp_listing (abs (store s)) (space_of key)))))), w')"
    "inv w'" "abs w' = spec_remove (space_of key) (matching (Some d')) (abs (store s))"
    using delete_all_refines [OF inv nest bulk] by blast
  with key ok ne show ?thesis
    by (simp add: policy_delete_all_def delete_all_body_def act_simps Let_def checked_scope_run
        scope_json_def P)
qed

lemma keep_in_scope_all:
  "list_all (memory_in_scope d) ms \<Longrightarrow> keep_in_scope d ms s = (Inr ms, s)"
  by (induction ms) (simp_all add: act_simps)

lemma matching_in_scope:
  assumes "matching sc m"
  shows "memory_in_scope (or_empty sc) m"
  unfolding memory_in_scope_def list_all_iff
proof clarify
  fix k v
  assume "(k, v) \<in> set (or_empty sc)"
  then have "map_of (m_scope m) k = Some (JStr (scope_text v))"
    using assms by (auto simp: matching_def scope_contains_def)
  then show "case map_of (m_scope m) k of None \<Rightarrow> False | Some stored \<Rightarrow> scope_text stored = scope_text v"
    by simp
qed

lemma in_scope_all: "list_all (matching sc) ms \<Longrightarrow> in_scope ms sc s = (Inr ms, s)"
  by (auto simp: in_scope_def act_simps list_all_iff intro!: keep_in_scope_all matching_in_scope)

lemma policy_search_run:
  assumes P: "pol_backend P = B" and w: "well_stamped inv abs (store s)"
  shows "fst (policy_search P (Some key) q sc l th s) =
      search_answer rank P q sc l th (sp_listing (abs (store s)) (space_of key))
    \<and> store (snd (policy_search P (Some key) q sc l th s)) = store s"
proof (cases "search_arguments q l th")
  case arg: (Inr w)
  show ?thesis
  proof (cases "validate_scope (scope_json sc) (pol_scope_keys P)")
    case ok: (Inr sc')
    let ?ms = "spec_search rank q sc' l (sp_listing (abs (store s)) (space_of key))"
    have inv: "inv (store s)" using w by (simp add: well_stamped_def)
    have "in_space m (space_of key) \<and> matching sc' m" if "m \<in> set ?ms" for m
      using spec_search_member [OF that] w
      by (auto simp: well_stamped_def stamped_spec_def matching_def)
    then have "check_spaces ?ms (space_of key) op t = (Inr ?ms, t)" "in_scope ?ms sc' t = (Inr ?ms, t)"
      for op and t :: "'w st"
      by (auto intro!: check_spaces_ok in_scope_all simp: list_all_iff)
    then show ?thesis
      by (simp add: policy_search_def search_body_def act_simps Let_def arg checked_scope_run ok P
          search_answer_def refused_scope_def search_refines [OF inv accepted_not_nested [OF ok]])
  qed (auto simp: policy_search_def search_body_def act_simps Let_def arg checked_scope_run
      search_answer_def refused_scope_def split: prod.splits)
qed (simp add: policy_search_def search_body_def act_simps Let_def search_answer_def)

lemma policy_list_run:
  assumes P: "pol_backend P = B" and w: "well_stamped inv abs (store s)"
  shows "fst (policy_list P (Some key) sc l cu s) =
      list_answer P sc l cu (sp_listing (abs (store s)) (space_of key))
    \<and> store (snd (policy_list P (Some key) sc l cu s)) = store s"
proof (cases "validate_limit l")
  case arg: (Inr w)
  show ?thesis
  proof (cases "validate_scope (scope_json sc) (pol_scope_keys P)")
    case ok: (Inr sc')
    let ?ms = "filter (matching sc') (sp_listing (abs (store s)) (space_of key))"
    have inv: "inv (store s)" using w by (simp add: well_stamped_def)
    have page: "check_spaces (l_memories page) (space_of key) op t = (Inr (l_memories page), t)
        \<and> in_scope (l_memories page) sc' t = (Inr (l_memories page), t)"
      if "paginate ?ms cu l = Inr page" for page op and t :: "'w st"
      using paginate_members [OF that] w
      by (auto intro!: check_spaces_ok in_scope_all simp: list_all_iff well_stamped_def stamped_spec_def)
    show ?thesis
      by (auto simp: policy_list_def list_body_def act_simps Let_def arg checked_scope_run ok P
          validation_run as_validation_def list_refines [OF inv] page list_answer_def refused_scope_def
          split: sum.splits)
  qed (auto simp: policy_list_def list_body_def act_simps Let_def arg checked_scope_run
      list_answer_def refused_scope_def split: prod.splits)
qed (simp add: policy_list_def list_body_def act_simps Let_def list_answer_def)

lemma spec_get_added:
  "m_id m = i \<Longrightarrow> i \<notin> m_id ` set (sp_listing t p) \<Longrightarrow> spec_get p i (spec_add p m t) = Some m"
proof -
  have "x \<notin> f ` set xs \<Longrightarrow> f y = x \<Longrightarrow> find (\<lambda>z. f z = x) (xs @ [y]) = Some y"
    for x :: pystr and f :: "memory \<Rightarrow> pystr" and xs y
    by (induction xs) auto
  then show "m_id m = i \<Longrightarrow> i \<notin> m_id ` set (sp_listing t p) \<Longrightarrow>
      spec_get p i (spec_add p m t) = Some m"
    by (simp add: spec_get_def spec_add_def)
qed

text \<open>The memory an add stores.\<close>

lemma policy_add_run:
  assumes P: "pol_backend P = B" and w: "well_stamped inv abs (store s)" and key: "writer key"
    and arg: "add_arguments c md = Inr ()"
    and ok: "validate_scope (scope_json sc) (pol_scope_keys P) = Inr sc'"
  shows "\<exists>i now m. fst (policy_add P (Some key) c sc md infer s) =
        Inr (Many [\<lparr>r_id = i, r_status = u ''ready'', r_created_at = now, r_event = Ev_add\<rparr>])
      \<and> (\<forall>q. i \<notin> m_id ` set (sp_listing (abs (store s)) q))
      \<and> m = \<lparr>m_id = i, m_content = c, m_score = None, m_scope = scope_as_text (or_empty sc'),
             m_metadata = or_empty md, m_created_at = now, m_updated_at = None,
             m_partition = space_of key,
             m_system = system_for (space_of key) (k_name key) (Some (k_name key))\<rparr>
      \<and> inv (store (snd (policy_add P (Some key) c sc md infer s)))
      \<and> abs (store (snd (policy_add P (Some key) c sc md infer s))) = spec_add (space_of key) m (abs (store s))"
proof -
  let ?p = "space_of key" and ?sy = "system_for (space_of key) (k_name key) (Some (k_name key))"
  have inv: "inv (store s)" using w by (simp add: well_stamped_def)
  have clean: "clean_keys (dict_keys (or_empty md))" using arg by (rule add_arguments_clean)
  obtain i now w' where add: "b_add B ?p c sc' md infer (Some ?sy) (store s) =
      (Inr (Many [\<lparr>r_id = i, r_status = u ''ready'', r_created_at = now, r_event = Ev_add\<rparr>]), w')"
    and inv': "inv w'" and fresh: "\<forall>q. i \<notin> m_id ` set (sp_listing (abs (store s)) q)"
    and abs': "abs w' = spec_add ?p
            \<lparr>m_id = i, m_content = c, m_score = None, m_scope = scope_as_text (or_empty sc'),
             m_metadata = or_empty md, m_created_at = now, m_updated_at = None,
             m_partition = ?p, m_system = ?sy\<rparr> (abs (store s))"
    using add_refines [OF inv clean accepted_not_nested [OF ok], of ?p c infer "Some ?sy"] by auto
  let ?m = "\<lparr>m_id = i, m_content = c, m_score = None, m_scope = scope_as_text (or_empty sc'),
             m_metadata = or_empty md, m_created_at = now, m_updated_at = None,
             m_partition = ?p, m_system = ?sy\<rparr>"
  have get: "spec_get ?p i (abs w') = Some ?m" unfolding abs' using fresh by (intro spec_get_added) simp_all
  have space: "in_space ?m ?p" by (simp add: in_space_def)
  have run: "fst (policy_add P (Some key) c sc md infer s) =
        Inr (Many [\<lparr>r_id = i, r_status = u ''ready'', r_created_at = now, r_event = Ev_add\<rparr>])
      \<and> store (snd (policy_add P (Some key) c sc md infer s)) = w'"
    using key by (simp add: policy_add_def add_body_def act_simps Let_def arg checked_scope_run ok P add
        add_items_def get_refines [OF inv'] get check_space_run space)
  from run inv' fresh abs' show ?thesis by blast
qed

lemma policy_update_run:
  assumes P: "pol_backend P = B" and w: "well_stamped inv abs (store s)" and key: "writer key"
    and arg: "update_arguments co md = Inr ()" and pt: "requested_patch md = Inr pt"
    and id: "is_memory_id i" and found: "spec_get (space_of key) i (abs (store s)) = Some m"
    and fits: "patch_fits m pt = Inr ()"
  shows "\<exists>now m'. m' = updated_memory m co pt
          (Some (system_for (space_of key) (k_name key) (sys_created_by (m_system m)))) now
      \<and> fst (policy_update P (Some key) i co md s) = Inr m'
      \<and> inv (store (snd (policy_update P (Some key) i co md s)))
      \<and> abs (store (snd (policy_update P (Some key) i co md s))) =
          spec_update (space_of key) m m' now (abs (store s))"
proof -
  let ?p = "space_of key" and ?sy = "system_for (space_of key) (k_name key) (sys_created_by (m_system m))"
  have inv: "inv (store s)" using w by (simp add: well_stamped_def)
  have clean: "clean_keys (patch_keys x)" if "pt = Some x" for x
    using requested_patch_clean [OF arg] pt that by simp
  obtain now w' where upd: "b_update B ?p i co pt (Some ?sy) (store s) =
      (Inr (updated_memory m co pt (Some ?sy) now), w')"
    and inv': "inv w'"
    and abs': "abs w' = spec_update ?p m (updated_memory m co pt (Some ?sy) now) now (abs (store s))"
    using update_refines [OF inv clean found, where co = co and sy = "Some ?sy"] by blast
  have "in_space m ?p" using w found by (auto simp: well_stamped_def dest: stamped_spec_get)
  then have space: "in_space (updated_memory m co pt (Some ?sy) now) ?p"
    by (simp add: in_space_updated)
  have read: "lookup_result i (spec_get ?p i (abs (store s))) = Inr m"
    using id found by (simp add: lookup_result_def)
  have "fst (policy_update P (Some key) i co md s) = Inr (updated_memory m co pt (Some ?sy) now)
      \<and> store (snd (policy_update P (Some key) i co md s)) = w'"
    using key w by (simp add: policy_update_def update_body_def act_simps Let_def arg pt fits P upd
        policy_read_run [OF P] read check_space_run space)
  with inv' abs' show ?thesis by blast
qed

section \<open>Reading everything\<close>

text \<open>One page suffices: it has one memory more than the limit, or it is the last.\<close>

lemma list_all_run:
  assumes w: "well_stamped inv abs (store s)" and limit: "0 \<le> limit"
  shows "list_all_memories B p limit op s =
     (Inr (take (nat limit) (sp_listing (abs (store s)) p),
           int (length (sp_listing (abs (store s)) p)) > limit), s)"
proof -
  let ?L = "sp_listing (abs (store s)) p"
  have inv: "inv (store s)" using w by (simp add: well_stamped_def)
  have page: "b_list_memories B p None (limit + 1) None (store s) =
      (Inr \<lparr>l_memories = take (nat (limit + 1)) ?L,
            l_next_cursor = (if limit + 1 < int (length ?L) then Some (int_str (limit + 1)) else None),
            l_incomplete = False\<rparr>, store s)"
    using limit by (simp add: list_refines [OF inv] paginate_None py_slice_take)
  have checked: "check_spaces (take (nat (limit + 1)) ?L) p op t = (Inr (take (nat (limit + 1)) ?L), t)"
    for t :: "'w st"
    using w by (intro check_spaces_ok) (auto simp: well_stamped_def stamped_spec_def dest: in_set_takeD)
  show ?thesis
    unfolding list_all_memories_def
    using limit
    by (subst list_all_from_seq)
      (auto simp: act_simps page checked py_slice_take min_def)
qed

lemma policy_export_run:
  assumes P: "pol_backend P = B" and w: "well_stamped inv abs (store s)"
  shows "fst (policy_export P (Some key) s) =
      Inr \<lparr>x_memories = map serialize_memory (take (nat MAX_EXPORT) (sp_listing (abs (store s)) (space_of key))),
           x_count = min (nat MAX_EXPORT) (length (sp_listing (abs (store s)) (space_of key))),
           x_truncated = (int (length (sp_listing (abs (store s)) (space_of key))) > MAX_EXPORT)\<rparr>
    \<and> store (snd (policy_export P (Some key) s)) = store s"
proof -
  have limit: "0 \<le> MAX_EXPORT" by (simp add: MAX_EXPORT_def)
  show ?thesis
    using w by (simp add: policy_export_def export_body_def run_export_def act_simps P
        list_all_run [OF _ limit] min.commute)
qed

end

section \<open>Sessions\<close>

text \<open>Requests of many keys, one after another, as the server serves them.\<close>

fun run_session :: "'w policy \<Rightarrow> (key option \<times> request) list \<Rightarrow> 'w st \<Rightarrow> 'w st" where
  "run_session P [] s = s"
| "run_session P ((ctx, r) # rs) s = run_session P rs (snd (perform P ctx r s))"

text \<open>Nobody in the session has a key of the space.\<close>

definition outside :: "pystr \<Rightarrow> (key option \<times> request) list \<Rightarrow> bool" where
  "outside q rs = list_all (\<lambda>(ctx, r). case ctx of None \<Rightarrow> True | Some key \<Rightarrow> space_of key \<noteq> q) rs"

text \<open>The reads whose answer the contract fixes; it leaves entity counts open.\<close>

fun plain_read :: "request \<Rightarrow> bool" where
  "plain_read (Entities sc limit) = False"
| "plain_read r = (\<not> writes r)"

lemma perform_keeps_store:
  assumes "\<And>key. ctx = Some key \<Longrightarrow> partition_calls (pol_backend P) (space_of key) (on_store I)"
    and "I (store s)"
  shows "I (store (snd (perform P ctx r s)))"
proof (cases ctx)
  case None
  with assms(2) body_without_key [of P r "s\<lparr>entry := opening_entry None (operation_name r)\<rparr>"]
  show ?thesis by (simp add: perform_audited)
next
  case (Some key)
  have "keeps (on_store I) (perform P ctx r)"
    unfolding perform_audited Some by (intro keeps_audited keeps_body assms(1) Some)
  with assms(2) show ?thesis by (simp add: keeps_def on_store_def)
qed

context storing_backend
begin

lemma perform_well_stamped:
  assumes "pol_backend P = B" and "well_stamped inv abs (store s)"
  shows "well_stamped inv abs (store (snd (perform P ctx r s)))"
proof (rule perform_keeps_store [where I = "well_stamped inv abs"])
  show "partition_calls (pol_backend P) (space_of key) (on_store (well_stamped inv abs))" for key
    unfolding assms(1) by (rule stamps.confined.partition_calls_axioms)
qed (rule assms(2))

lemma perform_others:
  assumes P: "pol_backend P = B" and w: "inv (store s)"
    and out: "\<And>key. ctx = Some key \<Longrightarrow> space_of key \<noteq> q"
  shows "view q (abs (store (snd (perform P ctx r s)))) = view q (abs (store s))"
proof (cases ctx)
  case None
  then show ?thesis
    using body_without_key [of P r "s\<lparr>entry := opening_entry None (operation_name r)\<rparr>"]
    by (simp add: perform_audited)
next
  case (Some key)
  have "others_see inv abs (space_of key) (\<lambda>q. view q (abs (store s))) (store (snd (perform P ctx r s)))"
  proof (rule perform_keeps_store [where I = "others_see inv abs (space_of key) (\<lambda>q. view q (abs (store s)))"])
    fix key'
    assume "ctx = Some key'"
    then have "key' = key" using Some by simp
    then show "partition_calls (pol_backend P) (space_of key')
        (on_store (others_see inv abs (space_of key) (\<lambda>q. view q (abs (store s)))))"
      unfolding P by (simp only:) (rule others.confined.partition_calls_axioms)
  qed (simp add: others_see_def w)
  with out [OF Some] show ?thesis by (auto simp: others_see_def)
qed

lemma session_others:
  assumes P: "pol_backend P = B"
  shows "well_stamped inv abs (store s) \<Longrightarrow> outside q rs \<Longrightarrow>
    well_stamped inv abs (store (run_session P rs s))
    \<and> view q (abs (store (run_session P rs s))) = view q (abs (store s))"
proof (induction rs arbitrary: s)
  case (Cons a rs)
  obtain ctx r where a: "a = (ctx, r)" by (cases a)
  have "well_stamped inv abs (store (snd (perform P ctx r s)))"
    using P Cons.prems(1) by (rule perform_well_stamped)
  moreover have "view q (abs (store (snd (perform P ctx r s)))) = view q (abs (store s))"
    using Cons.prems a by (intro perform_others [OF P]) (auto simp: outside_def well_stamped_def)
  ultimately show ?case using Cons a by (simp add: outside_def)
qed simp

text \<open>A read is a function of what the key's space can see, and changes nothing.\<close>

lemma read_view:
  assumes P: "pol_backend P = B" and s: "well_stamped inv abs (store s)"
    and t: "well_stamped inv abs (store t)" and r: "plain_read r"
    and view: "view (space_of key) (abs (store s)) = view (space_of key) (abs (store t))"
  shows "fst (perform P (Some key) r s) = fst (perform P (Some key) r t)"
proof -
  have listing: "sp_listing (abs (store s)) (space_of key) = sp_listing (abs (store t)) (space_of key)"
    using view by (simp add: view_def)
  note get = view_get [OF view]
  have trail: "(case lookup_result i (spec_get (space_of key) i (abs (store t))) of
         Inl e \<Rightarrow> Inl e | Inr m \<Rightarrow> Inr (sp_trail (abs (store s)) i)) =
      (case lookup_result i (spec_get (space_of key) i (abs (store t))) of
         Inl e \<Rightarrow> Inl e | Inr m \<Rightarrow> Inr (sp_trail (abs (store t)) i))" for i
    using view_trail [OF view] spec_get_Some [of "space_of key" i "abs (store t)"] listing
    by (auto simp: lookup_result_def split: option.splits)
  show ?thesis
    using r
    by (cases r) (simp_all add: fst_mapped policy_search_run [OF P s] policy_search_run [OF P t]
        policy_list_run [OF P s] policy_list_run [OF P t] policy_get_run [OF P s] policy_get_run [OF P t]
        policy_history_run [OF P s] policy_history_run [OF P t] policy_export_run [OF P s]
        policy_export_run [OF P t] get listing trail)
qed

lemma read_unchanged:
  assumes P: "pol_backend P = B" and w: "well_stamped inv abs (store s)" and r: "\<not> writes r"
  shows "store (snd (perform P ctx r s)) = store s"
proof (cases ctx)
  case None
  then show ?thesis
    using body_without_key [of P r "s\<lparr>entry := opening_entry None (operation_name r)\<rparr>"]
    by (simp add: perform_audited)
next
  case (Some key)
  have entities: "store (snd (entities_body P (Some key) sc l t)) = store t" for sc l and t :: "'w st"
    by (auto simp: entities_body_def act_simps Let_def checked_scope_run P raising_def
        split: sum.splits prod.splits) (metis entities_reads snd_conv)+
  show ?thesis
    using r
    by (cases r) (simp_all add: Some snd_mapped policy_search_run [OF P w] policy_list_run [OF P w]
        policy_get_run [OF P w] policy_history_run [OF P w] policy_export_run [OF P w]
        policy_entities_def entities)
qed

end

end
