(* ===== verification/Guarantees.thy ===== *)
theory Guarantees
  imports Behaviour
begin

text \<open>
  The promises of policy over the in-memory backend, as instances of the contract's lemmas
  (\<open>Behaviour\<close>): what another space's activity can change, what each operation stores and answers,
  and that paging and export reach everything.
\<close>

abbreviation served :: "mem_store st \<Rightarrow> bool" where
  "served s \<equiv> well_stamped mem_inv mem_abs (store s)"

abbreviation held :: "mem_store st \<Rightarrow> pystr \<Rightarrow> memory list" where
  "held s p \<equiv> sp_listing (mem_abs (store s)) p"

lemma served_demo: "served (start demo_env)" "served (start demo_one)"
  using demo_inv demo_one_inv
  by (auto simp: well_stamped_def stamped_spec_def start_def mem_listing_abs demo_env_def
      in_memory_init_def demo_one_def in_space_def)

lemma demo_backend [simp]: "pol_backend demo_policy = in_memory_backend plain_ucd"
  by (simp add: demo_policy_def)

lemma demo_keys [simp]:
  "space_of ann = u ''red''" "space_of ray = u ''red''" "space_of bob = u ''blue''"
  "writer ann" "writer bob" "g_relation (k_grant ray) = Reader"
  by (simp_all add: ann_def ray_def bob_def writer_def)

section \<open>Isolation between spaces\<close>

text \<open>
  What a key gets, lists, searches, exports or reads of a history is
  the same before and after any session of requests by keys of other spaces.
\<close>

theorem noninterference:
  assumes "pol_backend P = in_memory_backend U" and "served s"
    and "outside (space_of key) rs" and "plain_read r"
  shows "fst (perform P (Some key) r (run_session P rs s)) = fst (perform P (Some key) r s)"
  using in_memory.session_others [OF assms(1,2,3)] assms(2,4)
  by (intro in_memory.read_view [OF assms(1)]) simp_all

theorem noninterference_witness:
  "fst (perform demo_policy (Some ray) Export
      (run_session demo_policy [(Some bob, add_hi), (None, Export)] (start demo_one))) =
    fst (perform demo_policy (Some ray) Export (start demo_one))"
  by (rule noninterference [where U = plain_ucd])
    (simp_all add: served_demo outside_def)

text \<open>
  Every request, whoever makes it and whether it is served, refused or
  fails, keeps the store well formed and every memory stamped with the space it is stored in; so
  does a whole session.
\<close>

theorem session_keeps_invariant:
  assumes "pol_backend P = in_memory_backend U" and "served s"
  shows "served (run_session P rs s)"
  using assms(2)
proof (induction rs arbitrary: s)
  case (Cons a rs)
  then show ?case
    using in_memory.perform_well_stamped [OF assms(1)] by (cases a) simp
qed simp

theorem session_keeps_invariant_witness:
  "served (run_session demo_policy [(Some ann, add_hi), (Some bob, Delete [97])] (start demo_env))"
  by (rule session_keeps_invariant [OF demo_backend served_demo(1)])

text \<open>
  A reader's requests, all eleven of them, leave the store exactly
  as it was.
\<close>

theorem reader_changes_nothing:
  assumes "pol_backend P = in_memory_backend U" and "served s"
    and "g_relation (k_grant key) = Reader"
  shows "store (snd (perform P (Some key) r s)) = store s"
proof (cases "writes r")
  case True
  have "require (Some key) Writer = Inl (PolicyError Forbidden (Policy_msg Forbidden_write))"
    using assms(3) by (simp add: require_refused)
  with True show ?thesis
    by (cases r) (simp_all add: perform_audited body_defs mapped_run act_simps)
next
  case False
  then show ?thesis by (rule in_memory.read_unchanged [OF assms(1,2)])
qed

theorem reader_changes_nothing_witness:
  "store (snd (perform demo_policy (Some ray) (Delete [97]) (start demo_one))) = demo_one"
  using reader_changes_nothing [of demo_policy plain_ucd "start demo_one" ray "Delete [97]"]
  by (simp add: served_demo) (simp add: start_def)

section \<open>Adding\<close>

text \<open>
  Property C13: an add by a writer whose arguments pass stores exactly one memory, last
  in the space, under an id no space holds: the content as given, the scope in its normal form as
  text, the metadata, and the caller as author and creator. Any key of the space then gets that
  memory by the returned id (a valid one), with a history of one entry by the caller.
\<close>

theorem add_then_get:
  assumes "pol_backend P = in_memory_backend U" and "served s" and "writer key"
    and "add_arguments c md = Inr ()"
    and "validate_scope (scope_json sc) (pol_scope_keys P) = Inr sc'"
    and "space_of key' = space_of key"
  shows "\<exists>i m. fst (policy_add P (Some key) c sc md infer s) =
        Inr (Many [\<lparr>r_id = i, r_status = u ''ready'', r_created_at = m_created_at m, r_event = Ev_add\<rparr>])
      \<and> (\<forall>q. i \<notin> m_id ` set (held s q))
      \<and> held (snd (policy_add P (Some key) c sc md infer s)) (space_of key) = held s (space_of key) @ [m]
      \<and> m_id m = i \<and> m_content m = c \<and> m_scope m = scope_as_text (or_empty sc')
      \<and> m_metadata m = or_empty md
      \<and> m_system m = system_for (space_of key) (k_name key) (Some (k_name key))
      \<and> fst (policy_get P (Some key') i (snd (policy_add P (Some key) c sc md infer s))) =
          (if is_memory_id i then Inr m else Inl invalid_id)
      \<and> sp_trail (mem_abs (store (snd (policy_add P (Some key) c sc md infer s)))) i =
          [\<lparr>h_action = u ''created'', h_timestamp = m_created_at m, h_content_before = None,
            h_content_after = Some c, h_author = Some (k_name key)\<rparr>]"
proof -
  let ?t = "snd (policy_add P (Some key) c sc md infer s)"
  obtain i now m where run: "fst (policy_add P (Some key) c sc md infer s) =
        Inr (Many [\<lparr>r_id = i, r_status = u ''ready'', r_created_at = now, r_event = Ev_add\<rparr>])"
    and fresh: "\<forall>q. i \<notin> m_id ` set (held s q)"
    and m: "m = \<lparr>m_id = i, m_content = c, m_score = None, m_scope = scope_as_text (or_empty sc'),
             m_metadata = or_empty md, m_created_at = now, m_updated_at = None,
             m_partition = space_of key,
             m_system = system_for (space_of key) (k_name key) (Some (k_name key))\<rparr>"
    and inv: "mem_inv (store ?t)"
    and spec: "mem_abs (store ?t) = spec_add (space_of key) m (mem_abs (store s))"
    using in_memory.policy_add_run [OF assms(1-5), of infer] by blast
  have space: "in_space m (space_of key)" by (simp add: m in_space_def)
  have served: "served ?t"
    using inv spec stamped_spec_add [OF _ space] assms(2) by (simp add: well_stamped_def)
  have get: "spec_get (space_of key') i (mem_abs (store ?t)) = Some m"
    unfolding spec assms(6) using fresh by (intro in_memory.spec_get_added) (simp_all add: m)
  have "fst (policy_get P (Some key') i ?t) = (if is_memory_id i then Inr m else Inl invalid_id)"
    by (simp add: in_memory.policy_get_run(1) [OF assms(1) served] get lookup_result_def)
  with run fresh spec show ?thesis
    by (intro exI [of _ i] exI [of _ m]) (simp add: m spec_add_def memory_author_def)
qed

text \<open>The argument checks of the example.\<close>

lemma demo_add_args: "add_arguments (u ''hi'') None = Inr ()"
  by (simp add: eval_simps)

lemma demo_scope: "validate_scope (scope_json None) (pol_scope_keys demo_policy) = Inr None"
  by (simp add: scope_json_def validate_scope_def)

lemma demo_spaces: "space_of ray = space_of ann"
  by simp

theorem add_then_get_witness:
  "\<exists>i m. held (snd (policy_add demo_policy (Some ann) (u ''hi'') None None False (start demo_env))) (u ''red'')
       = held (start demo_env) (u ''red'') @ [m]
     \<and> fst (policy_get demo_policy (Some ray) i
         (snd (policy_add demo_policy (Some ann) (u ''hi'') None None False (start demo_env)))) =
        (if is_memory_id i then Inr m else Inl invalid_id)"
  using add_then_get [OF demo_backend served_demo(1) demo_keys(4) demo_add_args demo_scope demo_spaces,
      of False]
  by (metis demo_keys(1))

section \<open>Changing\<close>

text \<open>
  An accepted update of a memory of the space answers the memory as it
  now is, and that is what a later get finds: the new content (or the old one), the metadata with
  every named key set or, where null, removed and the others kept, the caller as author and the
  creator kept. Its history gains one entry, and no other memory of the space changes.
\<close>

theorem update_then_get:
  assumes "pol_backend P = in_memory_backend U" and "served s" and "writer key"
    and "update_arguments co md = Inr ()" and "wf_dict (or_empty md)"
    and "requested_patch md = Inr pt" and "is_memory_id i"
    and "spec_get (space_of key) i (mem_abs (store s)) = Some m" and "patch_fits m pt = Inr ()"
  shows "\<exists>m'. fst (policy_update P (Some key) i co md s) = Inr m'
      \<and> fst (policy_get P (Some key) i (snd (policy_update P (Some key) i co md s))) = Inr m'
      \<and> m_content m' = (case co of None \<Rightarrow> m_content m | Some c \<Rightarrow> c)
      \<and> (\<forall>k. map_of (m_metadata m') k =
          (case map_of (or_empty md) k of None \<Rightarrow> map_of (m_metadata m) k
           | Some v \<Rightarrow> (if v = JNull then None else Some v)))
      \<and> m_system m' = system_for (space_of key) (k_name key) (sys_created_by (m_system m))
      \<and> m_scope m' = m_scope m
      \<and> (\<exists>now. sp_trail (mem_abs (store (snd (policy_update P (Some key) i co md s)))) i =
           sp_trail (mem_abs (store s)) i @
             [\<lparr>h_action = u ''updated'', h_timestamp = now, h_content_before = Some (m_content m),
               h_content_after = Some (m_content m'), h_author = Some (k_name key)\<rparr>])
      \<and> filter (\<lambda>x. m_id x \<noteq> i) (held (snd (policy_update P (Some key) i co md s)) (space_of key)) =
          filter (\<lambda>x. m_id x \<noteq> i) (held s (space_of key))"
proof -
  let ?t = "snd (policy_update P (Some key) i co md s)"
  let ?sy = "system_for (space_of key) (k_name key) (sys_created_by (m_system m))"
  obtain now m' where m': "m' = updated_memory m co pt (Some ?sy) now"
    and run: "fst (policy_update P (Some key) i co md s) = Inr m'"
    and inv: "mem_inv (store ?t)"
    and spec: "mem_abs (store ?t) = spec_update (space_of key) m m' now (mem_abs (store s))"
    using in_memory.policy_update_run [OF assms(1-4,6-9)] by blast
  have served: "served ?t"
    using in_memory.perform_well_stamped [OF assms(1,2), of "Some key" "Update i co md"]
    by (simp add: snd_mapped)
  have found: "m \<in> set (held s (space_of key))" "m_id m = i"
    using spec_get_Some [OF assms(8)] by simp_all
  have get: "spec_get (space_of key) i (mem_abs (store ?t)) = Some m'"
    unfolding spec using found by (rule spec_get_updated) (simp add: m' found(2))
  have "fst (policy_get P (Some key) i ?t) = Inr m'"
    by (simp add: in_memory.policy_get_run(1) [OF assms(1) served] get lookup_result_def assms(7))
  moreover have "map_of (m_metadata m') k =
      (case map_of (or_empty md) k of None \<Rightarrow> map_of (m_metadata m) k
       | Some v \<Rightarrow> (if v = JNull then None else Some v))" for k
    using requested_patch_effect [OF assms(6,5)] by (simp add: m' updated_memory_def)
  moreover have "filter (\<lambda>x. m_id x \<noteq> i) (held ?t (space_of key)) =
      filter (\<lambda>x. m_id x \<noteq> i) (held s (space_of key))"
    unfolding spec using found(2) by (intro spec_update_others) (simp_all add: m')
  moreover have "sp_trail (mem_abs (store ?t)) i = sp_trail (mem_abs (store s)) i @
             [\<lparr>h_action = u ''updated'', h_timestamp = now, h_content_before = Some (m_content m),
               h_content_after = Some (m_content m'), h_author = Some (k_name key)\<rparr>]"
    unfolding spec using found(2)
    by (simp add: spec_update_def memory_author_def m' updated_memory_def)
  ultimately show ?thesis
    using run by (intro exI [of _ m']) (auto simp: m' updated_memory_def)
qed

definition hi_memory :: memory where
  "hi_memory =
     \<lparr>m_id = [97], m_content = u ''hi'', m_score = None, m_scope = [], m_metadata = [],
      m_created_at = [48, 48], m_updated_at = None, m_partition = u ''red'',
      m_system = system_for (u ''red'') (u ''ann'') (Some (u ''ann''))\<rparr>"

lemma held_demo: "held (start demo_one) (u ''red'') = [hi_memory]"
  by (simp add: mem_listing_abs start_def demo_one_def hi_memory_def entry_to_memory_def)

lemma demo_id: "is_memory_id [97]"
  by (simp add: is_memory_id_def is_id_char_def)

lemma get_demo: "spec_get (u ''red'') [97] (mem_abs (store (start demo_one))) = Some hi_memory"
  by (simp add: spec_get_def held_demo) (simp add: hi_memory_def)

definition colour :: metadata where
  "colour = [(u ''colour'', JStr (u ''red''))]"

lemma demo_update_args: "update_arguments (Some (u ''yo'')) (Some colour) = Inr ()"
  by (simp add: eval_simps colour_def is_reserved_metadata_key_def RESERVED_METADATA_PREFIX_def
      RESERVED_METADATA_KEYS_def MAX_METADATA_KEY_LENGTH_def)

lemma demo_patch: "requested_patch (Some colour) = Inr (Some \<lparr>p_set = colour, p_remove = []\<rparr>)"
  by (simp add: requested_patch_def colour_def as_patch_def make_patch_def dict_keys_def Let_def)

lemma demo_patch_fits: "patch_fits hi_memory (Some \<lparr>p_set = colour, p_remove = []\<rparr>) = Inr ()"
  by (simp add: patch_fits_def patched_def hi_memory_def colour_def check_metadata_size_def
      json_size_def dumps_str_def escape_char_def is_surrogate_def utf8_size_def utf8_len_def
      MAX_METADATA_BYTES_def u_def Let_def)

theorem update_then_get_witness:
  "\<exists>m'. fst (policy_update demo_policy (Some ann) [97] (Some (u ''yo'')) (Some colour) (start demo_one)) = Inr m'
     \<and> m_content m' = u ''yo'' \<and> map_of (m_metadata m') (u ''colour'') = Some (JStr (u ''red''))"
proof -
  have wf: "wf_dict (or_empty (Some colour))" by (simp add: colour_def wf_dict_def)
  have get: "spec_get (space_of ann) [97] (mem_abs (store (start demo_one))) = Some hi_memory"
    by (simp add: get_demo)
  obtain m' where "fst (policy_update demo_policy (Some ann) [97] (Some (u ''yo'')) (Some colour) (start demo_one)) = Inr m'"
    and "m_content m' = (case Some (u ''yo'') of None \<Rightarrow> m_content hi_memory | Some c \<Rightarrow> c)"
    and "\<forall>k. map_of (m_metadata m') k =
          (case map_of (or_empty (Some colour)) k of None \<Rightarrow> map_of (m_metadata hi_memory) k
           | Some v \<Rightarrow> (if v = JNull then None else Some v))"
    using update_then_get [OF demo_backend served_demo(2) demo_keys(4) demo_update_args wf demo_patch
        demo_id get demo_patch_fits]
    by blast
  then show ?thesis by (intro exI [of _ m']) (simp add: colour_def)
qed

section \<open>Deleting\<close>

text \<open>
  A delete by a writer of a memory of its space answers true; the
  memory is gone from the space's listing and is \<open>not_found\<close> for every key from then on, its
  history with it, and the rest of the space is as it was, in its order.
\<close>

theorem delete_then_get:
  assumes "pol_backend P = in_memory_backend U" and "served s" and "writer key"
    and "is_memory_id i" and "spec_get (space_of key) i (mem_abs (store s)) = Some m"
  shows "fst (policy_delete P (Some key) i s) = Inr True
      \<and> held (snd (policy_delete P (Some key) i s)) (space_of key) =
          filter (\<lambda>x. m_id x \<noteq> i) (held s (space_of key))
      \<and> fst (policy_get P (Some key') i (snd (policy_delete P (Some key) i s))) = Inl missing
      \<and> fst (policy_history P (Some key') i (snd (policy_delete P (Some key) i s))) = Inl missing
      \<and> sp_trail (mem_abs (store (snd (policy_delete P (Some key) i s)))) i = []"
proof -
  let ?t = "snd (policy_delete P (Some key) i s)"
  have found: "lookup_result i (spec_get (space_of key) i (mem_abs (store s))) = Inr m"
    by (simp add: lookup_result_def assms(4,5))
  have run: "fst (policy_delete P (Some key) i s) = Inr True"
    and inv: "mem_inv (store ?t)"
    and spec: "mem_abs (store ?t) = spec_remove (space_of key) (\<lambda>x. m_id x = i) (mem_abs (store s))"
    using in_memory.policy_delete_run [OF assms(1-3), of i] by (simp_all add: found)
  have served: "served ?t"
    using in_memory.perform_well_stamped [OF assms(1,2), of "Some key" "Delete i"]
    by (simp add: snd_mapped)
  have m: "m \<in> set (held s (space_of key))" "m_id m = i"
    using spec_get_Some [OF assms(5)] by simp_all
  have "i \<notin> m_id ` set (held ?t q)" for q
  proof (cases "q = space_of key")
    case False
    then have "m_id ` set (held s q) \<inter> m_id ` set (held s (space_of key)) = {}"
      using assms(2) by (intro in_memory.inv_apart) (simp_all add: well_stamped_def)
    with m False show ?thesis by (auto simp: spec spec_remove_def)
  qed (auto simp: spec spec_remove_def)
  then have "spec_get q i (mem_abs (store ?t)) = None" for q
    by (simp add: spec_get_None)
  moreover have "i \<in> m_id ` set (filter (\<lambda>x. m_id x = i) (held s (space_of key)))"
    using m by force
  ultimately show ?thesis
    using run assms(4) by (simp add: in_memory.policy_get_run [OF assms(1) served]
        in_memory.policy_history_run [OF assms(1) served] lookup_result_def)
      (simp add: spec spec_remove_def)
qed

theorem delete_then_get_witness:
  "fst (policy_get demo_policy (Some ray) [97]
      (snd (policy_delete demo_policy (Some ann) [97] (start demo_one)))) = Inl missing"
proof -
  have get: "spec_get (space_of ann) [97] (mem_abs (store (start demo_one))) = Some hi_memory"
    by (simp add: get_demo)
  from delete_then_get [OF demo_backend served_demo(2) demo_keys(4) demo_id get, of ray] show ?thesis
    by blast
qed

text \<open>
  A bulk delete with a scope that validation accepts (not empty) answers
  the number of memories of the space in that scope and removes exactly those, each with its
  history; the others keep their order.
\<close>

theorem delete_all_exact:
  assumes "pol_backend P = in_memory_backend U" and "served s" and "writer key"
    and "validate_scope (JObj d) (pol_scope_keys P) = Inr (Some d')" and "d' \<noteq> []"
  shows "fst (policy_delete_all P (Some key) d s) =
        Inr (Some (int (length (filter (matching (Some d')) (held s (space_of key))))))
      \<and> held (snd (policy_delete_all P (Some key) d s)) (space_of key) =
          filter (\<lambda>m. \<not> matching (Some d') m) (held s (space_of key))
      \<and> (\<forall>m \<in> set (held s (space_of key)). sp_trail (mem_abs (store (snd (policy_delete_all P (Some key) d s)))) (m_id m) =
           (if matching (Some d') m then [] else sp_trail (mem_abs (store s)) (m_id m)))"
proof -
  have inv: "mem_inv (store s)" using assms(2) by (simp add: well_stamped_def)
  have distinct: "distinct (map m_id (held s (space_of key)))" by (rule in_memory.inv_ids [OF inv])
  have same: "x = m" if "x \<in> set (held s (space_of key))" "m \<in> set (held s (space_of key))" "m_id x = m_id m" for x m
    using distinct that by (auto simp: distinct_map inj_on_def)
  show ?thesis
    using in_memory.policy_delete_all_run [OF assms(1) inv assms(3-5) TrueI] same
    by (auto simp: spec_remove_def)
qed

definition bot_scope :: scope where
  "bot_scope = [(u ''agent_id'', JStr (u ''bot''))]"

lemma demo_bot: "validate_scope (JObj bot_scope) (pol_scope_keys demo_policy) = Inr (Some bot_scope)"
proof -
  have ok: "reject_nested_filters bot_scope = Inr ()"
    by (simp add: bot_scope_def NESTED_FILTER_KEYS_def)
  have "clean_value (u ''agent_id'') (JStr (u ''bot'')) = Inr (JStr (u ''bot''))"
    by (simp add: clean_value_def clean_text_def is_wildcard_def too_long_text_def Let_def
        normalize_agent_id_def strip_def strip_by_def is_space_def lower_char_def agent_char_def u_def
        MAX_SCOPE_KEY_LENGTH_def MAX_SCOPE_VALUE_LENGTH_def)
  then show ?thesis
    by (simp add: validate_scope_def bot_scope_def demo_policy_def dict_keys_def MAX_SCOPE_KEYS_def
        ok [unfolded bot_scope_def])
qed

theorem delete_all_exact_witness:
  "fst (policy_delete_all demo_policy (Some ann) bot_scope (start demo_one)) = Inr (Some 0)
   \<and> held (snd (policy_delete_all demo_policy (Some ann) bot_scope (start demo_one))) (u ''red'') = [hi_memory]"
proof -
  have ne: "bot_scope \<noteq> []" by (simp add: bot_scope_def)
  have "\<not> matching (Some bot_scope) hi_memory"
    by (simp add: matching_def scope_contains_def bot_scope_def hi_memory_def)
  then show ?thesis
    using delete_all_exact [OF demo_backend served_demo(2) demo_keys(4) demo_bot ne]
    by (simp add: held_demo)
qed

section \<open>Finding\<close>

text \<open>The hits of a search, in the store's order, each with its score.\<close>

definition hits_of :: "(pystr \<Rightarrow> memory \<Rightarrow> rat option) \<Rightarrow> pystr \<Rightarrow> scope option \<Rightarrow> memory list \<Rightarrow> memory list" where
  "hits_of rank q sc ms =
     map (\<lambda>m. m\<lparr>m_score := rank q m\<rparr>) (filter (\<lambda>m. matching sc m \<and> rank q m \<noteq> None) ms)"

text \<open>
  \<open>answer\<close> with \<open>dropped\<close> behind it is \<open>hits\<close> from the best score to the worst, hits that score
  alike in the order they had.
\<close>

definition ranked :: "memory list \<Rightarrow> memory list \<Rightarrow> memory list \<Rightarrow> bool" where
  "ranked hits answer dropped \<longleftrightarrow>
     sorted_wrt (\<lambda>a b. the (m_score b) \<le> the (m_score a)) (answer @ dropped)
     \<and> (\<forall>x. filter (\<lambda>m. m_score m = x) (answer @ dropped) = filter (\<lambda>m. m_score m = x) hits)"

lemma spec_search_ranked:
  assumes "0 \<le> l"
  shows "\<exists>dropped. ranked (hits_of rank q sc ms) (spec_search rank q sc l ms) dropped
    \<and> length (spec_search rank q sc l ms) = min (nat l) (length (hits_of rank q sc ms))"
proof -
  let ?g = "\<lambda>(r, m). m\<lparr>m_score := Some r\<rparr> :: memory"
  let ?H = "List.map_filter (\<lambda>m. if matching sc m then map_option (\<lambda>r. (r, m)) (rank q m) else None) ms"
  let ?R = "sort_key (\<lambda>h. - fst h) ?H"
  have hits: "hits_of rank q sc ms = map ?g ?H"
    by (induction ms) (auto simp: hits_of_def map_filter_simps split: option.split)
  have answer: "spec_search rank q sc l ms = map ?g (take (nat l) ?R)"
    using assms by (simp add: spec_search_def py_slice_take)
  have split: "map ?g (take (nat l) ?R) @ map ?g (drop (nat l) ?R) = map ?g ?R"
    by (simp add: map_append [symmetric])
  have score: "m_score (?g h) = Some (fst h)" for h by (simp add: split_def)
  have "sorted (map (\<lambda>h. - fst h) ?R)" by simp
  then have best: "sorted_wrt (\<lambda>a b. the (m_score b) \<le> the (m_score a)) (map ?g ?R)"
    by (simp add: sorted_wrt_map score)
  have stable: "filter (\<lambda>m. m_score m = x) (map ?g ?R) = filter (\<lambda>m. m_score m = x) (map ?g ?H)" for x
  proof (cases x)
    case (Some r)
    have "filter (\<lambda>h. fst h = r) ?R = filter (\<lambda>h. fst h = r) ?H"
      using sort_key_stable [of "\<lambda>h. - fst h" "- r" ?H] by simp
    then show ?thesis by (simp add: filter_map comp_def score Some)
  qed (simp add: filter_map comp_def score)
  have "ranked (hits_of rank q sc ms) (spec_search rank q sc l ms) (map ?g (drop (nat l) ?R))"
    unfolding ranked_def answer split hits using best stable by blast
  moreover have "length (spec_search rank q sc l ms) = min (nat l) (length (hits_of rank q sc ms))"
    by (simp add: answer hits min.commute)
  ultimately show ?thesis by blast
qed

section \<open>Reaching everything\<close>

text \<open>A client that follows the cursors of \<open>list_memories\<close>, at most \<open>n\<close> pages.\<close>

fun list_pages ::
  "'w policy \<Rightarrow> key option \<Rightarrow> scope option \<Rightarrow> int \<Rightarrow> nat \<Rightarrow> pystr option \<Rightarrow> 'w st \<Rightarrow> exc + memory list" where
  "list_pages P ctx sc l 0 cu s = Inr []"
| "list_pages P ctx sc l (Suc n) cu s =
     (case policy_list P ctx sc l cu s of
        (Inl e, t) \<Rightarrow> Inl e
      | (Inr page, t) \<Rightarrow>
          (case l_next_cursor page of
             None \<Rightarrow> Inr (l_memories page)
           | Some c \<Rightarrow> res_bind (list_pages P ctx sc l n (Some c) t) (\<lambda>rest. Inr (l_memories page @ rest))))"

lemma list_pages_follow:
  assumes P: "pol_backend P = in_memory_backend U"
    and ok: "validate_limit l = Inr ()" "validate_scope (scope_json sc) (pol_scope_keys P) = Inr sc'"
  shows "served s \<Longrightarrow> list_pages P (Some key) sc l n cu s =
    (case follow_pages (filter (matching sc') (held s (space_of key))) l n cu of
       Inl m \<Rightarrow> Inl (PolicyError Validation_error m) | Inr ms \<Rightarrow> Inr ms)"
proof (induction n arbitrary: cu s)
  case (Suc n)
  let ?ms = "filter (matching sc') (held s (space_of key))"
  obtain r t where run: "policy_list P (Some key) sc l cu s = (r, t)"
    by (cases "policy_list P (Some key) sc l cu s")
  have r: "r = (case paginate ?ms cu l of
      Inl m \<Rightarrow> Inl (PolicyError Validation_error m) | Inr page \<Rightarrow> Inr page)" and t: "store t = store s"
    using in_memory.policy_list_run [OF P Suc.prems, of key sc l cu] run ok
    by (simp_all add: list_answer_def refused_scope_def)
  note IH = Suc.IH [of t, unfolded t, OF Suc.prems]
  show ?case
    by (cases "paginate ?ms cu l") (auto simp: run r IH split: option.split sum.split)
qed simp

text \<open>
  Property C14: a client that follows the cursors from the start, with any accepted
  page size, gets every memory of its space in the scope, each once and in order.
\<close>

theorem paging_enumerates:
  assumes "pol_backend P = in_memory_backend U" and "served s"
    and "validate_limit l = Inr ()" and "validate_scope (scope_json sc) (pol_scope_keys P) = Inr sc'"
    and "length (held s (space_of key)) < 10 ^ max_str_digits"
  shows "list_pages P (Some key) sc l (Suc (length (filter (matching sc') (held s (space_of key))))) None s =
    Inr (filter (matching sc') (held s (space_of key)))"
proof -
  let ?ms = "filter (matching sc') (held s (space_of key))"
  have short: "length ?ms < 10 ^ max_str_digits"
    using assms(5) length_filter_le [of "matching sc'" "held s (space_of key)"] by linarith
  have "1 \<le> l" using assms(3) by simp
  from follow_pages_all [OF this short] show ?thesis
    unfolding list_pages_follow [OF assms(1,3,4,2)] by (simp only: sum.case)
qed

theorem paging_enumerates_witness:
  "list_pages demo_policy (Some ray) None 1 2 None (start demo_one) = Inr [hi_memory]"
proof -
  have limit: "validate_limit 1 = Inr ()" by (simp add: validate_limit_def MAX_LIMIT_def)
  have "length (held (start demo_one) (space_of ray)) = 1" by (simp add: held_demo)
  moreover have "(1 :: nat) < 10 ^ max_str_digits"
    by (rule one_less_power) (simp_all add: max_str_digits_def)
  ultimately have short: "length (held (start demo_one) (space_of ray)) < 10 ^ max_str_digits" by simp
  from paging_enumerates [OF demo_backend served_demo(2) limit demo_scope short] show ?thesis
    by (simp add: held_demo numeral_2_eq_2)
qed

text \<open>
  An export answers the first 10,000 memories of the caller's space
  in order, in the wire shape, with their number, and says it is truncated exactly when there are
  more; it changes nothing.
\<close>

theorem export_complete:
  assumes "pol_backend P = in_memory_backend U" and "served s"
  shows "fst (policy_export P (Some key) s) =
      Inr \<lparr>x_memories = map serialize_memory (take 10000 (held s (space_of key))),
           x_count = min 10000 (length (held s (space_of key))),
           x_truncated = (length (held s (space_of key)) > 10000)\<rparr>
    \<and> store (snd (policy_export P (Some key) s)) = store s"
  using in_memory.policy_export_run [OF assms, of key] by (simp add: MAX_EXPORT_def)

theorem export_complete_witness:
  "fst (policy_export demo_policy (Some ray) (start demo_one)) =
     Inr \<lparr>x_memories = [serialize_memory hi_memory], x_count = 1, x_truncated = False\<rparr>"
  using export_complete [OF demo_backend served_demo(2), of ray] by (simp add: held_demo)

section \<open>The properties of the parts, at work\<close>

theorem check_granted_spaces_exact_witness:
  "fst (check_granted_spaces (in_memory_backend plain_ucd) [u ''red'', u ''spc_x'', u ''red''] []) = Inr ()
   \<and> snd (check_granted_spaces (in_memory_backend plain_ucd) [u ''red'', u ''spc_x'', u ''red''] []) =
      [Space_not_portable (u ''spc_x'')]"
proof -
  have usable: "\<forall>sp \<in> set [u ''red'', u ''spc_x'', u ''red''].
      refuse_unusable_partition (in_memory_backend plain_ucd) sp = Inr ()"
    by (simp add: refuse_unusable_partition_def is_wildcard_def strip_def strip_by_def is_space_def
        in_memory_backend_def mem_validate_partition_def u_def)
  have order: "filter not_portable (fromkeys [u ''red'', u ''spc_x'', u ''red'']) = [u ''spc_x'']"
    by (simp add: fromkeys_def not_portable_def is_space_def is_control_def PORTABLE_SPACE_LENGTH_def u_def)
  from check_granted_spaces_exact [of "in_memory_backend plain_ucd" "[u ''red'', u ''spc_x'', u ''red'']" "[]"]
  show ?thesis using usable order by simp
qed

theorem patched_eq_apply_patch_witness:
  "patched [(u ''a'', JInt 1), (u ''b'', JInt 2)] \<lparr>p_set = [(u ''b'', JInt 3)], p_remove = [u ''a'']\<rparr> =
     apply_patch \<lparr>p_set = [(u ''b'', JInt 3)], p_remove = [u ''a'']\<rparr> [(u ''a'', JInt 1), (u ''b'', JInt 2)]"
  by (rule patched_eq_apply_patch [of "[(u ''b'', JInt 3)]" "[u ''a'']"])
    (simp add: make_patch_def dict_keys_def Let_def)

theorem metadata_cap_witness:
  "check_metadata_size (patched [(u ''a'', JInt 1)] \<lparr>p_set = [], p_remove = [u ''a'']\<rparr>)
     (Some [(u ''a'', JInt 1)]) = Inr ()"
proof -
  have "\<exists>k. json_size [(u ''a'', JInt 1)] = Inr k"
    by (simp add: max_str_digits_pos json_size_def Let_def dumps_str_def escape_char_def is_surrogate_def int_str_def
        nat_digits.simps u_def)
  then obtain k where "json_size [(u ''a'', JInt 1)] = Inr k" ..
  with metadata_cap [where old = "[(u ''a'', JInt 1)]" and p = "\<lparr>p_set = [], p_remove = [u ''a'']\<rparr>" and k = k]
  show ?thesis by simp
qed

theorem validate_scope_sound_witness:
  "scope_accepted (pol_scope_keys demo_policy) bot_scope"
  using validate_scope_sound [OF demo_bot] by blast

theorem validate_scope_idempotent_witness:
  "validate_scope (JObj bot_scope) (pol_scope_keys demo_policy) = Inr (Some bot_scope)"
  by (rule validate_scope_idempotent [OF demo_bot])
    (simp add: bot_scope_def too_long_text_def MAX_SCOPE_VALUE_LENGTH_def)

lemma plain_tokens: "tokenize plain_ucd (u ''hi'') = [u ''hi'']" "tokenize plain_ucd (u ''oh hi'') = [u ''oh'', u ''hi'']"
  by (simp_all add: tokenize_def plain_ucd_def is_ascii_def tokens_of_def findall_runs_def
      ascii_token_char_def between_def u_def Let_def)

theorem score_of_phrase_witness: "score plain_ucd (u ''hi'') (u ''oh hi'') = Some 1"
  by (rule score_of_phrase [where preceding = "[u ''oh'']" and after = "[]"]) (simp_all add: plain_tokens)

theorem score_range_witness: "(0 :: rat) < 1 \<and> (1 :: rat) \<le> 1"
proof -
  have "is_phrase_of [u ''hi''] [u ''oh'', u ''hi'']"
    by (simp add: is_phrase_of_def upt_rec)
  then have "score plain_ucd (u ''hi'') (u ''oh hi'') = Some 1"
    by (simp add: score_def plain_tokens)
  then show ?thesis by (rule score_range)
qed

theorem tokenize_eq_tokenize_any_witness:
  "tokenize plain_ucd (u ''hi'') = tokenize_any plain_ucd (u ''hi'')"
  by (rule tokenize_eq_tokenize_any [OF unicode_facts_plain])

end
