(* ===== verification/Alike.thy ===== *)
theory Alike
  imports Guarantees
begin

text \<open>
  Comparing two runs of the same policy code over different backends: \<open>alike R\<close> relates two
  computations that answer the same and end in related states when they start in related ones.
  Policy is parametric in its backend, so a relation that the backends' calls keep is kept by
  whole requests: the same reply, the same audit record and the same log. Shown once for the reads
  (\<open>alike_reads\<close>); \<open>Twins\<close> adds the writes.
\<close>

section \<open>Computations that answer alike\<close>

definition alike :: "('v \<Rightarrow> 'w \<Rightarrow> bool) \<Rightarrow> ('v, 'e, 'a) action \<Rightarrow> ('w, 'e, 'a) action \<Rightarrow> bool" where
  "alike R m n \<longleftrightarrow> (\<forall>v w. R v w \<longrightarrow> fst (m v) = fst (n w) \<and> R (snd (m v)) (snd (n w)))"

named_theorems alike_rules \<open>computations that answer alike\<close>

lemma alikeI: "(\<And>v w. R v w \<Longrightarrow> fst (m v) = fst (n w) \<and> R (snd (m v)) (snd (n w))) \<Longrightarrow> alike R m n"
  by (simp add: alike_def)

lemma alikeD: "alike R m n \<Longrightarrow> R v w \<Longrightarrow> fst (m v) = fst (n w) \<and> R (snd (m v)) (snd (n w))"
  by (simp add: alike_def)

text \<open>The same at one pair of states, for what depends on what they hold.\<close>

definition alike_at ::
  "('v \<Rightarrow> 'w \<Rightarrow> bool) \<Rightarrow> ('v, 'e, 'a) action \<Rightarrow> ('w, 'e, 'a) action \<Rightarrow> 'v \<Rightarrow> 'w \<Rightarrow> bool" where
  "alike_at R m n v w \<longleftrightarrow> fst (m v) = fst (n w) \<and> R (snd (m v)) (snd (n w))"

lemma alike_iff: "alike R m n \<longleftrightarrow> (\<forall>v w. R v w \<longrightarrow> alike_at R m n v w)"
  by (simp add: alike_def alike_at_def)

lemma alike_at_seq:
  assumes "alike_at R m n v w"
    and "\<And>x v' w'. m v = (Inr x, v') \<Longrightarrow> n w = (Inr x, w') \<Longrightarrow> R v' w' \<Longrightarrow> alike_at R (f x) (g x) v' w'"
  shows "alike_at R (seq m f) (seq n g) v w"
proof -
  obtain r v' where v: "m v = (r, v')" by (cases "m v")
  obtain w' where w: "n w = (r, w')" using assms(1) v by (cases "n w") (auto simp: alike_at_def)
  have R: "R v' w'" using assms(1) v w by (simp add: alike_at_def)
  show ?thesis
  proof (cases r)
    case (Inr x)
    with assms(2) v w R have "alike_at R (f x) (g x) v' w'" by simp
    with v w Inr show ?thesis by (simp add: alike_at_def seq_run)
  qed (use v w R in \<open>simp add: alike_at_def seq_run\<close>)
qed

lemma alike_at_then:
  "alike_at R m n v w \<Longrightarrow> (\<And>x. alike R (f x) (g x)) \<Longrightarrow> alike_at R (seq m f) (seq n g) v w"
  by (rule alike_at_seq) (simp_all add: alike_iff)

lemma alike_at_result:
  "R v w \<Longrightarrow> (\<And>x. r = Inr x \<Longrightarrow> alike_at R (f x) (g x) v w) \<Longrightarrow>
   alike_at R (seq (from_result r) f) (seq (from_result r) g) v w"
  by (cases r) (simp_all add: alike_at_def act_simps)

lemma alike_at_check:
  "R v w \<Longrightarrow> (\<And>x. r = Inr x \<Longrightarrow> alike_at R (f x) (g x) v w) \<Longrightarrow>
   alike_at R (seq (validation (from_result (raising r))) f)
     (seq (validation (from_result (raising r))) g) v w"
  by (cases r) (simp_all add: alike_at_def act_simps validation_run)

lemma alike_check:
  "(\<And>x. r = Inr x \<Longrightarrow> alike R (f x) (g x)) \<Longrightarrow>
   alike R (seq (validation (from_result (raising r))) f) (seq (validation (from_result (raising r))) g)"
  unfolding alike_iff by (blast intro: alike_at_check)

lemma alike_at_if:
  "(b \<Longrightarrow> alike_at R m n v w) \<Longrightarrow> (\<not> b \<Longrightarrow> alike_at R m' n' v w) \<Longrightarrow>
   alike_at R (if b then m else m') (if b then n else n') v w"
  by simp

lemma alike_at_raise: "R v w \<Longrightarrow> alike_at R (raise e) (raise e) v w"
  by (simp add: alike_at_def act_simps)

lemma seq_ret: "seq (ret x) f = f x"
  by (rule ext) (simp add: act_simps)

lemma alike_at_catch:
  assumes "alike_at R m n v w" and h: "\<And>e. alike R (h e) (k e)"
  shows "alike_at R (catch m h) (catch n k) v w"
proof -
  obtain r v' where v: "m v = (r, v')" by (cases "m v")
  obtain w' where w: "n w = (r, w')" using assms(1) v by (cases "n w") (auto simp: alike_at_def)
  have "R v' w'" using assms(1) v w by (simp add: alike_at_def)
  with v w h show ?thesis by (cases r) (simp_all add: alike_at_def alike_def act_simps)
qed

lemma alike_ret [alike_rules]: "alike R (ret x) (ret x)"
  by (simp add: alike_def ret_def)

lemma alike_raise [alike_rules]: "alike R (raise e) (raise e)"
  by (simp add: alike_def raise_def)

lemma alike_from_result [alike_rules]: "alike R (from_result r) (from_result r)"
  by (simp add: alike_def from_result_def)

text \<open>What follows may rely on what the first computation returns.\<close>

lemma alike_seq_with:
  assumes m: "alike R m n" and "ensures m Q" and f: "\<And>x. Q x \<Longrightarrow> alike R (f x) (g x)"
  shows "alike R (seq m f) (seq n g)"
proof (rule alikeI)
  fix v w
  assume R: "R v w"
  obtain r v' where v: "m v = (r, v')" by (cases "m v")
  obtain r' w' where w: "n w = (r', w')" by (cases "n w")
  have same: "r' = r" and R': "R v' w'" using alikeD [OF m R] v w by simp_all
  show "fst (seq m f v) = fst (seq n g w) \<and> R (snd (seq m f v)) (snd (seq n g w))"
  proof (cases r)
    case (Inr x)
    with v have "m v = (Inr x, v')" by simp
    with assms(2) have "Q x" by (rule ensuresD)
    from alikeD [OF f [OF this] R'] Inr same v w show ?thesis by (simp add: seq_run)
  qed (use same R' v w in \<open>simp add: seq_run\<close>)
qed

lemma alike_seq [alike_rules]:
  "alike R m n \<Longrightarrow> (\<And>x. alike R (f x) (g x)) \<Longrightarrow> alike R (seq m f) (seq n g)"
  by (rule alike_seq_with [where Q = "\<lambda>_. True"]) (simp_all add: ensures_def)

lemma alike_seq_result:
  "(\<And>x. r = Inr x \<Longrightarrow> alike R (f x) (g x)) \<Longrightarrow> alike R (seq (from_result r) f) (seq (from_result r) g)"
  by (rule alike_seq_with [where Q = "\<lambda>x. r = Inr x"])
    (auto simp: ensures_def from_result_def intro: alike_rules)

lemma alike_catch [alike_rules]:
  "alike R m n \<Longrightarrow> (\<And>e. alike R (h e) (k e)) \<Longrightarrow> alike R (catch m h) (catch n k)"
  unfolding alike_def catch_def by (fastforce split: prod.splits sum.splits)

lemma alike_for_each [alike_rules]:
  "(\<And>x. alike R (f x) (g x)) \<Longrightarrow> alike R (for_each f xs) (for_each g xs)"
  by (induction xs) (auto intro!: alike_rules)

lemma alike_cases [alike_rules]:
  "(b \<Longrightarrow> alike R m n) \<Longrightarrow> (\<not> b \<Longrightarrow> alike R m' n') \<Longrightarrow> alike R (if b then m else m') (if b then n else n')"
  "alike R m n \<Longrightarrow> (\<And>y. alike R (f y) (g y)) \<Longrightarrow>
     alike R (case x of None \<Rightarrow> m | Some y \<Rightarrow> f y) (case x of None \<Rightarrow> n | Some y \<Rightarrow> g y)"
  "(\<And>y z. alike R (f' y z) (g' y z)) \<Longrightarrow>
     alike R (case yz of (y, z) \<Rightarrow> f' y z) (case yz of (y, z) \<Rightarrow> g' y z)"
  by (auto split: option.splits prod.splits)

lemma alike_case_sum [alike_rules]:
  "(\<And>x. alike R (f x) (g x)) \<Longrightarrow> (\<And>y. alike R (f' y) (g' y)) \<Longrightarrow>
   alike R (case r of Inl x \<Rightarrow> f x | Inr y \<Rightarrow> f' y) (case r of Inl x \<Rightarrow> g x | Inr y \<Rightarrow> g' y)"
  by (cases r) simp_all

lemma alike_mapped [alike_rules]: "alike R m n \<Longrightarrow> alike R (mapped f m) (mapped f n)"
  by (auto simp: mapped_def intro!: alike_rules)

lemma alike_validation [alike_rules]: "alike R m n \<Longrightarrow> alike R (validation m) (validation n)"
  by (auto simp: validation_def intro!: alike_rules)

lemma alike_not_found [alike_rules]: "alike R m n \<Longrightarrow> alike R (not_found m) (not_found n)"
  by (auto simp: not_found_def intro!: alike_rules)

lemma alike_attempt [alike_rules]: "alike R m n \<Longrightarrow> alike R (attempt m) (attempt n)"
  by (auto simp: attempt_def intro!: alike_rules split: exc.split)

section \<open>Policy's state\<close>

text \<open>Related stores, and the same entry, audit log and server log.\<close>

definition same_st :: "('v \<Rightarrow> 'w \<Rightarrow> bool) \<Rightarrow> 'v st \<Rightarrow> 'w st \<Rightarrow> bool" where
  "same_st R s t \<longleftrightarrow> R (store s) (store t) \<and> entry s = entry t \<and> audit_log s = audit_log t
     \<and> server_log s = server_log t"

lemma alike_call [alike_rules]: "alike R m n \<Longrightarrow> alike (same_st R) (call m) (call n)"
  by (rule alikeI) (auto simp: same_st_def call_def dest: alikeD split: prod.splits)

lemma alike_at_call:
  "alike_at R m n (store s) (store t) \<Longrightarrow> same_st R s t \<Longrightarrow> alike_at (same_st R) (call m) (call n) s t"
  by (auto simp: alike_at_def same_st_def call_def split: prod.splits)

lemma alike_at_guards:
  "alike_at R m n v w \<Longrightarrow> alike_at R (not_found m) (not_found n) v w"
  "alike_at R m n v w \<Longrightarrow> alike_at R (attempt m) (attempt n) v w"
  by (auto simp: not_found_def attempt_def intro!: alike_at_catch alike_at_then alike_rules split: exc.split)

lemma alike_entry [alike_rules]:
  "alike (same_st R) (set_ids ids) (set_ids ids)" "alike (same_st R) (set_count k) (set_count k)"
  "alike (same_st R) (set_scope sc) (set_scope sc)" "alike (same_st R) (log_event e) (log_event e)"
  by (simp_all add: alike_def same_st_def act_simps)

lemma alike_at_audited:
  assumes R: "same_st R s t"
    and "alike_at (same_st R) m n (s\<lparr>entry := opening_entry ctx op\<rparr>) (t\<lparr>entry := opening_entry ctx op\<rparr>)"
  shows "alike_at (same_st R) (audited ctx op m) (audited ctx op n) s t"
  using assms by (auto simp: alike_at_def audited_def with_entry_def same_st_def split: prod.splits)

lemma alike_check_space [alike_rules]: "alike (same_st R) (check_space m p op i) (check_space m p op i)"
  by (auto simp: check_space_def intro!: alike_rules)

lemma alike_check_spaces [alike_rules]: "alike (same_st R) (check_spaces ms p op) (check_spaces ms p op)"
  by (auto simp: check_spaces_def intro!: alike_rules)

lemma alike_in_scope [alike_rules]: "alike (same_st R) (in_scope ms sc) (in_scope ms sc)"
proof -
  have "alike (same_st R) (keep_in_scope d ms) (keep_in_scope d ms)" for d
    by (induction ms) (auto intro!: alike_rules)
  then show ?thesis by (auto simp: in_scope_def intro!: alike_rules)
qed

lemma alike_at_scope:
  assumes "pol_scope_keys Q = pol_scope_keys P" and R: "same_st R s t"
    and "\<And>sc'. fst ` set (or_empty sc') \<inter> NESTED_FILTER_KEYS = {} \<Longrightarrow>
      alike_at (same_st R) (f sc') (g sc') (s\<lparr>entry := (entry s)\<lparr>ae_scope := sc'\<rparr>\<rparr>)
        (t\<lparr>entry := (entry t)\<lparr>ae_scope := sc'\<rparr>\<rparr>)"
  shows "alike_at (same_st R) (seq (checked_scope P sc) f) (seq (checked_scope Q sc) g) s t"
proof (cases "validate_scope (scope_json sc) (pol_scope_keys P)")
  case (Inl e)
  with R assms(1) show ?thesis
    by (cases e) (simp add: alike_at_def act_simps in_memory.checked_scope_run)
next
  case (Inr sc')
  with assms(1) assms(3) [OF in_memory.accepted_not_nested [OF Inr]] show ?thesis
    by (simp add: alike_at_def act_simps in_memory.checked_scope_run)
qed

lemma alike_checked_scope:
  assumes "pol_scope_keys Q = pol_scope_keys P"
    and "\<And>sc'. fst ` set (or_empty sc') \<inter> NESTED_FILTER_KEYS = {} \<Longrightarrow> alike (same_st R) (f sc') (g sc')"
  shows "alike (same_st R) (seq (checked_scope P sc) f) (seq (checked_scope Q sc) g)"
  using assms(2) unfolding alike_iff
  by (auto intro!: alike_at_scope [OF assms(1)]) (auto simp: same_st_def)

lemma seq_from_Inr: "seq (from_result (Inr x)) f = f x"
  by (rule ext) (simp add: act_simps)

lemma alike_require:
  "alike R (f key) (g key) \<Longrightarrow>
   alike R (seq (from_result (require (Some key) rel)) f) (seq (from_result (require (Some key) rel)) g)"
  by (rule alike_seq_result) (simp add: require_ok)

section \<open>Reads\<close>

locale alike_reads =
  fixes B :: "'v backend" and C :: "'w backend" and p :: pystr and R :: "'v \<Rightarrow> 'w \<Rightarrow> bool"
  assumes get_alike: "alike R (b_get B p i) (b_get C p i)"
    and search_alike: "fst ` set (or_empty sc) \<inter> NESTED_FILTER_KEYS = {} \<Longrightarrow>
      alike R (b_search B p q sc l th) (b_search C p q sc l th)"
    and list_alike: "alike R (b_list_memories B p sc l cu) (b_list_memories C p sc l cu)"
    and history_alike: "alike R (b_history B p i) (b_history C p i)"
begin

lemma read_alike:
  assumes "pol_backend P = B" and "pol_backend Q = C"
  shows "alike (same_st R) (policy_read P p i op) (policy_read Q p i op)"
  by (auto simp: policy_read_def assms intro!: alike_rules get_alike)

text \<open>The paged read, by the measure that makes it end.\<close>

lemma list_all_from_alike:
  "alike (same_st R) (list_all_from B p l op ms inc cu) (list_all_from C p l op ms inc cu)"
proof (induction "nat (l + 1 - int (length ms))" arbitrary: ms inc cu rule: less_induct)
  case less
  show ?case
    by (subst (1 2) list_all_from_seq)
      (auto intro!: alike_seq [where m = "call m" for m] alike_seq_with [OF _ ensures_check_spaces]
        alike_cases alike_ret alike_call list_alike alike_check_spaces less.hyps)
qed

lemma list_all_alike:
  "alike (same_st R) (list_all_memories B p l op) (list_all_memories C p l op)"
  by (simp add: list_all_memories_def list_all_from_alike)

lemma export_alike: "alike (same_st R) (run_export B p l) (run_export C p l)"
  by (auto simp: run_export_def intro!: alike_rules list_all_alike)

lemma reads_alike:
  assumes P: "pol_backend P = B" "pol_backend Q = C" "pol_scope_keys Q = pol_scope_keys P"
    and key: "space_of key = p" and r: "plain_read r"
  shows "alike (same_st R) (request_body P (Some key) r) (request_body Q (Some key) r)"
proof -
  note rules = alike_checked_scope [OF P(3)] alike_require alike_rules read_alike [OF P(1,2)]
    export_alike get_alike search_alike list_alike history_alike
  show ?thesis
    using r
    by (cases r) (auto simp: body_defs Let_def P key seq_from_Inr intro!: rules)
qed

end

end
