(* ===== verification/History.thy ===== *)
theory History
  imports Behaviour
begin

text \<open>
  The abstract store as a state machine: every session of requests over a storing backend is a
  sequence of its steps (\<open>session_steps\<close>), so an invariant of the steps holds in every state a
  session reaches. Here the invariant of the history: the trail of a memory is the story of its
  content, from its creation to what it holds now.
\<close>

section \<open>Sessions as steps\<close>

context confined_backend
begin

lemma calls_on_store: "partition_calls B p (on_store I)"
  by (rule confined.partition_calls_axioms)

end

definition any_step :: "spec \<Rightarrow> spec \<Rightarrow> bool" where
  "any_step s s' \<longleftrightarrow> (\<exists>p. store_step p s s')"

lemma ids_apart_listings:
  assumes "ids_apart s" and "\<And>q. set (map m_id (sp_listing s' q)) \<subseteq> set (map m_id (sp_listing s q))"
    and "\<And>q. distinct (map m_id (sp_listing s' q))"
  shows "ids_apart s'"
  unfolding ids_apart_def
proof (intro conjI allI impI)
  fix p q :: pystr
  assume "p \<noteq> q"
  then have "m_id ` set (sp_listing s p) \<inter> m_id ` set (sp_listing s q) = {}"
    using assms(1) by (simp add: ids_apart_def)
  with assms(2) [of p] assms(2) [of q]
  show "m_id ` set (sp_listing s' p) \<inter> m_id ` set (sp_listing s' q) = {}" by auto
qed (rule assms(3))

lemma map_id_updated:
  "m_id m' = i \<Longrightarrow> map m_id (map (\<lambda>x. if m_id x = i then m' else x) xs) = map m_id xs"
  by (induction xs) auto

lemma step_ids_apart:
  assumes "ids_apart s" and "store_step p s s'"
  shows "ids_apart s'"
  using assms(2)
proof cases
  case (added m)
  then show ?thesis using assms(1) unfolding ids_apart_def by (auto simp: spec_add_def)
next
  case (updated i m sy co pt now)
  have "map m_id (sp_listing s' q) = map m_id (sp_listing s q)" for q
    using map_id_updated [of "updated_memory m co pt (Some sy) now" "m_id m" "sp_listing s p"]
    by (simp add: updated(1) spec_update_def)
  with assms(1) show ?thesis by (intro ids_apart_listings [OF assms(1)]) (simp_all add: ids_apart_def)
next
  case (removed doomed)
  show ?thesis
  proof (rule ids_apart_listings [OF assms(1)])
    show "set (map m_id (sp_listing s' q)) \<subseteq> set (map m_id (sp_listing s q))" for q
      by (auto simp: removed spec_remove_def)
    show "distinct (map m_id (sp_listing s' q))" for q
      using assms(1) by (simp add: removed spec_remove_def ids_apart_def distinct_map_filter)
  qed
qed

lemma any_step_after: "any_step\<^sup>*\<^sup>* s0 s \<Longrightarrow> store_step p s s' \<Longrightarrow> any_step\<^sup>*\<^sup>* s0 s'"
  by (rule rtranclp.rtrancl_into_rtrancl) (auto simp: any_step_def)

context storing_backend
begin

lemma perform_holding:
  assumes P: "pol_backend P = B" and w: "holding inv abs J (store s)"
    and J: "\<And>p s s'. ids_apart s \<Longrightarrow> store_step p s s' \<Longrightarrow> J s \<Longrightarrow> J s'"
  shows "holding inv abs J (store (snd (perform P ctx r s)))"
proof (rule perform_keeps_store [where I = "holding inv abs J"])
  show "partition_calls (pol_backend P) (space_of key) (on_store (holding inv abs J))" for key
    unfolding P by (rule confined_backend.calls_on_store [OF confined_by_steps]) (rule J)
qed (rule w)

lemma session_holding:
  assumes P: "pol_backend P = B"
    and J: "\<And>p s s'. ids_apart s \<Longrightarrow> store_step p s s' \<Longrightarrow> J s \<Longrightarrow> J s'"
  shows "holding inv abs J (store s) \<Longrightarrow> holding inv abs J (store (run_session P rs s))"
proof (induction rs arbitrary: s)
  case (Cons a rs)
  obtain ctx r where "a = (ctx, r)" by (cases a)
  with Cons perform_holding [OF P _ J] show ?case by simp
qed simp

text \<open>The refinement of a whole session.\<close>

lemma session_steps:
  assumes "pol_backend P = B" and "inv (store s)"
  shows "inv (store (run_session P rs s))
    \<and> any_step\<^sup>*\<^sup>* (abs (store s)) (abs (store (run_session P rs s)))"
proof -
  have "holding inv abs (any_step\<^sup>*\<^sup>* (abs (store s))) (store (run_session P rs s))"
    using assms(2)
    by (intro session_holding [OF assms(1)]) (auto simp: holding_def intro: any_step_after)
  then show ?thesis by (simp add: holding_def)
qed

end

section \<open>The story a trail tells\<close>

definition tells :: "history_entry list \<Rightarrow> memory \<Rightarrow> bool" where
  "tells trail m \<longleftrightarrow>
     trail \<noteq> []
     \<and> h_action (hd trail) = u ''created'' \<and> h_content_before (hd trail) = None
     \<and> h_timestamp (hd trail) = m_created_at m
     \<and> list_all (\<lambda>e. h_action e = u ''updated'') (tl trail)
     \<and> successively (\<lambda>a b. h_content_before b = h_content_after a) trail
     \<and> h_content_after (last trail) = Some (m_content m)
     \<and> h_author (last trail) = memory_author m
     \<and> h_timestamp (last trail) = (case m_updated_at m of None \<Rightarrow> m_created_at m | Some t \<Rightarrow> t)"

definition told :: "spec \<Rightarrow> bool" where
  "told s \<longleftrightarrow> (\<forall>q. \<forall>m \<in> set (sp_listing s q). tells (sp_trail s (m_id m)) m)"

lemma tells_created:
  "m_updated_at m = None \<Longrightarrow>
   tells [\<lparr>h_action = u ''created'', h_timestamp = m_created_at m, h_content_before = None,
     h_content_after = Some (m_content m), h_author = memory_author m\<rparr>] m"
  by (simp add: tells_def)

lemma tells_updated:
  assumes "tells trail m" and "m_created_at m' = m_created_at m" and "m_updated_at m' = Some now"
  shows "tells (trail @ [\<lparr>h_action = u ''updated'', h_timestamp = now,
      h_content_before = Some (m_content m), h_content_after = Some (m_content m'),
      h_author = memory_author m'\<rparr>]) m'"
  using assms by (auto simp: tells_def successively_append_iff)

lemma step_told:
  assumes ids: "ids_apart s" and step: "store_step p s s'" and told: "told s"
  shows "told s'"
  using step
proof cases
  case (added m)
  with told show ?thesis
    by (auto simp: told_def spec_add_def tells_created image_iff) metis+
next
  case (updated i m sy co pt now)
  let ?m' = "updated_memory m co pt (Some sy) now"
  have m: "m \<in> set (sp_listing s p)" using spec_get_Some [OF updated(2)] by simp
  have tale: "tells (sp_trail s' (m_id m)) ?m'"
    using told m tells_updated [of "sp_trail s (m_id m)" m ?m' now]
    by (simp add: updated(1) told_def spec_update_def) (simp add: updated_memory_def)
  show ?thesis
    unfolding told_def
  proof (intro allI ballI)
    fix q x assume x: "x \<in> set (sp_listing s' q)"
    show "tells (sp_trail s' (m_id x)) x"
    proof (cases "m_id x = m_id m")
      case True
      have "q = p"
      proof (rule ccontr)
        assume "q \<noteq> p"
        with x have "x \<in> set (sp_listing s q)" by (simp add: updated(1) spec_update_def)
        moreover have "m_id ` set (sp_listing s p) \<inter> m_id ` set (sp_listing s q) = {}"
          using ids \<open>q \<noteq> p\<close> by (simp add: ids_apart_def)
        ultimately show False using m True by (metis IntI empty_iff image_eqI)
      qed
      with x True have "x = ?m'" by (auto simp: updated(1) spec_update_def split: if_splits)
      with tale True show ?thesis by simp
    next
      case False
      with x have "x \<in> set (sp_listing s q)"
        by (auto simp: updated(1) spec_update_def split: if_splits)
      with False told show ?thesis by (simp add: updated(1) spec_update_def told_def)
    qed
  qed
next
  case (removed doomed)
  show ?thesis
    unfolding told_def
  proof (intro allI ballI)
    fix q x assume x: "x \<in> set (sp_listing s' q)"
    then have x': "x \<in> set (sp_listing s q)"
      by (auto simp: removed spec_remove_def split: if_splits)
    have "m_id x \<notin> m_id ` set (filter doomed (sp_listing s p))"
    proof
      assume "m_id x \<in> m_id ` set (filter doomed (sp_listing s p))"
      then obtain y where y: "y \<in> set (sp_listing s p)" "doomed y" "m_id y = m_id x" by auto
      show False
      proof (cases "q = p")
        case True
        with ids x' y have "y = x" by (auto simp: ids_apart_def distinct_map inj_on_def)
        with x y True show False by (simp add: removed spec_remove_def)
      next
        case False
        then have "m_id ` set (sp_listing s p) \<inter> m_id ` set (sp_listing s q) = {}"
          using ids by (simp add: ids_apart_def)
        with x' y show False by (metis IntI empty_iff image_eqI)
      qed
    qed
    with x' told show "tells (sp_trail s' (m_id x)) x"
      by (simp add: removed spec_remove_def told_def)
  qed
qed

context storing_backend
begin

text \<open>What a client reads: the history of a memory tells its story.\<close>

lemma session_tells:
  assumes P: "pol_backend P = B" and w: "well_stamped inv abs (store s)" and told: "told (abs (store s))"
    and get: "fst (policy_get P (Some key) i (run_session P rs s)) = Inr m"
  shows "\<exists>trail. fst (policy_history P (Some key) i (run_session P rs s)) = Inr trail \<and> tells trail m"
proof -
  let ?t = "run_session P rs s"
  have "holding inv abs (\<lambda>x. stamped_spec x \<and> told x) (store ?t)"
    using w told by (intro session_holding [OF P]) (auto simp: well_stamped_def holding_def
        intro: step_stamped step_told)
  then have t: "well_stamped inv abs (store ?t)" "told (abs (store ?t))"
    by (simp_all add: holding_def well_stamped_def)
  from get policy_get_run(1) [OF P t(1), of key i]
  have found: "lookup_result i (spec_get (space_of key) i (abs (store ?t))) = Inr m" by simp
  then have "spec_get (space_of key) i (abs (store ?t)) = Some m"
    by (auto simp: lookup_result_def split: if_splits option.splits)
  then have "m \<in> set (sp_listing (abs (store ?t)) (space_of key))" "m_id m = i"
    using spec_get_Some by blast+
  with t(2) have "tells (sp_trail (abs (store ?t)) i) m" by (auto simp: told_def)
  with found show ?thesis by (simp add: policy_history_run(1) [OF P t(1)])
qed

end

end
