(* ===== verification/Durable.thy ===== *)
theory Durable
  imports History Guarantees
begin

text \<open>
  The promises of the SQLite backend, and of policy over it: it answers as the in-memory backend
  does, a session is a sequence of steps of the abstract store, the history of a memory tells its
  story, a call that raises leaves the tables alone, a file that is closed and opened again holds
  the same, and how many memories one bulk delete can name.
\<close>

abbreviation served_sql :: "sql_store st \<Rightarrow> bool" where
  "served_sql s \<equiv> well_stamped sq_inv sq_abs (store s)"

abbreviation held_sql :: "sql_store st \<Rightarrow> pystr \<Rightarrow> memory list" where
  "held_sql s p \<equiv> sp_listing (sq_abs (store s)) p"

section \<open>A concrete file\<close>

definition demo_sql_env :: env where
  "demo_sql_env = \<lparr>uuid4 = (\<lambda>n. replicate (Suc n) 97), clock = (\<lambda>n. replicate (Suc n) 48), ticks = 2\<rparr>"

definition demo_row :: "nat \<Rightarrow> pystr \<Rightarrow> memory_row" where
  "demo_row n i =
     \<lparr>mr_rowid = n, mr_id = i, mr_user_id = u ''red'', mr_content = u ''hi'',
      mr_scope = json_dumps_column [(u ''agent_id'', JStr (u ''bot''))],
      mr_metadata = json_dumps_column [],
      mr_system = json_dumps_column (system_for (u ''red'') (u ''ann'') (Some (u ''ann''))),
      mr_created_at = [48], mr_updated_at = None\<rparr>"

definition demo_created :: "nat \<Rightarrow> pystr \<Rightarrow> history_row" where
  "demo_created n i =
     \<lparr>hr_seq = n, hr_memory_id = i, hr_action = u ''created'', hr_timestamp = [48],
      hr_content_before = None, hr_content_after = Some (u ''hi''), hr_author = Some (u ''ann'')\<rparr>"

definition demo_file :: sql_file where
  "demo_file =
     \<lparr>t_memories = [demo_row 1 [97], demo_row 2 [97, 97]],
      t_history = [demo_created 1 [97], demo_created 2 [97, 97]], t_last_seq = 2\<rparr>"

definition demo_sql :: sql_store where
  "demo_sql = sqlite_init (Some demo_file) demo_sql_env (\<lambda>_. 0) reliable"

definition demo_sql_policy :: "nat \<Rightarrow> sql_store policy" where
  "demo_sql_policy n =
     \<lparr>pol_backend = sqlite_backend plain_ucd (Suc n),
      pol_capabilities = [u ''update'', u ''list'', u ''history''],
      pol_scope_keys = [u ''agent_id'', u ''run_id'']\<rparr>"

lemma demo_sql_policy_sel [simp]:
  "pol_backend (demo_sql_policy n) = sqlite_backend plain_ucd (Suc n)"
  "pol_scope_keys (demo_sql_policy n) = pol_scope_keys demo_policy"
  by (simp_all add: demo_sql_policy_def demo_policy_def)

definition demo_memory :: "pystr \<Rightarrow> memory" where
  "demo_memory i =
     \<lparr>m_id = i, m_content = u ''hi'', m_score = None, m_scope = [(u ''agent_id'', JStr (u ''bot''))],
      m_metadata = [], m_created_at = [48], m_updated_at = None, m_partition = u ''red'',
      m_system = system_for (u ''red'') (u ''ann'') (Some (u ''ann''))\<rparr>"

text \<open>A new file.\<close>

definition demo_new :: sql_store where
  "demo_new = sqlite_init None (ms_env demo_env) (\<lambda>_. 0) reliable"

lemma demo_new_inv: "sq_inv demo_new"
  using inj_demo unfolding demo_new_def by (intro sq_inv_new) (simp add: demo_env_def in_memory_init_def)

lemma held_demo_new: "held_sql (start demo_new) p = []"
  by (simp add: sq_listing_abs user_rows_def start_def demo_new_def sqlite_init_def create_schema_def)

lemma served_demo_new: "served_sql (start demo_new)"
  using demo_new_inv held_demo_new by (simp add: well_stamped_def stamped_spec_def) (simp add: start_def)

lemma demo_sql_inv: "sq_inv demo_sql"
proof -
  have "replicate (Suc n) (97 :: int) \<noteq> [97]" "replicate (Suc n) (97 :: int) \<noteq> [97, 97]" if "2 \<le> n" for n
    using that by (auto dest: arg_cong [where f = length])
  then show ?thesis
    using inj_demo
    by (auto simp: sq_inv_def demo_sql_def sqlite_init_def create_schema_def demo_file_def demo_row_def
        demo_created_def demo_sql_env_def text_values_def)
qed

lemma held_demo_sql: "held_sql (start demo_sql) p =
    (if p = u ''red'' then [demo_memory [97], demo_memory [97, 97]] else [])"
  by (auto simp: sq_listing_abs user_rows_def start_def demo_sql_def sqlite_init_def create_schema_def
      demo_file_def demo_row_def demo_memory_def row_to_memory_def)

lemma served_demo_sql: "served_sql (start demo_sql)"
  using demo_sql_inv held_demo_sql
  by (simp add: well_stamped_def stamped_spec_def) (simp add: start_def in_space_def demo_memory_def)

lemma trail_demo_sql:
  "sp_trail (sq_abs demo_sql) i =
     (if i \<in> {[97], [97, 97]} then [row_to_history (demo_created 1 [97])] else [])"
  by (simp add: sq_abs_def demo_sql_def sqlite_init_def create_schema_def demo_file_def
      demo_created_def row_to_history_def)

lemma told_demo_sql: "told (sq_abs (store (start demo_sql)))"
proof -
  have "tells [row_to_history (demo_created 1 [97])] (demo_memory i)" for i
    by (simp add: tells_def demo_created_def row_to_history_def demo_memory_def memory_author_def)
  moreover have "m_id (demo_memory i) = i" for i by (simp add: demo_memory_def)
  ultimately show ?thesis
    using held_demo_sql trail_demo_sql by (simp add: told_def) (simp add: start_def)
qed

section \<open>The two local backends\<close>

text \<open>
  The two local backends read alike. Where a space holds the
  same memories with the same histories in both, a get, list, search, export or history read of the
  space answers the same over either, errors included.
\<close>

theorem backends_read_alike:
  assumes "pol_backend P = in_memory_backend U" and "pol_backend Q = sqlite_backend U (Suc n)"
    and "pol_scope_keys Q = pol_scope_keys P" and "served s" and "served_sql t"
    and "view (space_of key) (mem_abs (store s)) = view (space_of key) (sq_abs (store t))"
    and "plain_read r"
  shows "fst (perform P (Some key) r s) = fst (perform Q (Some key) r t)"
proof -
  note P = assms(1) and Q = assms(2) and s = assms(4) and t = assms(5) and view = assms(6)
  have listing: "held s (space_of key) = held_sql t (space_of key)"
    using view by (simp add: view_def)
  have trail: "(case lookup_result i (spec_get (space_of key) i (sq_abs (store t))) of
         Inl e \<Rightarrow> Inl e | Inr m \<Rightarrow> Inr (sp_trail (mem_abs (store s)) i)) =
      (case lookup_result i (spec_get (space_of key) i (sq_abs (store t))) of
         Inl e \<Rightarrow> Inl e | Inr m \<Rightarrow> Inr (sp_trail (sq_abs (store t)) i))" for i
    using view_trail [OF view] spec_get_Some [of "space_of key" i "sq_abs (store t)"] listing
    by (auto simp: lookup_result_def split: option.splits)
  have keys: "search_answer rank Q q sc l th ms = search_answer rank P q sc l th ms"
    "list_answer Q sc l cu ms = list_answer P sc l cu ms" for rank q sc l th ms cu
    by (simp_all only: search_answer_def list_answer_def assms(3))
  show ?thesis
    using assms(7)
    by (cases r)
      (simp_all add: fst_mapped in_memory.policy_search_run [OF P s] sqlite.policy_search_run [OF Q t]
        in_memory.policy_list_run [OF P s] sqlite.policy_list_run [OF Q t]
        in_memory.policy_get_run [OF P s] sqlite.policy_get_run [OF Q t]
        in_memory.policy_history_run [OF P s] sqlite.policy_history_run [OF Q t]
        in_memory.policy_export_run [OF P s] sqlite.policy_export_run [OF Q t]
        keys view_get [OF view] listing trail)
qed

lemma blue_empty: "held (start demo_one) (u ''blue'') = []"
  by (simp add: mem_listing_abs start_def demo_one_def)

theorem backends_read_alike_witness:
  "fst (perform demo_policy (Some bob) Export (start demo_one)) =
     fst (perform (demo_sql_policy 0) (Some bob) Export (start demo_sql))"
  by (rule backends_read_alike [where U = plain_ucd and n = 0])
    (simp_all add: served_demo served_demo_sql view_def held_demo_sql blue_empty)

section \<open>Searching\<close>

text \<open>
  Property C15: over either local backend an accepted search ranks the memories of the
  caller's space in the requested scope whose content scores at all, each with its keyword score:
  best first, equal scores in the order the memories were stored, and as many as the limit allows. The
  hits that are dropped score no better than any that is answered. The answer is the same for every
  \<open>threshold\<close> the arguments accept: neither policy nor a keyword backend filters by it.
\<close>

theorem search_ranked:
  assumes "pol_backend P = in_memory_backend U" and "served s"
    and "pol_backend Q = sqlite_backend U (Suc n)" and "pol_scope_keys Q = pol_scope_keys P"
    and "served_sql t"
    and "search_arguments q l th = Inr ()"
    and "validate_scope (scope_json sc) (pol_scope_keys P) = Inr sc'"
  shows "(\<exists>answer dropped. fst (policy_search P (Some key) q sc l th s) = Inr answer
      \<and> ranked (hits_of (keyword_rank U) q sc' (held s (space_of key))) answer dropped
      \<and> length answer = min (nat l) (length (hits_of (keyword_rank U) q sc' (held s (space_of key)))))
    \<and> (\<exists>answer dropped. fst (policy_search Q (Some key) q sc l th t) = Inr answer
      \<and> ranked (hits_of (keyword_rank U) q sc' (held_sql t (space_of key))) answer dropped
      \<and> length answer =
          min (nat l) (length (hits_of (keyword_rank U) q sc' (held_sql t (space_of key)))))"
proof
  have "validate_limit l = Inr ()"
    using assms(6) by (auto simp: search_arguments_def res_bind_eq_Inr)
  then have l: "0 \<le> l" by simp
  note answer = search_answer_def refused_scope_def assms(4,6,7)
  show "\<exists>answer dropped. fst (policy_search P (Some key) q sc l th s) = Inr answer
      \<and> ranked (hits_of (keyword_rank U) q sc' (held s (space_of key))) answer dropped
      \<and> length answer = min (nat l) (length (hits_of (keyword_rank U) q sc' (held s (space_of key))))"
    using spec_search_ranked [OF l, of "keyword_rank U" q sc' "held s (space_of key)"]
      in_memory.policy_search_run [OF assms(1,2), of key q sc l th]
    by (simp add: answer)
  show "\<exists>answer dropped. fst (policy_search Q (Some key) q sc l th t) = Inr answer
      \<and> ranked (hits_of (keyword_rank U) q sc' (held_sql t (space_of key))) answer dropped
      \<and> length answer =
          min (nat l) (length (hits_of (keyword_rank U) q sc' (held_sql t (space_of key))))"
    using spec_search_ranked [OF l, of "keyword_rank U" q sc' "held_sql t (space_of key)"]
      sqlite.policy_search_run [OF assms(3,5), of key q sc l th]
    by (simp add: answer)
qed

theorem search_ranked_witness:
  "(\<exists>answer. fst (policy_search demo_policy (Some ray) (u ''hi'') None 1 (Float_value 0) (start demo_one)) = Inr answer
      \<and> length answer \<le> 1)
   \<and> (\<exists>answer dropped. fst (policy_search (demo_sql_policy 0) (Some ray) (u ''hi'') None 1 (Float_value 0) (start demo_sql)) =
        Inr answer
      \<and> ranked (hits_of (keyword_rank plain_ucd) (u ''hi'') None [demo_memory [97], demo_memory [97, 97]]) answer dropped)"
proof -
  have arg: "search_arguments (u ''hi'') 1 (Float_value 0) = Inr ()"
    by (simp add: eval_simps)
  from search_ranked [OF demo_backend served_demo(2) demo_sql_policy_sel(1) demo_sql_policy_sel(2)
      served_demo_sql arg demo_scope, of ray]
  show ?thesis by (fastforce simp: held_demo_sql ray_def)
qed

section \<open>Sessions\<close>

text \<open>
  Property C24: the SQLite backend refines the abstract store. Whatever a session
  of requests does to the tables, errors and refusals included, is a sequence of abstract steps (a
  memory added under a fresh id, one updated with its history extended, some removed with their
  histories), and the tables stay well formed.
\<close>

theorem sqlite_session_refines:
  assumes "pol_backend P = sqlite_backend U (Suc n)" and "sq_inv (store s)"
  shows "sq_inv (store (run_session P rs s))
    \<and> any_step\<^sup>*\<^sup>* (sq_abs (store s)) (sq_abs (store (run_session P rs s)))"
  using assms by (rule sqlite.session_steps)

theorem sqlite_session_refines_witness:
  "any_step\<^sup>*\<^sup>* (sq_abs (store (start demo_sql)))
     (sq_abs (store (run_session (demo_sql_policy 0) [(Some ann, Delete [97])] (start demo_sql))))"
proof -
  have "sq_inv (store (start demo_sql))" using demo_sql_inv by (simp add: start_def)
  from sqlite_session_refines [OF demo_sql_policy_sel(1) this] show ?thesis by blast
qed

text \<open>
  Property C25: after any session over a SQLite file, the history of every memory
  a key can get tells how it came to be: created first, at the time the memory gives, then only
  updates, each starting from the content the entry before left; the last entry holds the
  memory's content, author and time.
\<close>

theorem history_tells_story:
  assumes "pol_backend P = sqlite_backend U (Suc n)" and "served_sql s" and "told (sq_abs (store s))"
    and "fst (policy_get P (Some key) i (run_session P rs s)) = Inr m"
  shows "\<exists>trail. fst (policy_history P (Some key) i (run_session P rs s)) = Inr trail \<and> tells trail m"
  using assms by (rule sqlite.session_tells)

theorem history_tells_story_witness:
  "\<exists>trail. fst (policy_history (demo_sql_policy 0) (Some ray) [97] (start demo_sql)) = Inr trail
     \<and> tells trail (demo_memory [97])"
proof -
  have "fst (policy_get (demo_sql_policy 0) (Some ray) [97] (start demo_sql)) = Inr (demo_memory [97])"
    using held_demo_sql [of "u ''red''"]
    by (simp add: sqlite.policy_get_run(1) [OF demo_sql_policy_sel(1) served_demo_sql] spec_get_def
        lookup_result_def is_memory_id_def is_id_char_def) (simp add: demo_memory_def)
  then show ?thesis
    using history_tells_story [OF demo_sql_policy_sel(1) served_demo_sql told_demo_sql, where rs = "[]"]
    by simp
qed

section \<open>Failures\<close>

text \<open>\<open>leaves_file m w\<close>: if \<open>m\<close> raises, the tables are those of \<open>w\<close>.\<close>

definition leaves_file :: "(sql_store, 'a) act \<Rightarrow> sql_store \<Rightarrow> bool" where
  "leaves_file m w \<longleftrightarrow> wp m (\<lambda>_ _. True) (\<lambda>_ w'. db_file w' = db_file w) w"

lemma leaves_fileD: "leaves_file m w \<Longrightarrow> fst (m w) = Inl e \<Longrightarrow> db_file (snd (m w)) = db_file w"
  by (cases "m w") (simp add: leaves_file_def wp_def)

lemma wp_transaction [wp_simps]: "wp (transaction m) Q E w = wp m Q (\<lambda>e _. E e w) w"
  by (simp add: wp_def transaction_def split: prod.splits sum.splits)

lemma wp_draws [wp_simps]:
  "wp sq_uuid4 Q E w = Q (uuid4 (db_env w) (ticks (db_env w))) (w\<lparr>db_env := (db_env w)\<lparr>ticks := Suc (ticks (db_env w))\<rparr>\<rparr>)"
  "wp sq_now Q E w = Q (clock (db_env w) (ticks (db_env w))) (w\<lparr>db_env := (db_env w)\<lparr>ticks := Suc (ticks (db_env w))\<rparr>\<rparr>)"
  by (simp_all add: wp_def sq_uuid4_def sq_now_def)

lemma find_update_row:
  "find (\<lambda>r. mr_id r = i \<and> mr_user_id r = p) (map (update_row k c now md sy) rows) =
   map_option (update_row k c now md sy) (find (\<lambda>r. mr_id r = i \<and> mr_user_id r = p) rows)"
  by (induction rows) simp_all

text \<open>The row an update has just written is still there to read back.\<close>

lemma update_op_leaves_file: "db_file w' = db_file w \<Longrightarrow>
    wp (sq_update_op p i co pt sy now) (\<lambda>_ _. True) (\<lambda>_ v. db_file v = db_file w) w'"
  by (simp add: sq_update_op_def wp_simps update_memory_def insert_history_def Let_def
      owned_row_def find_update_row split: option.split)

lemma writes_leave_file:
  "leaves_file (sq_add p c sc md infer sy) w" "leaves_file (sq_update p i co pt sy) w"
  "leaves_file (sq_delete vars p i) w" "leaves_file (sq_delete_all vars p d) w"
proof -
  show "leaves_file (sq_add p c sc md infer sy) w"
    by (simp add: leaves_file_def sq_add_def sq_add_op_def wp_simps run_op_def insert_memory_def
        insert_history_def split: sum.split)
  show "leaves_file (sq_update p i co pt sy) w"
    by (simp add: leaves_file_def sq_update_def wp_simps run_op_def update_op_leaves_file split: sum.split)
  show "leaves_file (sq_delete vars p i) w"
    by (simp add: leaves_file_def sq_delete_def wp_simps run_op_def delete_memories_def
        delete_history_def split: sum.split)
  show "leaves_file (sq_delete_all vars p d) w"
    by (simp add: leaves_file_def sq_delete_all_def wp_simps run_op_def delete_memories_def
        delete_history_def Let_def split: sum.split)
qed

text \<open>
  Property C26: a write is all or nothing. Whatever state the backend is in, and
  whichever statement of the operation fails (a clashing id, a closed connection, too many variables,
  a disk that takes the first table's change and refuses the second's), an operation that raises
  leaves both tables as they were; a read never touches them.
\<close>

theorem sqlite_failure_keeps_tables:
  "(fst (sq_add p c sc md infer sy w) = Inl e \<longrightarrow> db_file (snd (sq_add p c sc md infer sy w)) = db_file w)
   \<and> (fst (sq_update p i co pt sy w) = Inl e \<longrightarrow> db_file (snd (sq_update p i co pt sy w)) = db_file w)
   \<and> (fst (sq_delete vars p i w) = Inl e \<longrightarrow> db_file (snd (sq_delete vars p i w)) = db_file w)
   \<and> (fst (sq_delete_all vars p d w) = Inl e \<longrightarrow> db_file (snd (sq_delete_all vars p d w)) = db_file w)
   \<and> db_file (snd (sq_get p i w)) = db_file w
   \<and> db_file (snd (sq_search U p q sc l th w)) = db_file w
   \<and> db_file (snd (sq_list_memories p sc l cu w)) = db_file w
   \<and> db_file (snd (sq_history p i w)) = db_file w"
  by (intro conjI impI; (rule leaves_fileD [OF writes_leave_file(1)] leaves_fileD [OF writes_leave_file(2)]
        leaves_fileD [OF writes_leave_file(3)] leaves_fileD [OF writes_leave_file(4)], assumption)?)
    (auto simp: sq_get_def sq_search_def sq_list_memories_def sq_history_def sq_run split: sum.splits)

text \<open>A disk with no room for a third history row: the memory is inserted, its history is not.\<close>

definition full_disk :: sql_store where
  "full_disk = demo_sql\<lparr>db_fails := \<lambda>f. length (t_history f) > 2\<rparr>"

lemma full_disk_fails:
  "fst (sq_add (u ''red'') (u ''ho'') None None False None full_disk) = Inl OperationalError"
  by (simp add: sq_add_def sq_add_op_def sq_run insert_memory_def insert_history_def full_disk_def demo_sql_def
      sqlite_init_def create_schema_def demo_file_def demo_row_def demo_sql_env_def reject_scope_def
      dict_keys_def clean_keys_def eval_nat_numeral)

theorem sqlite_failure_keeps_tables_witness:
  "fst (insert_memory (demo_row 3 [98]) full_disk) = Inr ()
   \<and> fst (sq_add (u ''red'') (u ''ho'') None None False None full_disk) = Inl OperationalError
   \<and> db_file (snd (sq_add (u ''red'') (u ''ho'') None None False None full_disk)) = demo_file"
proof -
  have "fst (insert_memory (demo_row 3 [98]) full_disk) = Inr ()"
    by (simp add: insert_memory_def act_simps full_disk_def demo_sql_def sqlite_init_def create_schema_def
        demo_file_def demo_row_def)
  moreover have "db_file full_disk = demo_file"
    by (simp add: full_disk_def demo_sql_def sqlite_init_def create_schema_def)
  ultimately show ?thesis
    using sqlite_failure_keeps_tables [where p = "u ''red''" and c = "u ''ho''" and sc = None and md = None
        and infer = False and sy = None and w = full_disk and e = OperationalError and i = "[]" and co = None
        and pt = None and vars = 0 and d = "[]" and U = plain_ucd and q = "[]" and l = 0 and th = Float_nan
        and cu = None] full_disk_fails
    by (simp only: simp_thms)
qed

section \<open>The file outlives the process\<close>

lemma reopened:
  assumes "sq_inv w" and "inj (uuid4 en)"
    and "\<forall>n \<ge> ticks en. uuid4 en n \<notin> mr_id ` set (t_memories (db_file w))"
  shows "sq_inv (sqlite_init (Some (db_file (snd (sq_close w)))) en timer reliable)"
    and "sq_abs (sqlite_init (Some (db_file (snd (sq_close w)))) en timer reliable) = sq_abs w"
  using assms
  by (simp_all add: sq_close_def act_simps sqlite_init_def create_schema_def sq_inv_def sq_abs_def
      user_rows_def)

text \<open>What an operation of a closed backend raises, its arguments checked first.\<close>

definition refused_or_closed :: "exc + unit \<Rightarrow> exc" where
  "refused_or_closed checks = (case checks of Inl e \<Rightarrow> e | Inr x \<Rightarrow> ProgrammingError)"

lemma closed_fails:
  assumes "\<not> db_open w"
  shows "fst (sq_add p c sc md infer sy w) = Inl (refused_or_closed
      (res_bind (reject_scope sc) (\<lambda>_. refuse_reserved_metadata (dict_keys (or_empty md)))))"
    and "fst (sq_search U p q sc l th w) = Inl (refused_or_closed (reject_scope sc))"
    and "fst (sq_update p i co pt sy w) = Inl (refused_or_closed
      (case pt of None \<Rightarrow> Inr () | Some x \<Rightarrow> refuse_reserved_metadata (patch_keys x)))"
    and "fst (sq_delete_all vars p d w) = Inl (refused_or_closed (raising (reject_nested_filters d)))"
    and "fst (sq_get p i w) = Inl ProgrammingError" "fst (sq_delete vars p i w) = Inl ProgrammingError"
    and "fst (sq_list_memories p sc l cu w) = Inl ProgrammingError"
    and "fst (sq_history p i w) = Inl ProgrammingError"
    and "map_sum id hs_status (fst (sq_health w)) = Inr (u ''unhealthy'')"
proof -
  show "fst (sq_add p c sc md infer sy w) = Inl (refused_or_closed
      (res_bind (reject_scope sc) (\<lambda>_. refuse_reserved_metadata (dict_keys (or_empty md)))))"
    using assms by (cases "reject_scope sc"; cases "refuse_reserved_metadata (dict_keys (or_empty md))")
      (simp_all add: sq_add_def sq_run refused_or_closed_def del: reject_scope_ok refuse_reserved_metadata_ok)
  show "fst (sq_search U p q sc l th w) = Inl (refused_or_closed (reject_scope sc))"
    using assms by (cases "reject_scope sc") (simp_all add: sq_search_def sq_run refused_or_closed_def del: reject_scope_ok)
  show "fst (sq_update p i co pt sy w) = Inl (refused_or_closed
      (case pt of None \<Rightarrow> Inr () | Some x \<Rightarrow> refuse_reserved_metadata (patch_keys x)))"
    using assms
    by (cases "case pt of None \<Rightarrow> Inr () | Some x \<Rightarrow> refuse_reserved_metadata (patch_keys x)")
      (simp_all add: sq_update_def sq_run refused_or_closed_def)
  show "fst (sq_delete_all vars p d w) = Inl (refused_or_closed (raising (reject_nested_filters d)))"
    using assms by (cases "reject_nested_filters d")
      (simp_all add: sq_delete_all_def sq_run refused_or_closed_def del: reject_nested_filters_ok)
qed (simp_all add: assms sq_get_def sq_delete_def sq_list_memories_def sq_history_def sq_health_def
    sq_perf_counter_def sq_run)

text \<open>
  Property C27: closing the backend and opening the file again loses nothing. The
  reopened tables are well formed and hold the same memories and histories, so policy answers every
  read as before; in between, every operation whose arguments pass its checks fails with
  \<open>ProgrammingError\<close>, one whose arguments do not is refused as ever, and \<open>health\<close> says unhealthy.
\<close>

theorem sqlite_survives_restart:
  assumes "pol_backend P = sqlite_backend U (Suc n)" and "served_sql s" and "inj (uuid4 en)"
    and "\<forall>n \<ge> ticks en. uuid4 en n \<notin> mr_id ` set (t_memories (db_file (store s)))"
    and "w = snd (sq_close (store s))"
    and "t = s\<lparr>store := sqlite_init (Some (db_file w)) en timer reliable\<rparr>" and "plain_read r"
  shows "served_sql t \<and> sq_abs (store t) = sq_abs (store s)
    \<and> fst (perform P (Some key) r t) = fst (perform P (Some key) r s)
    \<and> fst (sq_add p c sc md infer sy w) = Inl (refused_or_closed
        (res_bind (reject_scope sc) (\<lambda>_. refuse_reserved_metadata (dict_keys (or_empty md)))))
    \<and> fst (sq_search U p q sc l th w) = Inl (refused_or_closed (reject_scope sc))
    \<and> fst (sq_update p i co pt sy w) = Inl (refused_or_closed
        (case pt of None \<Rightarrow> Inr () | Some x \<Rightarrow> refuse_reserved_metadata (patch_keys x)))
    \<and> fst (sq_delete_all vars p d w) = Inl (refused_or_closed (raising (reject_nested_filters d)))
    \<and> fst (sq_get p i w) = Inl ProgrammingError
    \<and> fst (sq_delete vars p i w) = Inl ProgrammingError
    \<and> fst (sq_list_memories p sc l cu w) = Inl ProgrammingError
    \<and> fst (sq_history p i w) = Inl ProgrammingError
    \<and> map_sum id hs_status (fst (sq_health w)) = Inr (u ''unhealthy'')"
proof -
  have inv: "sq_inv (store s)" using assms(2) by (simp add: well_stamped_def)
  have t: "served_sql t" "sq_abs (store t) = sq_abs (store s)"
    using reopened [OF inv assms(3,4), of timer] assms(2) by (simp_all add: assms(5,6) well_stamped_def)
  have "view (space_of key) (sq_abs (store t)) = view (space_of key) (sq_abs (store s))"
    by (simp add: t(2))
  then have "fst (perform P (Some key) r t) = fst (perform P (Some key) r s)"
    by (rule sqlite.read_view [OF assms(1) t(1) assms(2,7)])
  moreover have "\<not> db_open w" by (simp add: assms(5) sq_close_def act_simps)
  ultimately show ?thesis
    using t by (simp add: closed_fails)
qed

lemma demo_sql_ids: "\<forall>n \<ge> 2. replicate (Suc n) (97 :: int) \<notin> mr_id ` set (t_memories (db_file demo_sql))"
  using demo_sql_inv by (simp add: sq_inv_def) (simp add: demo_sql_def sqlite_init_def demo_sql_env_def)

theorem sqlite_survives_restart_witness:
  "fst (perform (demo_sql_policy 0) (Some ray) Export
      ((start demo_sql)\<lparr>store := sqlite_init (Some (db_file (snd (sq_close demo_sql)))) demo_sql_env (\<lambda>_. 1) reliable\<rparr>)) =
    fst (perform (demo_sql_policy 0) (Some ray) Export (start demo_sql))"
proof -
  have store: "store (start demo_sql) = demo_sql" by (simp add: start_def)
  have ids: "inj (uuid4 demo_sql_env)"
    "\<forall>n \<ge> ticks demo_sql_env. uuid4 demo_sql_env n \<notin> mr_id ` set (t_memories (db_file (store (start demo_sql))))"
    using inj_demo demo_sql_ids unfolding store by (simp_all add: demo_sql_env_def)
  show ?thesis
    using sqlite_survives_restart [OF demo_sql_policy_sel(1) served_demo_sql ids refl refl, of Export]
    unfolding store by simp
qed

section \<open>How much one call can delete\<close>

text \<open>
  Property C29: a bulk delete binds one SQL variable per memory. Up to the library's
  limit it removes exactly the memories of the space in the scope and answers their number; past
  it the whole request fails with \<open>OperationalError\<close>, and nothing is deleted.
\<close>

theorem sqlite_bulk_limit:
  assumes "pol_backend P = sqlite_backend U (Suc n)" and "served_sql s" and "writer key"
    and "validate_scope (JObj d) (pol_scope_keys P) = Inr (Some d')" and "d' \<noteq> []"
  shows "if length (filter (matching (Some d')) (held_sql s (space_of key))) \<le> Suc n
    then fst (policy_delete_all P (Some key) d s) =
          Inr (Some (int (length (filter (matching (Some d')) (held_sql s (space_of key))))))
      \<and> held_sql (snd (policy_delete_all P (Some key) d s)) (space_of key) =
          filter (\<lambda>m. \<not> matching (Some d') m) (held_sql s (space_of key))
    else fst (policy_delete_all P (Some key) d s) = Inl OperationalError
      \<and> store (snd (policy_delete_all P (Some key) d s)) = store s"
proof -
  have inv: "sq_inv (store s)" using assms(2) by (simp add: well_stamped_def)
  have nest: "fst ` set d' \<inter> NESTED_FILTER_KEYS = {}"
    using sqlite.accepted_not_nested [OF assms(4)] by simp
  show ?thesis
  proof (cases "length (filter (matching (Some d')) (held_sql s (space_of key))) \<le> Suc n")
    case True
    with sqlite.policy_delete_all_run [OF assms(1) inv assms(3-5) True] show ?thesis
      by (simp add: spec_remove_def)
  next
    case False
    then have "sq_delete_all (Suc n) (space_of key) d' (store s) = (Inl OperationalError, store s)"
      using inv nest by (intro sq_delete_all_overflows) simp_all
    then have "b_delete_all (pol_backend P) (space_of key) d' (store s) = (Inl OperationalError, store s)"
      by (simp add: assms(1) sqlite_backend_def)
    with False assms(3-5) show ?thesis
      by (simp add: policy_delete_all_def delete_all_body_def act_simps Let_def sqlite.checked_scope_run
          scope_json_def)
  qed
qed

theorem sqlite_bulk_limit_witness:
  "fst (policy_delete_all (demo_sql_policy 0) (Some ann) bot_scope (start demo_sql)) = Inl OperationalError
   \<and> fst (policy_delete_all (demo_sql_policy 1) (Some ann) bot_scope (start demo_sql)) = Inr (Some 2)"
proof -
  have ok: "validate_scope (JObj bot_scope) (pol_scope_keys (demo_sql_policy n)) = Inr (Some bot_scope)" for n
    using demo_bot by simp
  have ne: "bot_scope \<noteq> []" by (simp add: bot_scope_def)
  have "matching (Some bot_scope) (demo_memory i)" for i
    by (simp add: matching_def scope_contains_def bot_scope_def demo_memory_def)
  then have two: "filter (matching (Some bot_scope)) (held_sql (start demo_sql) (u ''red'')) =
      [demo_memory [97], demo_memory [97, 97]]"
    by (simp add: held_demo_sql)
  show ?thesis
    using sqlite_bulk_limit [OF demo_sql_policy_sel(1) served_demo_sql demo_keys(4) ok ne, of 0] two
      sqlite_bulk_limit [OF demo_sql_policy_sel(1) served_demo_sql demo_keys(4) ok ne, of 1]
    by simp
qed

end
