(* ===== verification/Moving.thy ===== *)
theory Moving
  imports Durable
begin

text \<open>
  What import and migration do: the identity two memories share, the account an import gives of
  every entry (any backend), and, over a storing backend, what skip, overwrite and a copy into
  another partition leave in the store.
\<close>

section \<open>Dedup identity\<close>

text \<open>A scope key as the identity sees it: null is absent, other values are their text.\<close>

definition shown :: "scope \<Rightarrow> pystr \<Rightarrow> pystr option" where
  "shown d k = (case map_of d k of None \<Rightarrow> None | Some v \<Rightarrow> if v = JNull then None else Some (scope_text v))"

definition shown_items :: "scope \<Rightarrow> (pystr \<times> pystr) list" where
  "shown_items d = map (\<lambda>(k, v). (k, scope_text v)) (filter (\<lambda>(k, v). v \<noteq> JNull) d)"

lemma scope_key_items: "scope_key (Some d) = sort (shown_items d)"
  by (simp add: scope_key_def shown_items_def)

lemma shown_items_keys: "map fst (shown_items d) = map fst (filter (\<lambda>(k, v). v \<noteq> JNull) d)"
  by (simp add: shown_items_def comp_def split_def)

lemma distinct_shown_items: "wf_dict d \<Longrightarrow> distinct (shown_items d)"
proof -
  assume "wf_dict d"
  then have "distinct (map fst (shown_items d))"
    unfolding shown_items_keys by (metis wf_dict_filter wf_dict_def)
  then show "distinct (shown_items d)" by (simp add: distinct_map)
qed

lemma set_shown_items:
  "wf_dict d \<Longrightarrow> (k, t) \<in> set (shown_items d) \<longleftrightarrow> shown d k = Some t"
  by (force simp: shown_items_def shown_def map_of_wf_in_set split: option.splits)

text \<open>
  An import takes an entry for a memory that exists exactly when the
  content is the same and the scopes agree key by key on their values as text, whatever their
  order, a null counting as absent.
\<close>

theorem dedup_identity:
  assumes "wf_dict a" and "wf_dict b"
  shows "dedup_key c (Some a) = dedup_key c' (Some b) \<longleftrightarrow> c = c' \<and> (\<forall>k. shown a k = shown b k)"
proof -
  have "scope_key (Some a) = scope_key (Some b) \<longleftrightarrow> set (shown_items a) = set (shown_items b)"
  proof
    assume "scope_key (Some a) = scope_key (Some b)"
    then show "set (shown_items a) = set (shown_items b)"
      unfolding scope_key_items by (metis set_sort)
  next
    assume "set (shown_items a) = set (shown_items b)"
    then show "scope_key (Some a) = scope_key (Some b)"
      unfolding scope_key_items
      using assms by (intro sorted_distinct_set_unique) (simp_all add: distinct_shown_items)
  qed
  also have "\<dots> \<longleftrightarrow> (\<forall>k t. shown a k = Some t \<longleftrightarrow> shown b k = Some t)"
    using set_shown_items [OF assms(1)] set_shown_items [OF assms(2)] by auto
  also have "\<dots> \<longleftrightarrow> (\<forall>k. shown a k = shown b k)"
    by (metis option.exhaust option.inject)
  finally show ?thesis by (auto simp: dedup_key_def)
qed

theorem dedup_identity_witness:
  "dedup_key (u ''hi'') (Some [(u ''b'', JInt 1), (u ''a'', JStr (u ''x'')), (u ''c'', JNull)]) =
   dedup_key (u ''hi'') (Some [(u ''a'', JStr (u ''x'')), (u ''b'', JStr (int_str 1))])"
  by (subst dedup_identity) (auto simp: wf_dict_def shown_def)

section \<open>Every entry is accounted for\<close>

definition indices :: "import_outcome \<Rightarrow> nat set" where
  "indices x = (\<lambda>(j, i, a). i) ` set (imported x) \<union> fst ` set (skipped x) \<union> fst ` set (errors x)"

lemma indices_add [simp]:
  "indices (is_outcome (add_error i m x)) = insert i (indices (is_outcome x))"
  "indices (is_outcome (add_skipped i j x)) = insert i (indices (is_outcome x))"
  "indices (is_outcome (add_imported key m' j i a x)) = insert i (indices (is_outcome x))"
  by (auto simp: indices_def add_error_def add_skipped_def add_imported_def)

lemma indices_failures [simp]: "indices (is_outcome (x\<lparr>is_failures := n\<rparr>)) = indices (is_outcome x)"
  by simp

lemma ensures_failure:
  "ensures (record_backend_failure i status body x) (\<lambda>y. indices (is_outcome y) = insert i (indices (is_outcome x)))"
  by (auto simp: record_backend_failure_def intro!: ensures_rules)

lemma ensures_overwrite:
  "ensures (import_overwrite B p stamp op i key content md dup x)
     (\<lambda>y. indices (is_outcome y) = insert i (indices (is_outcome x)))"
  unfolding import_overwrite_def
  by (intro ensures_seq) (auto intro!: ensures_seq ensures_ret ensures_failure split: sum.split)

lemma ensures_read_back:
  "ensures (import_read_back B p op i key rs x)
     (\<lambda>y. indices (is_outcome y) = (if rs = [] then {} else {i}) \<union> indices (is_outcome x))"
proof (induction rs arbitrary: x)
  case Nil
  then show ?case by (simp add: ensures_ret)
next
  case (Cons r rs)
  have step: "ensures (case g of Inl (status, body) \<Rightarrow> record_backend_failure i status body x
      | Inr stored \<Rightarrow> seq (check_space stored p op (r_id r)) (\<lambda>m. ret (add_imported key m (r_id r) i Created x)))
      (\<lambda>y. indices (is_outcome y) = insert i (indices (is_outcome x)))" for g
    by (auto intro!: ensures_seq ensures_ret ensures_failure split: sum.split)
  show ?case
    unfolding import_read_back.simps
    by (rule ensures_seq, rule ensures_seq_with [OF step], rule ensures_mono [OF Cons.IH]) auto
qed

lemma ensures_create:
  "ensures (import_create B p stamp op i key content sc md x)
     (\<lambda>y. indices (is_outcome y) = insert i (indices (is_outcome x)))"
proof -
  have "ensures (import_read_back B p op i key (add_items r) x)
     (\<lambda>y. indices (is_outcome y) = insert i (indices (is_outcome x)))" if "add_truthy r" for r
    by (rule ensures_mono [OF ensures_read_back])
      (use that in \<open>auto simp: add_truthy_def add_items_def split: add_return.splits\<close>)
  then show ?thesis
    unfolding import_create_def
    by (auto intro!: ensures_seq ensures_ret ensures_failure ensures_if split: sum.split)
qed

lemma ensures_import_one:
  "ensures (import_one B p on_conflict validator stamp op i e x)
     (\<lambda>y. indices (is_outcome y) = insert i (indices (is_outcome x)))"
  by (auto simp: import_one_def Let_def
      intro!: ensures_ret ensures_overwrite ensures_create split: sum.split option.split)

lemma ensures_import_loop:
  "ensures (import_loop B p on_conflict validator stamp op i es x)
     (\<lambda>y. indices (is_outcome y) = {i..<i + length es} \<union> indices (is_outcome x))"
proof (induction es arbitrary: i x)
  case Nil
  then show ?case by (simp add: ensures_ret)
next
  case (Cons e es)
  have "{i..<i + length (e # es)} = insert i {Suc i..<Suc i + length es}" by auto
  then show ?case
    unfolding import_loop.simps
    by (intro ensures_seq_with [OF ensures_import_one] ensures_mono [OF Cons.IH]) auto
qed

text \<open>
  Property C19: an import that returns accounts for every entry: each index of the
  batch occurs among the imported, the skipped or the errors, and no other index does, over any
  backend and in any conflict mode.
\<close>

theorem import_accounts_for_all:
  assumes "import_payload B p entries on_conflict validator limit stamp op s = (Inr outcome, t)"
  shows "indices outcome = {0..<length entries}"
proof -
  have "ensures (import_payload B p entries on_conflict validator limit stamp op)
      (\<lambda>y. indices y = {0..<length entries})"
    unfolding import_payload_def
    by (rule ensures_seq, rule ensures_seq, clarify, rule ensures_seq_with [OF ensures_import_loop],
        rule ensures_seq, rule ensures_ret) (auto simp: no_outcome_def indices_def)
  then show ?thesis using assms by (rule ensuresD)
qed

theorem import_accounts_for_all_witness:
  "\<exists>outcome. fst (import_payload (in_memory_backend plain_ucd) (u ''red'') [read_entry []] (u ''duplicate'')
      scope_as_given 10 None (u ''import'') (start demo_env)) = Inr outcome \<and> indices outcome = {0}"
proof -
  have "import_payload (in_memory_backend plain_ucd) (u ''red'') [read_entry []] (u ''duplicate'')
      scope_as_given 10 None (u ''import'') (start demo_env) =
    (Inr (no_outcome False \<lparr>errors := [(0, Transfer_msg Missing_content)]\<rparr>), start demo_env)"
    by (simp add: import_payload_def act_simps refuse_on_conflict_def ON_CONFLICT_CHOICES_def read_entry_def
        import_one_def check_entry_def entry_content_def add_error_def no_outcome_def)
  from import_accounts_for_all [OF this] this show ?thesis by auto
qed

section \<open>Import over a storing backend\<close>

definition memory_key :: "memory \<Rightarrow> dedup" where
  "memory_key m = dedup_key (m_content m) (Some (m_scope m))"

lemma index_memories_Some:
  "map_of (index_memories ms) k = Some m \<Longrightarrow> m \<in> set ms \<and> memory_key m = k"
proof -
  have "map_of (fold (\<lambda>m. dict_set (dedup_key (m_content m) (Some (m_scope m))) m) ms d) k = Some m \<Longrightarrow>
      (m \<in> set ms \<and> memory_key m = k) \<or> map_of d k = Some m" for d
    by (induction ms arbitrary: d) (fastforce simp: memory_key_def split: if_splits)+
  then show "map_of (index_memories ms) k = Some m \<Longrightarrow> m \<in> set ms \<and> memory_key m = k"
    unfolding index_memories_def by fastforce
qed

lemma dom_index_memories: "dom (map_of (index_memories ms)) = memory_key ` set ms"
proof -
  have "dom (map_of (fold (\<lambda>m. dict_set (dedup_key (m_content m) (Some (m_scope m))) m) ms d)) =
      memory_key ` set ms \<union> dom (map_of d)" for d
    by (induction ms arbitrary: d) (auto simp: memory_key_def)
  then show ?thesis by (simp add: index_memories_def)
qed

lemma scope_key_text: "JNull \<notin> snd ` set d \<Longrightarrow> scope_key (Some (scope_as_text d)) = scope_key (Some d)"
proof -
  assume "JNull \<notin> snd ` set d"
  then have "filter (\<lambda>(k, v). v \<noteq> JNull) d = d" by (force simp: filter_id_conv)
  moreover have "filter (\<lambda>(k, v). v \<noteq> JNull) (scope_as_text d) = scope_as_text d"
    by (auto simp: filter_id_conv scope_as_text_def)
  ultimately show ?thesis
    by (simp add: scope_key_def) (simp add: scope_as_text_def comp_def split_def)
qed

lemma dedup_key_text:
  assumes "\<And>d. sc = Some d \<Longrightarrow> JNull \<notin> snd ` set d"
  shows "dedup_key c (Some (scope_as_text (or_empty sc))) = dedup_key c sc"
proof (cases sc)
  case None
  then show ?thesis by (simp add: dedup_key_def scope_key_def scope_as_text_def)
next
  case (Some d)
  with assms show ?thesis by (simp add: dedup_key_def scope_key_text)
qed

text \<open>A scope validator whose scopes the backend takes and whose values are never null.\<close>

definition good_validator :: "scope_validator \<Rightarrow> bool" where
  "good_validator v \<longleftrightarrow> (\<forall>j d. v j = Inr (Some d) \<longrightarrow>
     JNull \<notin> snd ` set d \<and> fst ` set d \<inter> NESTED_FILTER_KEYS = {})"

lemma good_validator_entry: "good_validator (validate_entry_scope P)"
proof -
  have "JNull \<notin> snd ` set d \<and> fst ` set d \<inter> NESTED_FILTER_KEYS = {}"
    if "validate_scope j ks = Inr (Some d)" for j d ks
    using validate_scope_accepted [OF that]
    by (auto simp: scope_accepted_def clean_item_def is_wildcard_def)
  moreover have "validate_scope j (pol_scope_keys P) = Inr (Some d)"
    if "validate_entry_scope P j = Inr (Some d)" for j d
    using that by (simp add: validate_entry_scope_def split: sum.splits prod.splits)
  ultimately show ?thesis unfolding good_validator_def by blast
qed

lemma check_entry_scope:
  assumes "good_validator v" and "check_entry v x = Inr (c, sc, md)"
  shows "fst ` set (or_empty sc) \<inter> NESTED_FILTER_KEYS = {}"
    and "sc = Some d \<Longrightarrow> JNull \<notin> snd ` set d"
    and "clean_keys (dict_keys (or_empty md))"
proof -
  have sc: "entry_scope v x = Inr sc" and md: "entry_metadata x = Inr md"
    using assms(2) by (auto simp: check_entry_ok)
  have "sc = None \<or> (\<exists>j. v j = Inr sc)"
    using sc by (auto simp: entry_scope_def split: option.splits if_splits)
  then have good: "JNull \<notin> snd ` set d \<and> fst ` set d \<inter> NESTED_FILTER_KEYS = {}" if "sc = Some d" for d
    using assms(1) that unfolding good_validator_def by blast
  then show "sc = Some d \<Longrightarrow> JNull \<notin> snd ` set d" by blast
  show "fst ` set (or_empty sc) \<inter> NESTED_FILTER_KEYS = {}"
    using good by (cases sc) simp_all
  show "clean_keys (dict_keys (or_empty md))" by (rule entry_metadata_clean [OF md])
qed

text \<open>What a backend needs of an entry that passed.\<close>

definition storable :: "pystr \<times> scope option \<times> metadata option \<Rightarrow> bool" where
  "storable e \<longleftrightarrow> (case e of (c, sc, md) \<Rightarrow>
     fst ` set (or_empty sc) \<inter> NESTED_FILTER_KEYS = {} \<and> clean_keys (dict_keys (or_empty md)))"

lemma storable_entry: "good_validator v \<Longrightarrow> check_entry v x = Inr e \<Longrightarrow> storable e"
  by (cases e) (simp add: storable_def check_entry_scope)

text \<open>The memory an entry becomes.\<close>

definition stored_as :: "pystr \<Rightarrow> pystr \<times> scope option \<times> metadata option \<Rightarrow> system \<Rightarrow> memory \<Rightarrow> bool" where
  "stored_as p e sy m \<longleftrightarrow>
     (case e of (c, sc, md) \<Rightarrow>
        m_content m = c \<and> m_scope m = scope_as_text (or_empty sc) \<and> m_metadata m = or_empty md
        \<and> m_system m = sy \<and> m_partition m = p \<and> m_score m = None \<and> m_updated_at m = None)"

context storing_backend
begin

lemma import_create_run:
  assumes w: "well_stamped inv abs (store s)" and f: "\<And>i sy. stamped p (f i sy)"
    and e: "storable (c, sc, md)"
  shows "\<exists>m t. import_create B p (Some f) op i key c sc md acc s = (Inr (add_imported key m (m_id m) i Created acc), t)
      \<and> well_stamped inv abs (store t) \<and> abs (store t) = spec_add p m (abs (store s))
      \<and> stored_as p (c, sc, md) (f i None) m"
proof -
  have inv: "inv (store s)" using w by (simp add: well_stamped_def)
  have entry: "fst ` set (or_empty sc) \<inter> NESTED_FILTER_KEYS = {}" "clean_keys (dict_keys (or_empty md))"
    using e by (simp_all add: storable_def)
  obtain j now w' where add: "b_add B p c sc md False (Some (f i None)) (store s) =
      (Inr (Many [\<lparr>r_id = j, r_status = u ''ready'', r_created_at = now, r_event = Ev_add\<rparr>]), w')"
    and inv': "inv w'" and fresh: "\<forall>q. j \<notin> m_id ` set (sp_listing (abs (store s)) q)"
    and abs': "abs w' = spec_add p
            \<lparr>m_id = j, m_content = c, m_score = None, m_scope = scope_as_text (or_empty sc),
             m_metadata = or_empty md, m_created_at = now, m_updated_at = None,
             m_partition = p, m_system = f i None\<rparr> (abs (store s))"
    using add_refines [OF inv entry(2) entry(1), of p c False "Some (f i None)"] by auto
  let ?m = "\<lparr>m_id = j, m_content = c, m_score = None, m_scope = scope_as_text (or_empty sc),
             m_metadata = or_empty md, m_created_at = now, m_updated_at = None,
             m_partition = p, m_system = f i None\<rparr>"
  have get: "spec_get p j (abs w') = Some ?m" unfolding abs' using fresh by (intro spec_get_added) simp_all
  have space: "in_space ?m p" using f by (simp add: in_space_def stamped_def)
  have "import_create B p (Some f) op i key c sc md acc s =
      (Inr (add_imported key ?m (m_id ?m) i Created acc), s\<lparr>store := w'\<rparr>)"
    by (simp add: import_create_def attempt_def act_simps add add_truthy_def add_items_def
        get_refines [OF inv'] get check_space_run space)
  moreover have "well_stamped inv abs w'"
    using w inv' abs' space by (simp add: well_stamped_def stamped_spec_add)
  ultimately show ?thesis
    using abs' by (intro exI [of _ ?m] exI [of _ "s\<lparr>store := w'\<rparr>"]) (simp add: stored_as_def)
qed

lemma build_dedup_index_run:
  assumes "well_stamped inv abs (store s)" and "0 \<le> limit"
  shows "build_dedup_index B p limit op s =
     (Inr (index_memories (take (nat limit) (sp_listing (abs (store s)) p)),
           int (length (sp_listing (abs (store s)) p)) > limit), s)"
  by (simp add: build_dedup_index_def act_simps list_all_run [OF assms])

lemma import_one_skip:
  assumes w: "well_stamped inv abs (store s)" and f: "\<And>i sy. stamped p (f i sy)"
    and v: "good_validator v"
    and known: "dom (map_of (is_existing acc)) \<subseteq> memory_key ` set (sp_listing (abs (store s)) p)"
  shows "\<exists>acc1 t. import_one B p (u ''skip'') v (Some f) op i x acc s = (Inr acc1, t)
      \<and> well_stamped inv abs (store t)
      \<and> memory_key ` set (sp_listing (abs (store s)) p) \<subseteq> memory_key ` set (sp_listing (abs (store t)) p)
      \<and> dom (map_of (is_existing acc1)) \<subseteq> memory_key ` set (sp_listing (abs (store t)) p)
      \<and> (\<forall>c sc md. check_entry v x = Inr (c, sc, md) \<longrightarrow>
           dedup_key c sc \<in> memory_key ` set (sp_listing (abs (store t)) p))
      \<and> is_failures acc1 = is_failures acc
      \<and> length (sp_listing (abs (store t)) p) \<le> Suc (length (sp_listing (abs (store s)) p))"
proof (cases "check_entry v x")
  case (Inl m)
  with w known show ?thesis by (simp add: import_one_def act_simps add_error_def)
next
  case (Inr e)
  obtain c sc md where e: "check_entry v x = Inr (c, sc, md)" using Inr by (cases e) auto
  show ?thesis
  proof (cases "map_of (is_existing acc) (dedup_key c sc)")
    case (Some dup)
    with e w known show ?thesis
      by (auto simp: import_one_def act_simps add_skipped_def Let_def)
  next
    case None
    obtain m t where run: "import_create B p (Some f) op i (dedup_key c sc) c sc md acc s =
        (Inr (add_imported (dedup_key c sc) m (m_id m) i Created acc), t)"
      and t: "well_stamped inv abs (store t)" and abs': "abs (store t) = spec_add p m (abs (store s))"
      and m: "stored_as p (c, sc, md) (f i None) m"
      using import_create_run [where f = f and acc = acc and op = op and i = i and key = "dedup_key c sc", OF w f storable_entry [OF v e]] by blast
    have "memory_key m = dedup_key c sc"
      using m dedup_key_text [of sc c] check_entry_scope(2) [OF v e]
      by (simp add: memory_key_def stored_as_def)
    with run t abs' e None known show ?thesis
      by (auto simp: import_one_def Let_def spec_add_def add_imported_def)
  qed
qed

lemma import_loop_skip:
  assumes f: "\<And>i sy. stamped p (f i sy)" and v: "good_validator v"
  shows "well_stamped inv abs (store s) \<Longrightarrow>
    dom (map_of (is_existing acc)) \<subseteq> memory_key ` set (sp_listing (abs (store s)) p) \<Longrightarrow>
    \<exists>acc1 t. import_loop B p (u ''skip'') v (Some f) op i xs acc s = (Inr acc1, t)
      \<and> well_stamped inv abs (store t)
      \<and> memory_key ` set (sp_listing (abs (store s)) p) \<subseteq> memory_key ` set (sp_listing (abs (store t)) p)
      \<and> (\<forall>x \<in> set xs. \<forall>c sc md. check_entry v x = Inr (c, sc, md) \<longrightarrow>
           dedup_key c sc \<in> memory_key ` set (sp_listing (abs (store t)) p))
      \<and> is_failures acc1 = is_failures acc
      \<and> length (sp_listing (abs (store t)) p) \<le> length xs + length (sp_listing (abs (store s)) p)"
proof (induction xs arbitrary: i acc s)
  case Nil
  then show ?case by (simp add: act_simps)
next
  case (Cons x xs)
  obtain acc2 s1 where one: "import_one B p (u ''skip'') v (Some f) op i x acc s = (Inr acc2, s1)"
    and w1: "well_stamped inv abs (store s1)"
    and grow1: "memory_key ` set (sp_listing (abs (store s)) p) \<subseteq> memory_key ` set (sp_listing (abs (store s1)) p)"
    and known1: "dom (map_of (is_existing acc2)) \<subseteq> memory_key ` set (sp_listing (abs (store s1)) p)"
    and key1: "\<forall>c sc md. check_entry v x = Inr (c, sc, md) \<longrightarrow>
           dedup_key c sc \<in> memory_key ` set (sp_listing (abs (store s1)) p)"
    and fail1: "is_failures acc2 = is_failures acc"
    and len1: "length (sp_listing (abs (store s1)) p) \<le> Suc (length (sp_listing (abs (store s)) p))"
    using import_one_skip [where f = f and acc = acc and op = op and i = i and x = x, OF Cons.prems(1) f v Cons.prems(2)]
    by blast
  from Cons.IH [OF w1 known1, of "Suc i"] obtain acc3 t
    where loop: "import_loop B p (u ''skip'') v (Some f) op (Suc i) xs acc2 s1 = (Inr acc3, t)"
    and w2: "well_stamped inv abs (store t)"
    and grow2: "memory_key ` set (sp_listing (abs (store s1)) p) \<subseteq> memory_key ` set (sp_listing (abs (store t)) p)"
    and key2: "\<forall>x \<in> set xs. \<forall>c sc md. check_entry v x = Inr (c, sc, md) \<longrightarrow>
           dedup_key c sc \<in> memory_key ` set (sp_listing (abs (store t)) p)"
    and fail2: "is_failures acc3 = is_failures acc2"
    and len2: "length (sp_listing (abs (store t)) p) \<le> length xs + length (sp_listing (abs (store s1)) p)"
    by blast
  have run: "import_loop B p (u ''skip'') v (Some f) op i (x # xs) acc s = (Inr acc3, t)"
    by (simp add: act_simps one loop)
  have "\<forall>y \<in> set (x # xs). \<forall>c sc md. check_entry v y = Inr (c, sc, md) \<longrightarrow>
           dedup_key c sc \<in> memory_key ` set (sp_listing (abs (store t)) p)"
    using key1 key2 subsetD [OF grow2] by simp
  moreover have "is_failures acc3 = is_failures acc" using fail1 fail2 by simp
  moreover have "length (sp_listing (abs (store t)) p) \<le> length (x # xs) + length (sp_listing (abs (store s)) p)"
    using len1 len2 by simp
  ultimately show ?case using run w2 subset_trans [OF grow1 grow2] by blast
qed

end

text \<open>When every valid entry has its memory, a skipping import only skips and reports, over any
  backend: after the index it calls nothing.\<close>

lemma import_loop_settled:
  assumes "\<forall>x \<in> set xs. \<forall>c sc md. check_entry v x = Inr (c, sc, md) \<longrightarrow>
      map_of (is_existing acc) (dedup_key c sc) \<noteq> None"
  shows "\<exists>acc1. import_loop B p (u ''skip'') v stamp op i xs acc s = (Inr acc1, s)
      \<and> imported (is_outcome acc1) = imported (is_outcome acc) \<and> is_failures acc1 = is_failures acc
      \<and> dedup_incomplete (is_outcome acc1) = dedup_incomplete (is_outcome acc)"
  using assms
proof (induction xs arbitrary: i acc)
  case Nil
  then show ?case by (simp add: act_simps)
next
  case (Cons x xs)
  obtain acc2 where one: "import_one B p (u ''skip'') v stamp op i x acc s = (Inr acc2, s)"
    and same: "is_existing acc2 = is_existing acc" "imported (is_outcome acc2) = imported (is_outcome acc)"
      "is_failures acc2 = is_failures acc"
      "dedup_incomplete (is_outcome acc2) = dedup_incomplete (is_outcome acc)"
  proof (cases "check_entry v x")
    case (Inl m)
    then show ?thesis
      by (intro that [of "add_error i m acc"]) (simp_all add: import_one_def act_simps add_error_def)
  next
    case (Inr e)
    obtain c sc md where e: "check_entry v x = Inr (c, sc, md)" using Inr by (cases e) auto
    then obtain dup where dup: "map_of (is_existing acc) (dedup_key c sc) = Some dup"
      using Cons.prems by auto
    show ?thesis
      by (rule that [of "add_skipped i (m_id dup) acc"])
        (simp_all add: import_one_def e dup act_simps add_skipped_def Let_def)
  qed
  have "\<exists>acc1. import_loop B p (u ''skip'') v stamp op (Suc i) xs acc2 s = (Inr acc1, s)
      \<and> imported (is_outcome acc1) = imported (is_outcome acc2) \<and> is_failures acc1 = is_failures acc2
      \<and> dedup_incomplete (is_outcome acc1) = dedup_incomplete (is_outcome acc2)"
    using Cons.prems by (intro Cons.IH) (simp add: same(1))
  with one same show ?case by (auto simp: act_simps)
qed

context storing_backend
begin

lemma policy_import_skip_run:
  assumes P: "pol_backend P = B" and w: "well_stamped inv abs (store s)" and key: "writer key"
    and args: "import_arguments P (map read_entry entries) (u ''skip'') = Inr ()"
  shows "\<exists>o1. fst (policy_import P (Some key) entries (u ''skip'') s) = Inr o1
    \<and> length (sp_listing (abs (store (snd (policy_import P (Some key) entries (u ''skip'') s)))) (space_of key))
        \<le> length entries + length (sp_listing (abs (store s)) (space_of key))
    \<and> well_stamped inv abs (store (snd (policy_import P (Some key) entries (u ''skip'') s)))
    \<and> (\<forall>x \<in> set (map read_entry entries). \<forall>c sc md.
         check_entry (validate_entry_scope P) x = Inr (c, sc, md) \<longrightarrow>
         dedup_key c sc \<in> memory_key ` set (sp_listing (abs (store (snd (policy_import P (Some key) entries (u ''skip'') s)))) (space_of key)))"
proof -
  let ?p = "space_of key" and ?xs = "map read_entry entries"
  let ?s = "s\<lparr>entry := opening_entry (Some key) (u ''import_memories'')\<rparr>"
  let ?acc = "\<lparr>is_existing = index_memories (take (nat MAX_EXPORT) (sp_listing (abs (store s)) ?p)),
      is_outcome = no_outcome (int (length (sp_listing (abs (store s)) ?p)) > MAX_EXPORT), is_failures = 0\<rparr>"
  have w': "well_stamped inv abs (store ?s)" using w by simp
  have limit: "0 \<le> MAX_EXPORT" by (simp add: MAX_EXPORT_def)
  have known: "dom (map_of (is_existing ?acc)) \<subseteq> memory_key ` set (sp_listing (abs (store ?s)) ?p)"
    by (auto simp: dom_index_memories dest: in_set_takeD)
  obtain acc t where loop: "import_loop B ?p (u ''skip'') (validate_entry_scope P)
        (Some (import_stamp ?p (k_name key))) (u ''import'') 0 ?xs ?acc ?s = (Inr acc, t)"
    and t: "well_stamped inv abs (store t)"
    and keys: "\<forall>x \<in> set ?xs. \<forall>c sc md. check_entry (validate_entry_scope P) x = Inr (c, sc, md) \<longrightarrow>
           dedup_key c sc \<in> memory_key ` set (sp_listing (abs (store t)) ?p)"
    and fail: "is_failures acc = is_failures ?acc"
    and len: "length (sp_listing (abs (store t)) ?p) \<le> length ?xs + length (sp_listing (abs (store ?s)) ?p)"
    using import_loop_skip [where f = "import_stamp ?p (k_name key)" and v = "validate_entry_scope P"
        and op = "u ''import''" and i = 0 and xs = ?xs,
        OF stamped_import_stamp good_validator_entry w' known]
    by blast
  have conflict: "refuse_on_conflict B (u ''skip'') = Inr ()"
    by (simp add: refuse_on_conflict_def ON_CONFLICT_CHOICES_def)
  have "fst (policy_import P (Some key) entries (u ''skip'') s) = Inr (is_outcome acc)
      \<and> store (snd (policy_import P (Some key) entries (u ''skip'') s)) = store t"
    using key fail by (simp add: policy_import_def import_body_def act_simps Let_def args P
        import_payload_def conflict build_dedup_index_run [OF w' limit] loop)
  with t keys len show ?thesis by simp
qed

lemma reimport_run:
  assumes "pol_backend P = B" and "well_stamped inv abs (store s)" and "writer key"
    and "import_arguments P (map read_entry entries) (u ''skip'') = Inr ()"
    and "t = snd (policy_import P (Some key) entries (u ''skip'') s)"
    and "length (sp_listing (abs (store t)) (space_of key)) \<le> 10000"
  shows "\<exists>outcome. fst (policy_import P (Some key) entries (u ''skip'') t) = Inr outcome
    \<and> imported outcome = [] \<and> indices outcome = {0..<length entries} \<and> \<not> dedup_incomplete outcome
    \<and> store (snd (policy_import P (Some key) entries (u ''skip'') t)) = store t"
proof -
  let ?p = "space_of key" and ?xs = "map read_entry entries"
  let ?t = "t\<lparr>entry := opening_entry (Some key) (u ''import_memories'')\<rparr>"
  let ?acc = "\<lparr>is_existing = index_memories (sp_listing (abs (store t)) ?p), is_outcome = no_outcome False, is_failures = 0\<rparr>"
  have t: "well_stamped inv abs (store t)" and keys: "\<forall>x \<in> set ?xs. \<forall>c sc md.
        check_entry (validate_entry_scope P) x = Inr (c, sc, md) \<longrightarrow>
        dedup_key c sc \<in> memory_key ` set (sp_listing (abs (store t)) ?p)"
    using policy_import_skip_run [OF assms(1-4)] by (auto simp: assms(5))
  have settled: "\<forall>x \<in> set ?xs. \<forall>c sc md. check_entry (validate_entry_scope P) x = Inr (c, sc, md) \<longrightarrow>
      map_of (is_existing ?acc) (dedup_key c sc) \<noteq> None"
    using keys unfolding dom_index_memories [symmetric] dom_def by simp
  obtain acc where loop: "import_loop B ?p (u ''skip'') (validate_entry_scope P)
        (Some (import_stamp ?p (k_name key))) (u ''import'') 0 ?xs ?acc ?t = (Inr acc, ?t)"
    and same: "imported (is_outcome acc) = []" "is_failures acc = 0"
      "\<not> dedup_incomplete (is_outcome acc)"
    using import_loop_settled [where acc = ?acc and xs = ?xs and v = "validate_entry_scope P"
        and B = B and p = ?p and op = "u ''import''" and i = 0 and s = ?t
        and stamp = "Some (import_stamp ?p (k_name key))", OF settled]
    by (auto simp: no_outcome_def)
  have index: "build_dedup_index B ?p MAX_EXPORT (u ''import'') ?t =
      (Inr (index_memories (sp_listing (abs (store t)) ?p), False), ?t)"
    using build_dedup_index_run [of ?t MAX_EXPORT] t assms(6) by (simp add: MAX_EXPORT_def)
  have conflict: "refuse_on_conflict B (u ''skip'') = Inr ()"
    by (simp add: refuse_on_conflict_def ON_CONFLICT_CHOICES_def)
  have payload: "import_payload B ?p ?xs (u ''skip'') (validate_entry_scope P) MAX_EXPORT
      (Some (import_stamp ?p (k_name key))) (u ''import'') ?t = (Inr (is_outcome acc), ?t)"
    by (simp add: act_simps import_payload_def conflict index loop same)
  have "fst (policy_import P (Some key) entries (u ''skip'') t) = Inr (is_outcome acc)
      \<and> store (snd (policy_import P (Some key) entries (u ''skip'') t)) = store t"
    using assms(3) by (simp add: policy_import_def import_body_def act_simps Let_def assms(1,4) payload)
  moreover have "indices (is_outcome acc) = {0..<length entries}"
    using ensuresD [OF ensures_import_loop loop] by (simp add: no_outcome_def indices_def)
  ultimately show ?thesis using same by blast
qed

end

text \<open>
  Property C20: importing a batch again changes nothing, over either local backend.
  After an import that skips duplicates, and while the space holds at most 10,000 memories (past
  that the index of what is there may miss some, which the reply says by \<open>dedup_incomplete\<close>), the same
  batch imports nothing, the store is untouched, and every entry is skipped or reported.
\<close>

theorem import_idempotent:
  assumes "pol_backend P = in_memory_backend U" and "served s"
    and "import_arguments P (map read_entry entries) (u ''skip'') = Inr ()"
    and "s1 = snd (policy_import P (Some key) entries (u ''skip'') s)"
    and "length (held s1 (space_of key)) \<le> 10000"
    and "pol_backend Q = sqlite_backend U (Suc n)" and "served_sql t"
    and "import_arguments Q (map read_entry entries) (u ''skip'') = Inr ()"
    and "t1 = snd (policy_import Q (Some key) entries (u ''skip'') t)"
    and "length (held_sql t1 (space_of key)) \<le> 10000"
    and "writer key"
  shows "(\<exists>outcome. fst (policy_import P (Some key) entries (u ''skip'') s1) = Inr outcome
      \<and> imported outcome = [] \<and> indices outcome = {0..<length entries} \<and> \<not> dedup_incomplete outcome
      \<and> store (snd (policy_import P (Some key) entries (u ''skip'') s1)) = store s1)
    \<and> (\<exists>outcome. fst (policy_import Q (Some key) entries (u ''skip'') t1) = Inr outcome
      \<and> imported outcome = [] \<and> indices outcome = {0..<length entries} \<and> \<not> dedup_incomplete outcome
      \<and> store (snd (policy_import Q (Some key) entries (u ''skip'') t1)) = store t1)"
  using in_memory.reimport_run [OF assms(1,2,11,3-5)] sqlite.reimport_run [OF assms(6,7,11,8-10)] by blast

definition hi_batch :: "(pystr, json) dict list" where
  "hi_batch = [[(u ''content'', JStr (u ''hi''))]]"

lemma hi_batch_arguments: "import_arguments P (map read_entry hi_batch) (u ''skip'') = Inr ()"
  by (simp add: hi_batch_def import_arguments_def MAX_IMPORT_def ON_CONFLICT_CHOICES_def)

lemmas import_eval = eval_simps policy_import_def hi_batch_arguments [unfolded hi_batch_def demo_defs]
  import_payload_def build_dedup_index_def list_all_memories_def list_all_from_seq refuse_on_conflict_def
  ON_CONFLICT_CHOICES_def import_arguments_def MAX_IMPORT_def MAX_EXPORT_def read_entry_def import_one_def
  check_entry_def entry_content_def entry_scope_def entry_metadata_def check_metadata_size_def
  json_size_def import_create_def attempt_def add_truthy_def index_memories_def import_stamp_def
  no_outcome_def MAX_METADATA_BYTES_def is_surrogate_def utf8_size_def utf8_len_def add_imported_def

theorem import_idempotent_witness:
  "(\<exists>outcome. fst (policy_import demo_policy (Some ann) hi_batch (u ''skip'')
      (snd (policy_import demo_policy (Some ann) hi_batch (u ''skip'') (start demo_env)))) = Inr outcome
     \<and> imported outcome = [])
   \<and> (\<exists>outcome. fst (policy_import (demo_sql_policy 0) (Some ann) hi_batch (u ''skip'')
      (snd (policy_import (demo_sql_policy 0) (Some ann) hi_batch (u ''skip'') (start demo_new)))) = Inr outcome
     \<and> imported outcome = [])"
proof -
  let ?s = "snd (policy_import demo_policy (Some ann) hi_batch (u ''skip'') (start demo_env))"
  let ?t = "snd (policy_import (demo_sql_policy 0) (Some ann) hi_batch (u ''skip'') (start demo_new))"
  have small: "length (held ?s (space_of ann)) \<le> 10000"
    by (simp add: hi_batch_def demo_defs import_eval mem_listing_abs)
  have "length (held_sql ?t (space_of ann)) \<le> length hi_batch + length (held_sql (start demo_new) (space_of ann))"
    using sqlite.policy_import_skip_run [OF demo_sql_policy_sel(1) [of 0] served_demo_new demo_keys(4) hi_batch_arguments]
    by blast
  then have small': "length (held_sql ?t (space_of ann)) \<le> 10000"
    by (simp add: held_demo_new hi_batch_def)
  from import_idempotent [OF demo_backend served_demo(1) hi_batch_arguments refl small
      demo_sql_policy_sel(1) served_demo_new hi_batch_arguments refl small' demo_keys(4)]
  show ?thesis by blast
qed

section \<open>Overwriting\<close>

lemma map_of_overwrite:
  assumes "overwrite_patch md dup = Inr pt" and "wf_dict (or_empty md)"
  shows "map_of (case pt of None \<Rightarrow> m_metadata dup | Some x \<Rightarrow> apply_patch x (m_metadata dup)) k =
    (case md of
       None \<Rightarrow> map_of (m_metadata dup) k
     | Some d \<Rightarrow>
         (case map_of d k of
            Some v \<Rightarrow> Some v
          | None \<Rightarrow> if is_reserved_metadata_key k then map_of (m_metadata dup) k else None))"
proof (cases md)
  case None
  with assms show ?thesis by (simp add: overwrite_patch_def)
next
  case (Some d)
  let ?x = "\<lparr>p_set = d, p_remove =
      filter (\<lambda>k. k \<notin> set (dict_keys d) \<and> \<not> is_reserved_metadata_key k) (dict_keys (m_metadata dup))\<rparr>"
  have x: "pt = Some ?x"
    using assms(1) Some by (auto simp: overwrite_patch_def res_bind_eq_Inr make_patch_ok)
  have wf: "wf_dict d" using assms(2) Some by simp
  have keys: "k \<in> set (dict_keys e) \<longleftrightarrow> map_of e k \<noteq> None" for e :: metadata
    by (auto simp: dict_keys_def map_of_eq_None_iff)
  show ?thesis
    using wf keys [of d] keys [of "m_metadata dup"]
    by (auto simp: Some x map_of_apply_patch split: option.splits)
qed

lemma overwrite_patch_total: "\<exists>pt. overwrite_patch md dup = Inr pt"
  by (auto simp: overwrite_patch_def make_patch_def dict_keys_def Let_def filter_empty_conv split: option.splits)

text \<open>What an entry makes of the memory it matches.\<close>

definition overwritten ::
  "pystr \<Rightarrow> pystr \<Rightarrow> pystr \<Rightarrow> metadata option \<Rightarrow> memory \<Rightarrow> memory \<Rightarrow> bool" where
  "overwritten p name c md dup m' \<longleftrightarrow>
     m_id m' = m_id dup \<and> m_content m' = c \<and> m_scope m' = m_scope dup
     \<and> (\<forall>k. map_of (m_metadata m') k =
          (case md of
             None \<Rightarrow> map_of (m_metadata dup) k
           | Some d \<Rightarrow>
               (case map_of d k of
                  Some w \<Rightarrow> Some w
                | None \<Rightarrow> if is_reserved_metadata_key k then map_of (m_metadata dup) k else None)))
     \<and> m_system m' = system_for p name (sys_created_by (m_system dup))"

context storing_backend
begin

lemma overwrite_run:
  assumes "well_stamped inv abs (store s)" and "check_entry v x = Inr (c, sc, md)" and "wf_dict (or_empty md)"
    and "map_of (is_existing acc) (dedup_key c sc) = Some dup" and "dup \<in> set (sp_listing (abs (store s)) p)"
  shows "\<exists>m' acc' t. import_one B p (u ''overwrite'') v (Some (import_stamp p name)) op i x acc s
        = (Inr acc', t)
    \<and> imported (is_outcome acc') = imported (is_outcome acc) @ [(m_id dup, i, Updated)]
    \<and> sp_listing (abs (store t)) p = map (\<lambda>y. if m_id y = m_id dup then m' else y) (sp_listing (abs (store s)) p)
    \<and> overwritten p name c md dup m'"
proof -
  let ?sy = "system_for p name (sys_created_by (m_system dup))"
  have inv: "inv (store s)" using assms(1) by (simp add: well_stamped_def)
  obtain pt where pt: "overwrite_patch md dup = Inr pt" using overwrite_patch_total by blast
  have clean: "clean_keys (patch_keys y)" if "pt = Some y" for y
    using pt that assms(2) by (intro overwrite_patch_clean [of md dup y] entry_metadata_clean [of x md])
      (simp_all add: check_entry_ok)
  have found: "spec_get p (m_id dup) (abs (store s)) = Some dup"
    by (rule spec_get_in [OF inv_ids [OF inv] assms(5)])
  obtain now w' where upd: "b_update B p (m_id dup) (Some c) pt (Some ?sy) (store s) =
      (Inr (updated_memory dup (Some c) pt (Some ?sy) now), w')"
    and abs': "abs w' = spec_update p dup (updated_memory dup (Some c) pt (Some ?sy) now) now (abs (store s))"
    using update_refines [OF inv clean found, where co = "Some c" and sy = "Some ?sy"] by blast
  let ?m = "updated_memory dup (Some c) pt (Some ?sy) now"
  have "in_space dup p" using assms(1,5) by (simp add: well_stamped_def stamped_spec_def)
  then have space: "in_space ?m p" by (simp add: in_space_updated)
  have stamp: "import_stamp p name i (Some (m_system dup)) = ?sy" by (simp add: import_stamp_def)
  have "import_one B p (u ''overwrite'') v (Some (import_stamp p name)) op i x acc s =
      (Inr (add_imported (dedup_key c sc) ?m (m_id dup) i Updated acc), s\<lparr>store := w'\<rparr>)"
    by (simp add: import_one_def assms(2,4) Let_def import_overwrite_def act_simps pt attempt_def stamp
        upd check_space_run space)
  moreover have "map_of (m_metadata ?m) k =
         (case md of
            None \<Rightarrow> map_of (m_metadata dup) k
          | Some d \<Rightarrow>
              (case map_of d k of
                 Some w \<Rightarrow> Some w
               | None \<Rightarrow> if is_reserved_metadata_key k then map_of (m_metadata dup) k else None))" for k
    using map_of_overwrite [OF pt assms(3)] by (simp add: updated_memory_def)
  ultimately show ?thesis
    using abs' by (intro exI [of _ ?m] exI [of _ "add_imported (dedup_key c sc) ?m (m_id dup) i Updated acc"]
        exI [of _ "s\<lparr>store := w'\<rparr>"])
      (simp add: add_imported_def spec_update_def overwritten_def, simp add: updated_memory_def)
qed

end

text \<open>
  Property C21: in overwrite mode an entry that matches a memory of the space
  becomes it, over either local backend and whatever the batch did before (\<open>acc\<close>). The memory keeps
  its id, its scope and its creator; its content is the entry's, and, if the entry has metadata, its
  metadata is the entry's, except that reserved keys stay (no client can remove one); without
  metadata in the entry it keeps its own. No memory is added.
\<close>

theorem overwrite_replaces:
  assumes "check_entry v x = Inr (c, sc, md)" and "wf_dict (or_empty md)"
    and "served s" and "map_of (is_existing acc) (dedup_key c sc) = Some dup" and "dup \<in> set (held s p)"
    and "served_sql t" and "map_of (is_existing acc') (dedup_key c sc) = Some dup'"
    and "dup' \<in> set (held_sql t p)"
  shows "(\<exists>m' acc1 s1. import_one (in_memory_backend U) p (u ''overwrite'') v (Some (import_stamp p name)) op i x acc s
        = (Inr acc1, s1)
      \<and> imported (is_outcome acc1) = imported (is_outcome acc) @ [(m_id dup, i, Updated)]
      \<and> held s1 p = map (\<lambda>y. if m_id y = m_id dup then m' else y) (held s p)
      \<and> overwritten p name c md dup m')
    \<and> (\<exists>m' acc1 t1. import_one (sqlite_backend U (Suc n)) p (u ''overwrite'') v (Some (import_stamp p name)) op i x acc' t
        = (Inr acc1, t1)
      \<and> imported (is_outcome acc1) = imported (is_outcome acc') @ [(m_id dup', i, Updated)]
      \<and> held_sql t1 p = map (\<lambda>y. if m_id y = m_id dup' then m' else y) (held_sql t p)
      \<and> overwritten p name c md dup' m')"
  using in_memory.overwrite_run [OF assms(3,1,2,4,5)] sqlite.overwrite_run [OF assms(6,1,2,7,8)] by blast

text \<open>An entry with the content of the example memories; those of the file have a scope.\<close>

definition hi_entry :: "scope option \<Rightarrow> import_entry" where
  "hi_entry sc = \<lparr>ie_content = Some (JStr (u ''hi'')), ie_scope = map_option JObj sc, ie_metadata = None\<rparr>"

definition seen :: "scope option \<Rightarrow> memory \<Rightarrow> import_state" where
  "seen sc m = \<lparr>is_existing = [(dedup_key (u ''hi'') sc, m)], is_outcome = no_outcome False, is_failures = 0\<rparr>"

theorem overwrite_replaces_witness:
  "(\<exists>m' acc1 t. import_one (in_memory_backend plain_ucd) (u ''red'') (u ''overwrite'') scope_as_given
        (Some (import_stamp (u ''red'') (u ''ray''))) (u ''import'') 0 (hi_entry None) (seen None hi_memory)
        (start demo_one) = (Inr acc1, t)
      \<and> held t (u ''red'') = [m'] \<and> m_content m' = u ''hi'')
   \<and> (\<exists>m' acc1 t. import_one (sqlite_backend plain_ucd (Suc 0)) (u ''red'') (u ''overwrite'') scope_as_given
        (Some (import_stamp (u ''red'') (u ''ray''))) (u ''import'') 0 (hi_entry None) (seen None (demo_memory [97]))
        (start demo_sql) = (Inr acc1, t)
      \<and> held_sql t (u ''red'') = [m', demo_memory [97, 97]]
      \<and> m_system m' = system_for (u ''red'') (u ''ray'') (Some (u ''ann'')))"
proof -
  have check: "check_entry scope_as_given (hi_entry None) = Inr (u ''hi'', None, None)"
    by (simp add: hi_entry_def check_entry_def entry_content_def entry_scope_def entry_metadata_def eval_simps
        check_metadata_size_def json_size_def MAX_METADATA_BYTES_def is_surrogate_def utf8_size_def utf8_len_def)
  have wf: "wf_dict (or_empty (None :: metadata option))" by simp
  have existing: "map_of (is_existing (seen None m)) (dedup_key (u ''hi'') None) = Some m" for m
    by (simp add: seen_def)
  have here: "hi_memory \<in> set (held (start demo_one) (u ''red''))" by (simp add: held_demo)
  have there: "demo_memory [97] \<in> set (held_sql (start demo_sql) (u ''red''))" by (simp add: held_demo_sql)
  have ids: "m_id (demo_memory i) = i" "sys_created_by (m_system (demo_memory i)) = Some (u ''ann'')" for i
    by (simp_all add: demo_memory_def system_for_def)
  from overwrite_replaces [OF check wf served_demo(2) existing here served_demo_sql existing there,
      of plain_ucd "u ''ray''" "u ''import''" 0 0] ids
  show ?thesis by (fastforce simp: held_demo held_demo_sql overwritten_def)
qed

section \<open>Copying\<close>

type_synonym entry_parts = "pystr \<times> scope option \<times> metadata option"

definition parts_key :: "entry_parts \<Rightarrow> dedup" where
  "parts_key e = (case e of (c, sc, md) \<Rightarrow> dedup_key c sc)"

text \<open>\<open>ms\<close> are the memories the entries become, stamped for the indices from \<open>i\<close> on.\<close>

fun stored_from :: "pystr \<Rightarrow> stamp \<Rightarrow> nat \<Rightarrow> entry_parts list \<Rightarrow> memory list \<Rightarrow> bool" where
  "stored_from p f i [] ms = (ms = [])"
| "stored_from p f i (e # es) ms =
     (case ms of [] \<Rightarrow> False | m # ms \<Rightarrow> stored_as p e (f i None) m \<and> stored_from p f (Suc i) es ms)"

context storing_backend
begin

text \<open>New entries with identities of their own are all stored, in their order, in any mode.\<close>

lemma import_loop_new:
  assumes f: "\<And>i sy. stamped p (f i sy)"
  shows "well_stamped inv abs (store s) \<Longrightarrow> list_all storable es \<Longrightarrow> map (check_entry v) xs = map Inr es \<Longrightarrow>
    distinct (map parts_key es) \<Longrightarrow> parts_key ` set es \<inter> dom (map_of (is_existing acc)) = {} \<Longrightarrow>
    \<exists>acc1 t ms. import_loop B p mode v (Some f) op i xs acc s = (Inr acc1, t)
      \<and> well_stamped inv abs (store t)
      \<and> sp_listing (abs (store t)) p = sp_listing (abs (store s)) p @ ms
      \<and> (\<forall>q. q \<noteq> p \<longrightarrow> sp_listing (abs (store t)) q = sp_listing (abs (store s)) q)
      \<and> stored_from p f i es ms
      \<and> length (imported (is_outcome acc1)) = length (imported (is_outcome acc)) + length es
      \<and> skipped (is_outcome acc1) = skipped (is_outcome acc)
      \<and> errors (is_outcome acc1) = errors (is_outcome acc)
      \<and> is_failures acc1 = is_failures acc
      \<and> dedup_incomplete (is_outcome acc1) = dedup_incomplete (is_outcome acc)"
proof (induction xs arbitrary: i acc s es)
  case Nil
  then show ?case by (simp add: act_simps)
next
  case (Cons x xs)
  from Cons.prems(3) obtain e es' where es: "es = e # es'" and e: "check_entry v x = Inr e"
    and rest: "map (check_entry v) xs = map Inr es'"
    by (cases es) auto
  obtain c sc md where parts: "e = (c, sc, md)" by (cases e)
  have storable: "storable e" and all: "list_all storable es'" using Cons.prems(2) es by simp_all
  have new: "map_of (is_existing acc) (dedup_key c sc) = None"
    using Cons.prems(5) es parts by (auto simp: parts_key_def)
  obtain m s1 where run: "import_create B p (Some f) op i (dedup_key c sc) c sc md acc s =
        (Inr (add_imported (dedup_key c sc) m (m_id m) i Created acc), s1)"
    and w1: "well_stamped inv abs (store s1)" and abs1: "abs (store s1) = spec_add p m (abs (store s))"
    and m: "stored_as p (c, sc, md) (f i None) m"
    using import_create_run [where f = f and acc = acc and op = op and i = i and key = "dedup_key c sc",
        OF Cons.prems(1) f storable [unfolded parts]] by blast
  let ?acc = "add_imported (dedup_key c sc) m (m_id m) i Created acc"
  have one: "import_one B p mode v (Some f) op i x acc s = (Inr ?acc, s1)"
    by (simp add: import_one_def e parts Let_def new run)
  have fresh: "parts_key ` set es' \<inter> dom (map_of (is_existing ?acc)) = {}"
    using Cons.prems(4,5) es parts by (auto simp: parts_key_def add_imported_def)
  from Cons.prems(4) es have "distinct (map parts_key es')" by simp
  from Cons.IH [OF w1 all rest this fresh, of "Suc i"] obtain acc1 t ms
    where loop: "import_loop B p mode v (Some f) op (Suc i) xs ?acc s1 = (Inr acc1, t)"
    and t: "well_stamped inv abs (store t)"
      "sp_listing (abs (store t)) p = sp_listing (abs (store s1)) p @ ms"
      "\<forall>q. q \<noteq> p \<longrightarrow> sp_listing (abs (store t)) q = sp_listing (abs (store s1)) q"
    and ms: "stored_from p f (Suc i) es' ms"
    and acc1: "length (imported (is_outcome acc1)) = length (imported (is_outcome ?acc)) + length es'"
      "skipped (is_outcome acc1) = skipped (is_outcome ?acc)"
      "errors (is_outcome acc1) = errors (is_outcome ?acc)" "is_failures acc1 = is_failures ?acc"
      "dedup_incomplete (is_outcome acc1) = dedup_incomplete (is_outcome ?acc)"
    by blast
  have "import_loop B p mode v (Some f) op i (x # xs) acc s = (Inr acc1, t)"
    by (simp add: act_simps one loop)
  moreover have "sp_listing (abs (store t)) p = sp_listing (abs (store s)) p @ (m # ms)"
    "\<forall>q. q \<noteq> p \<longrightarrow> sp_listing (abs (store t)) q = sp_listing (abs (store s)) q"
    using t(2,3) by (simp_all add: abs1 spec_add_def)
  moreover have "stored_from p f i es (m # ms)"
    using m ms by (simp add: es parts)
  ultimately show ?case
    using t(1) acc1
    by (intro exI [of _ acc1] exI [of _ t] exI [of _ "m # ms"]) (simp add: es add_imported_def)
qed

end

text \<open>A memory whose content, scope and metadata an import accepts as they are.\<close>

definition copyable :: "memory \<Rightarrow> bool" where
  "copyable m \<longleftrightarrow>
     validate_content (m_content m) = Inr () \<and> validate_metadata (m_metadata m) False = Inr ()
     \<and> check_metadata_size (m_metadata m) None = Inr ()"

lemma check_entry_copy:
  "copyable m \<Longrightarrow> check_entry scope_as_given (wire_entry (serialize_memory m)) =
     Inr (m_content m, Some (m_scope m), Some (m_metadata m))"
proof -
  assume m: "copyable m"
  then have ok: "validate_content (m_content m) = Inr ()" "validate_metadata (m_metadata m) False = Inr ()"
    "check_metadata_size (m_metadata m) None = Inr ()" by (simp_all add: copyable_def)
  show ?thesis
    by (simp add: check_entry_def entry_content_def entry_scope_def entry_metadata_def wire_entry_def
        serialize_memory_def scope_as_given_def ok)
qed

definition copy_of :: "pystr \<Rightarrow> memory \<Rightarrow> memory \<Rightarrow> bool" where
  "copy_of p m m' \<longleftrightarrow>
     m_content m' = m_content m \<and> m_scope m' = scope_as_text (m_scope m) \<and> m_metadata m' = m_metadata m
     \<and> m_system m' = (m_system m)\<lparr>sys_space := Some (JStr p)\<rparr> \<and> m_partition m' = p"

lemma stored_from_copies:
  "stored_from p (copy_system all p) i (map (\<lambda>m. (m_content m, Some (m_scope m), Some (m_metadata m))) (drop i all)) ms
   \<Longrightarrow> list_all2 (copy_of p) (drop i all) ms"
proof (induction "length all - i" arbitrary: i ms)
  case 0
  then show ?case by simp
next
  case (Suc n)
  then have i: "i < length all" by linarith
  then have drop: "drop i all = all ! i # drop (Suc i) all" by (simp add: Cons_nth_drop_Suc)
  from Suc.prems drop obtain m ms' where ms: "ms = m # ms'"
    and m: "stored_as p (m_content (all ! i), Some (m_scope (all ! i)), Some (m_metadata (all ! i)))
        (copy_system all p i None) m"
    and rest: "stored_from p (copy_system all p) (Suc i)
        (map (\<lambda>m. (m_content m, Some (m_scope m), Some (m_metadata m))) (drop (Suc i) all)) ms'"
    by (auto split: list.splits)
  have "list_all2 (copy_of p) (drop (Suc i) all) ms'"
    using Suc.hyps(2) rest by (intro Suc.hyps(1)) linarith
  moreover have "copy_of p (all ! i) m"
    using m by (simp add: stored_as_def copy_of_def copy_system_def)
  ultimately show ?case by (simp add: drop ms)
qed

end
