(* ===== verification/Twins.thy ===== *)
theory Twins
  imports Alike Moving Durable
begin

text \<open>
  Two storing backends that draw the same ids and times are interchangeable: over the one and over
  the other, any session of requests gets the same replies, the same audit records and the same log
  lines, and leaves stores with the same contents. The locale states what is needed of the pair;
  the in-memory backend and the SQLite backend are its instance.
\<close>

section \<open>A pair of backends\<close>

definition twin ::
  "('v \<Rightarrow> bool) \<Rightarrow> ('v \<Rightarrow> spec) \<Rightarrow> ('w \<Rightarrow> bool) \<Rightarrow> ('w \<Rightarrow> spec) \<Rightarrow> ('v \<Rightarrow> 'w \<Rightarrow> bool) \<Rightarrow> 'v \<Rightarrow> 'w \<Rightarrow> bool" where
  "twin ok contents ok' contents' E v w \<longleftrightarrow>
     well_stamped ok contents v \<and> well_stamped ok' contents' w \<and> contents v = contents' w \<and> E v w"

text \<open>\<open>E\<close> relates the sources of ids and times.\<close>

locale twin_backends =
  one: storing_backend B inv abs rank bulk + two: storing_backend C inv' abs' rank bulk'
  for B :: "'v backend" and inv :: "'v \<Rightarrow> bool" and abs :: "'v \<Rightarrow> spec"
    and rank :: "pystr \<Rightarrow> memory \<Rightarrow> rat option" and bulk :: "nat \<Rightarrow> bool"
    and C :: "'w backend" and inv' :: "'w \<Rightarrow> bool" and abs' :: "'w \<Rightarrow> spec" and bulk' :: "nat \<Rightarrow> bool" +
  fixes E :: "'v \<Rightarrow> 'w \<Rightarrow> bool"
  assumes add_twins: "inv v \<Longrightarrow> inv' w \<Longrightarrow> E v w \<Longrightarrow> clean_keys (dict_keys (or_empty md)) \<Longrightarrow>
      fst ` set (or_empty sc) \<inter> NESTED_FILTER_KEYS = {} \<Longrightarrow>
      alike_at E (b_add B p c sc md infer sy) (b_add C p c sc md infer sy) v w"
    and update_twins: "inv v \<Longrightarrow> inv' w \<Longrightarrow> E v w \<Longrightarrow> (\<And>x. pt = Some x \<Longrightarrow> clean_keys (patch_keys x)) \<Longrightarrow>
      spec_get p i (abs v) = Some m \<Longrightarrow> spec_get p i (abs' w) = Some m \<Longrightarrow>
      alike_at E (b_update B p i co pt sy) (b_update C p i co pt sy) v w"
    and delete_twins: "inv v \<Longrightarrow> inv' w \<Longrightarrow> E v w \<Longrightarrow> spec_get p i (abs v) = spec_get p i (abs' w) \<Longrightarrow>
      E (snd (b_delete B p i v)) (snd (b_delete C p i w))"
    and delete_all_twins: "inv v \<Longrightarrow> inv' w \<Longrightarrow> E v w \<Longrightarrow> fst ` set d \<inter> NESTED_FILTER_KEYS = {} \<Longrightarrow>
      bulk' (length (filter (matching (Some d)) (sp_listing (abs' w) p))) \<Longrightarrow>
      E (snd (b_delete_all B p d v)) (snd (b_delete_all C p d w))"
    and entities_twins: "fst (b_entities B p sc l v) = fst (b_entities C p sc l w)"
    and capabilities_twins: "b_capabilities C = b_capabilities B"
begin

abbreviation related :: "'v \<Rightarrow> 'w \<Rightarrow> bool" where
  "related \<equiv> twin inv abs inv' abs' E"

lemma relatedD: "related v w \<Longrightarrow> inv v \<and> inv' w \<and> abs' w = abs v \<and> E v w"
  by (simp add: twin_def well_stamped_def)

lemma related_kept:
  assumes R: "related v w" and "keeps (well_stamped inv abs) m" and "keeps (well_stamped inv' abs') n"
    and "abs (snd (m v)) = abs' (snd (n w))" and "alike_at E m n v w"
  shows "alike_at related m n v w"
  using assms by (simp add: twin_def alike_at_def keeps_def)

lemma add_alike:
  assumes "stamped p sy" and clean: "clean_keys (dict_keys (or_empty md))"
    and ok: "fst ` set (or_empty sc) \<inter> NESTED_FILTER_KEYS = {}"
  shows "alike related (b_add B p c sc md infer (Some sy)) (b_add C p c sc md infer (Some sy))"
  unfolding alike_iff
proof (intro allI impI)
  fix v w
  assume R: "related v w"
  note D = relatedD [OF R]
  have at: "alike_at E (b_add B p c sc md infer (Some sy)) (b_add C p c sc md infer (Some sy)) v w"
    using D clean ok by (intro add_twins) auto
  obtain i now v' where v: "b_add B p c sc md infer (Some sy) v =
      (Inr (Many [\<lparr>r_id = i, r_status = u ''ready'', r_created_at = now, r_event = Ev_add\<rparr>]), v')"
    "abs v' = spec_add p
            \<lparr>m_id = i, m_content = c, m_score = None, m_scope = scope_as_text (or_empty sc),
             m_metadata = or_empty md, m_created_at = now, m_updated_at = None,
             m_partition = p, m_system = sy\<rparr> (abs v)"
    using one.add_refines [OF _ clean ok, of v p c infer "Some sy"] D by auto
  obtain i' now' w' where w: "b_add C p c sc md infer (Some sy) w =
      (Inr (Many [\<lparr>r_id = i', r_status = u ''ready'', r_created_at = now', r_event = Ev_add\<rparr>]), w')"
    "abs' w' = spec_add p
            \<lparr>m_id = i', m_content = c, m_score = None, m_scope = scope_as_text (or_empty sc),
             m_metadata = or_empty md, m_created_at = now', m_updated_at = None,
             m_partition = p, m_system = sy\<rparr> (abs' w)"
    using two.add_refines [OF _ clean ok, of w p c infer "Some sy"] D by auto
  have "i' = i" "now' = now" using at v(1) w(1) by (simp_all add: alike_at_def)
  with v w D have "abs (snd (b_add B p c sc md infer (Some sy) v)) = abs' (snd (b_add C p c sc md infer (Some sy) w))"
    by simp
  then show "alike_at related (b_add B p c sc md infer (Some sy)) (b_add C p c sc md infer (Some sy)) v w"
    using assms at
    by (intro related_kept [OF R] one.stamps.add_keeps two.stamps.add_keeps)
qed

lemma update_alike:
  assumes R: "related v w" and sy: "stamped p sy" and clean: "\<And>x. pt = Some x \<Longrightarrow> clean_keys (patch_keys x)"
    and found: "spec_get p i (abs v) = Some m"
  shows "alike_at related (b_update B p i co pt (Some sy)) (b_update C p i co pt (Some sy)) v w"
proof -
  note D = relatedD [OF R]
  have at: "alike_at E (b_update B p i co pt (Some sy)) (b_update C p i co pt (Some sy)) v w"
    using D clean found by (intro update_twins) auto
  obtain now v' where v: "b_update B p i co pt (Some sy) v = (Inr (updated_memory m co pt (Some sy) now), v')"
    "abs v' = spec_update p m (updated_memory m co pt (Some sy) now) now (abs v)"
    using one.update_refines [OF _ clean found, where co = co and sy = "Some sy"] D by blast
  obtain now' w' where w: "b_update C p i co pt (Some sy) w = (Inr (updated_memory m co pt (Some sy) now'), w')"
    "abs' w' = spec_update p m (updated_memory m co pt (Some sy) now') now' (abs' w)"
    using two.update_refines [where pt = pt and w = w and p = p and i = i and m = m and co = co and sy = "Some sy"]
      D found clean by auto
  have "m_updated_at (updated_memory m co pt (Some sy) now') = m_updated_at (updated_memory m co pt (Some sy) now)"
    using at v(1) w(1) by (simp add: alike_at_def)
  then have "now' = now" by (simp add: updated_memory_def)
  with v w D have "abs (snd (b_update B p i co pt (Some sy) v)) = abs' (snd (b_update C p i co pt (Some sy) w))"
    by simp
  then show ?thesis
    using sy clean at by (intro related_kept [OF R] one.stamps.update_keeps two.stamps.update_keeps)
qed

lemma delete_alike: "alike related (b_delete B p i) (b_delete C p i)"
  unfolding alike_iff
proof (intro allI impI)
  fix v w
  assume R: "related v w"
  note D = relatedD [OF R]
  have "fst (b_delete B p i v) = fst (b_delete C p i w) \<and> abs (snd (b_delete B p i v)) = abs' (snd (b_delete C p i w))"
  proof (cases "spec_get p i (abs v)")
    case None
    then show ?thesis using D one.delete_missing [of v p i] two.delete_missing [of w p i] by simp
  next
    case (Some m)
    then show ?thesis using D one.delete_refines [of v p i m] two.delete_refines [of w p i m] by auto
  qed
  moreover have "E (snd (b_delete B p i v)) (snd (b_delete C p i w))"
    using D by (intro delete_twins) auto
  ultimately show "alike_at related (b_delete B p i) (b_delete C p i) v w"
    by (intro related_kept [OF R] one.stamps.delete_keeps two.stamps.delete_keeps) (simp_all add: alike_at_def)
qed

lemma delete_all_alike:
  assumes R: "related v w" and d: "d \<noteq> []" and ok: "fst ` set d \<inter> NESTED_FILTER_KEYS = {}"
    and fits: "bulk (length (filter (matching (Some d)) (sp_listing (abs v) p)))"
      "bulk' (length (filter (matching (Some d)) (sp_listing (abs v) p)))"
  shows "alike_at related (b_delete_all B p d) (b_delete_all C p d) v w"
proof -
  note D = relatedD [OF R]
  have "E (snd (b_delete_all B p d v)) (snd (b_delete_all C p d w))"
    using D ok fits by (intro delete_all_twins) auto
  moreover have "fst (b_delete_all B p d v) = fst (b_delete_all C p d w)
      \<and> abs (snd (b_delete_all B p d v)) = abs' (snd (b_delete_all C p d w))"
    using D one.delete_all_refines [OF _ ok, of v p] two.delete_all_refines [OF _ ok, of w p] fits by auto
  ultimately show ?thesis
    using d by (intro related_kept [OF R] one.stamps.delete_all_keeps two.stamps.delete_all_keeps)
      (simp_all add: alike_at_def)
qed

lemma entities_alike: "alike related (b_entities B p sc l) (b_entities C p sc l)"
  by (rule alikeI)
    (metis entities_twins one.entities_reads two.entities_reads)

end

sublocale twin_backends \<subseteq> reads: alike_reads B C p related for p
proof
  show "alike related (b_get B p i) (b_get C p i)" for i
    by (rule alikeI, frule relatedD) (simp add: one.get_refines two.get_refines)
  show "alike related (b_search B p q sc l th) (b_search C p q sc l th)"
    if "fst ` set (or_empty sc) \<inter> NESTED_FILTER_KEYS = {}" for sc q l th
    by (rule alikeI, frule relatedD) (simp add: that one.search_refines two.search_refines)
  show "alike related (b_list_memories B p sc l cu) (b_list_memories C p sc l cu)" for sc l cu
    by (rule alikeI, frule relatedD) (simp add: one.list_refines two.list_refines)
  show "alike related (b_history B p i) (b_history C p i)" for i
    by (rule alikeI, frule relatedD) (simp add: one.history_refines two.history_refines split: option.split)
qed

section \<open>Requests\<close>

lemma seq_from_Inl: "seq (from_result (Inl e)) f = raise e"
  by (rule ext) (simp add: act_simps)

context storing_backend
begin

lemma overwrite_run:
  assumes w: "well_stamped inv abs (store s)" and f: "\<And>i sy. stamped p (f i sy)"
    and md: "clean_keys (dict_keys (or_empty md))" and dup: "m_id dup \<in> m_id ` set (sp_listing (abs (store s)) p)"
  shows "\<exists>m t. import_overwrite B p (Some f) op i key c md dup acc s =
        (Inr (add_imported key m (m_id dup) i Updated acc), t)
      \<and> well_stamped inv abs (store t) \<and> m_id m = m_id dup
      \<and> m_id ` set (sp_listing (abs (store t)) p) = m_id ` set (sp_listing (abs (store s)) p)"
proof -
  have inv: "inv (store s)" using w by (simp add: well_stamped_def)
  obtain pt where pt: "overwrite_patch md dup = Inr pt" using overwrite_patch_total by blast
  have clean: "clean_keys (patch_keys x)" if "pt = Some x" for x
    using pt that md by (intro overwrite_patch_clean) simp_all
  obtain m0 where found: "spec_get p (m_id dup) (abs (store s)) = Some m0"
    using dup spec_get_None [of p "m_id dup" "abs (store s)"] by (cases "spec_get p (m_id dup) (abs (store s))") auto
  let ?sy = "f i (Some (m_system dup))"
  obtain now w' where upd: "b_update B p (m_id dup) (Some c) pt (Some ?sy) (store s) =
      (Inr (updated_memory m0 (Some c) pt (Some ?sy) now), w')"
    and abs': "abs w' = spec_update p m0 (updated_memory m0 (Some c) pt (Some ?sy) now) now (abs (store s))"
    using update_refines [OF inv clean found, where co = "Some c" and sy = "Some ?sy"] by blast
  let ?m = "updated_memory m0 (Some c) pt (Some ?sy) now"
  have "in_space m0 p" using w found by (auto simp: well_stamped_def dest: stamped_spec_get)
  then have space: "in_space ?m p" using f by (simp add: in_space_updated)
  have "import_overwrite B p (Some f) op i key c md dup acc s =
      (Inr (add_imported key ?m (m_id dup) i Updated acc), s\<lparr>store := w'\<rparr>)"
    by (simp add: import_overwrite_def act_simps pt attempt_def upd check_space_run space)
  moreover have "well_stamped inv abs w'"
    using stamps.update_keeps [of p ?sy pt "m_id dup" "Some c"] f clean w upd
    by (metis keeps_def snd_conv)
  moreover have "m_id m0 = m_id dup" using spec_get_Some [OF found] by simp
  moreover have "map m_id (sp_listing (abs w') p) = map m_id (sp_listing (abs (store s)) p)"
    by (simp add: abs' spec_update_def)
  then have "m_id ` set (sp_listing (abs w') p) = m_id ` set (sp_listing (abs (store s)) p)"
    by (metis set_map)
  ultimately show ?thesis by (intro exI [of _ ?m] exI [of _ "s\<lparr>store := w'\<rparr>"]) simp
qed

text \<open>Every memory the import loop knows of is in the space.\<close>

definition known_in :: "pystr \<Rightarrow> (dedup, memory) dict \<Rightarrow> 'w st \<Rightarrow> bool" where
  "known_in p ex s \<longleftrightarrow> m_id ` snd ` set ex \<subseteq> m_id ` set (sp_listing (abs (store s)) p)"

lemma known_set:
  "known_in p ex s \<Longrightarrow> m_id ` set (sp_listing (abs (store s)) p) \<subseteq> m_id ` set (sp_listing (abs (store t)) p) \<Longrightarrow>
   m_id m \<in> m_id ` set (sp_listing (abs (store t)) p) \<Longrightarrow> known_in p (dict_set k m ex) t"
proof -
  assume known: "known_in p ex s"
    and grow: "m_id ` set (sp_listing (abs (store s)) p) \<subseteq> m_id ` set (sp_listing (abs (store t)) p)"
    and m: "m_id m \<in> m_id ` set (sp_listing (abs (store t)) p)"
  have "snd ` set (dict_set k m ex) \<subseteq> insert m (snd ` set ex)"
    by (induction ex) auto
  then have "m_id ` snd ` set (dict_set k m ex) \<subseteq> m_id ` insert m (snd ` set ex)"
    by (rule image_mono)
  also have "\<dots> \<subseteq> m_id ` set (sp_listing (abs (store t)) p)"
    using m subset_trans [OF known [unfolded known_in_def] grow] by simp
  finally show "known_in p (dict_set k m ex) t" by (simp add: known_in_def)
qed

lemma import_one_known:
  assumes w: "well_stamped inv abs (store s)" and f: "\<And>i sy. stamped p (f i sy)"
    and v: "good_validator v" and known: "known_in p (is_existing acc) s"
    and run: "import_one B p oc v (Some f) op i x acc s = (Inr acc1, t)"
  shows "known_in p (is_existing acc1) t"
proof (cases "check_entry v x")
  case (Inl m)
  with run known show ?thesis by (auto simp: import_one_def act_simps add_error_def)
next
  case (Inr e)
  obtain c sc md where e: "check_entry v x = Inr (c, sc, md)" using Inr by (cases e) auto
  let ?k = "dedup_key c sc"
  have create: "known_in p (is_existing acc1) t"
    if "import_create B p (Some f) op i ?k c sc md acc s = (Inr acc1, t)"
  proof -
    obtain m t' where "import_create B p (Some f) op i ?k c sc md acc s =
        (Inr (add_imported ?k m (m_id m) i Created acc), t')"
      and abs': "abs (store t') = spec_add p m (abs (store s))"
      using import_create_run [where f = f and acc = acc and op = op and i = i and key = ?k,
          OF w f storable_entry [OF v e]] by blast
    then have t: "t' = t" "acc1 = add_imported ?k m (m_id m) i Created acc" using that by simp_all
    have "m_id ` set (sp_listing (abs (store s)) p) \<subseteq> m_id ` set (sp_listing (abs (store t)) p)"
      "m_id m \<in> m_id ` set (sp_listing (abs (store t)) p)"
      using abs' t(1) by (auto simp: spec_add_def)
    from known_set [OF known this] t(2) show ?thesis by (simp add: add_imported_def)
  qed
  show ?thesis
  proof (cases "map_of (is_existing acc) ?k")
    case None
    with run e create show ?thesis by (simp add: import_one_def Let_def)
  next
    case (Some dup)
    then have "dup \<in> snd ` set (is_existing acc)" by (force dest: map_of_SomeD)
    then have dup: "m_id dup \<in> m_id ` set (sp_listing (abs (store s)) p)"
      using known by (auto simp: known_in_def)
    have md: "clean_keys (dict_keys (or_empty md))" by (rule check_entry_scope(3) [OF v e])
    obtain m t' where over: "import_overwrite B p (Some f) op i ?k c md dup acc s =
        (Inr (add_imported ?k m (m_id dup) i Updated acc), t')" and m: "m_id m = m_id dup"
      and same: "m_id ` set (sp_listing (abs (store t')) p) = m_id ` set (sp_listing (abs (store s)) p)"
      using overwrite_run [where f = f and acc = acc and op = op and i = i and key = ?k and c = c,
          OF w f md dup] by blast
    have "known_in p (dict_set ?k m (is_existing acc)) t'"
      using same dup m by (intro known_set [OF known]) auto
    with run e Some create over known show ?thesis
      by (auto simp: import_one_def Let_def act_simps add_skipped_def add_imported_def split: if_splits)
  qed
qed

end

context twin_backends
begin

lemma known_related:
  assumes "same_st related s t"
  shows "well_stamped inv abs (store s)"
  using assms by (simp add: same_st_def twin_def)

lemma failure_alike:
  "alike (same_st related) (record_backend_failure i st b acc) (record_backend_failure i st b acc)"
  by (auto simp: record_backend_failure_def intro!: alike_rules)

lemma create_alike:
  assumes f: "\<And>i sy. stamped p (f i sy)" and ok: "fst ` set (or_empty sc) \<inter> NESTED_FILTER_KEYS = {}"
    and md: "clean_keys (dict_keys (or_empty md))"
  shows "alike (same_st related) (import_create B p (Some f) op i key c sc md acc)
    (import_create C p (Some f) op i key c sc md acc)"
proof -
  have "alike (same_st related) (import_read_back B p op i key rs acc) (import_read_back C p op i key rs acc)"
    for rs acc
    by (induction rs arbitrary: acc) (auto intro!: alike_rules reads.get_alike failure_alike)
  then show ?thesis
    unfolding import_create_def
    using f ok md by (auto intro!: alike_rules add_alike failure_alike)
qed

lemma import_one_alike:
  assumes R: "same_st related s t" and f: "\<And>i sy. stamped p (f i sy)" and v: "good_validator v"
    and known: "one.known_in p (is_existing acc) s"
  shows "alike_at (same_st related) (import_one B p oc v (Some f) op i x acc)
    (import_one C p oc v (Some f) op i x acc) s t"
proof (cases "check_entry v x")
  case (Inl m)
  with R show ?thesis by (simp add: import_one_def alike_at_def act_simps)
next
  case (Inr e)
  obtain c sc md where e: "check_entry v x = Inr (c, sc, md)" using Inr by (cases e) auto
  let ?k = "dedup_key c sc"
  note entry = check_entry_scope(1,3) [OF v e]
  have create: "alike_at (same_st related) (import_create B p (Some f) op i ?k c sc md acc)
      (import_create C p (Some f) op i ?k c sc md acc) s t"
    using create_alike [where f = f, OF f entry] R by (simp add: alike_iff)
  have over: "alike_at (same_st related) (import_overwrite B p (Some f) op i ?k c md dup acc)
      (import_overwrite C p (Some f) op i ?k c md dup acc) s t"
    if "map_of (is_existing acc) ?k = Some dup" for dup
  proof -
    have "dup \<in> snd ` set (is_existing acc)" using that by (force dest: map_of_SomeD)
    then have "m_id dup \<in> m_id ` set (sp_listing (abs (store s)) p)"
      using known by (auto simp: one.known_in_def)
    then obtain m0 where found: "spec_get p (m_id dup) (abs (store s)) = Some m0"
      using spec_get_None [of p "m_id dup" "abs (store s)"] by (cases "spec_get p (m_id dup) (abs (store s))") auto
    have rel: "related (store s) (store t)" using R by (simp add: same_st_def)
    have upd: "alike_at related (b_update B p (m_id dup) (Some c) pt (Some (f i (Some (m_system dup)))))
        (b_update C p (m_id dup) (Some c) pt (Some (f i (Some (m_system dup))))) (store s) (store t)"
      if "overwrite_patch md dup = Inr pt" for pt
      using f found that entry(2) by (intro update_alike [OF rel]) (auto dest: overwrite_patch_clean)
    show ?thesis
      unfolding import_overwrite_def option.map
    proof (rule alike_at_result)
      fix pt
      assume "overwrite_patch md dup = Inr pt"
      note call = alike_at_call [OF upd [OF this] R]
      show "alike_at (same_st related)
          (seq (attempt (call (b_update B p (m_id dup) (Some c) pt (Some (f i (Some (m_system dup)))))))
            (\<lambda>r. case r of Inl (status, body) \<Rightarrow> record_backend_failure i status body acc
             | Inr updated \<Rightarrow> seq (check_space (Some updated) p op (m_id dup))
                 (\<lambda>m. ret (add_imported ?k m (m_id dup) i Updated acc))))
          (seq (attempt (call (b_update C p (m_id dup) (Some c) pt (Some (f i (Some (m_system dup)))))))
            (\<lambda>r. case r of Inl (status, body) \<Rightarrow> record_backend_failure i status body acc
             | Inr updated \<Rightarrow> seq (check_space (Some updated) p op (m_id dup))
                 (\<lambda>m. ret (add_imported ?k m (m_id dup) i Updated acc)))) s t"
        by (rule alike_at_then [OF alike_at_guards(2) [OF call]]) (auto intro!: alike_rules failure_alike)
    qed (rule R)
  qed
  show ?thesis
    using e create over R
    by (auto simp: import_one_def Let_def alike_at_def act_simps split: option.split)
qed

lemma import_loop_alike:
  assumes f: "\<And>i sy. stamped p (f i sy)" and v: "good_validator v"
  shows "same_st related s t \<Longrightarrow> one.known_in p (is_existing acc) s \<Longrightarrow>
    alike_at (same_st related) (import_loop B p oc v (Some f) op i xs acc)
      (import_loop C p oc v (Some f) op i xs acc) s t"
proof (induction xs arbitrary: i acc s t)
  case Nil
  then show ?case by (simp add: alike_at_def act_simps)
next
  case (Cons x xs)
  show ?case
    unfolding import_loop.simps
  proof (rule alike_at_seq)
    show "alike_at (same_st related) (import_one B p oc v (Some f) op i x acc)
        (import_one C p oc v (Some f) op i x acc) s t"
      by (rule import_one_alike [OF Cons.prems(1) f v Cons.prems(2)])
    fix acc1 s1 t1
    assume run: "import_one B p oc v (Some f) op i x acc s = (Inr acc1, s1)" and R: "same_st related s1 t1"
    have "one.known_in p (is_existing acc1) s1"
      by (rule one.import_one_known [OF known_related [OF Cons.prems(1)] f v Cons.prems(2) run])
    with R show "alike_at (same_st related) (import_loop B p oc v (Some f) op (Suc i) xs acc1)
        (import_loop C p oc v (Some f) op (Suc i) xs acc1) s1 t1"
      by (rule Cons.IH)
  qed
qed

lemma index_values: "snd ` set (index_memories ms) \<subseteq> set ms"
proof -
  have set: "snd ` set (dict_set k m d) \<subseteq> insert m (snd ` set d)" for k :: dedup and m :: memory and d
    by (induction d) auto
  have "snd ` set (fold (\<lambda>m. dict_set (dedup_key (m_content m) (Some (m_scope m))) m) ms d)
      \<subseteq> set ms \<union> snd ` set d" for d
  proof (induction ms arbitrary: d)
    case (Cons m ms)
    show ?case
      using Cons.IH [of "dict_set (dedup_key (m_content m) (Some (m_scope m))) m d"]
        set [of "dedup_key (m_content m) (Some (m_scope m))" m d] by auto
  qed simp
  from this [of "[]"] show ?thesis by (simp add: index_memories_def)
qed

lemma import_alike:
  assumes f: "\<And>i sy. stamped p (f i sy)" and v: "good_validator v" and limit: "0 \<le> limit"
  shows "alike (same_st related) (import_payload B p xs oc v limit (Some f) op)
    (import_payload C p xs oc v limit (Some f) op)"
proof -
  have same: "refuse_on_conflict C oc = refuse_on_conflict B oc"
    by (simp add: refuse_on_conflict_def capabilities_twins)
  have index: "alike (same_st related) (build_dedup_index B p limit op) (build_dedup_index C p limit op)"
    unfolding build_dedup_index_def by (auto intro!: alike_rules reads.list_all_alike)
  have known: "one.known_in p existing s1"
    if R: "same_st related s t" and run: "build_dedup_index B p limit op s = (Inr (existing, inc), s1)"
    for s t existing inc s1
  proof -
    have "existing = index_memories (take (nat limit) (sp_listing (abs (store s)) p))" "s1 = s"
      using run one.build_dedup_index_run [OF known_related [OF R] limit, of p op] by auto
    moreover have "snd ` set (index_memories (take (nat limit) L)) \<subseteq> set L" for L
      using index_values [of "take (nat limit) L"] set_take_subset [of "nat limit" L] by blast
    ultimately show ?thesis unfolding one.known_in_def by (simp add: image_mono)
  qed
  show ?thesis
    unfolding import_payload_def same
  proof (rule alike_seq_result)
    show "alike (same_st related)
       (seq (if oc \<noteq> u ''duplicate'' then build_dedup_index B p limit op else ret ([], False))
         (\<lambda>(existing, incomplete). seq (import_loop B p oc v (Some f) op 0 xs
            \<lparr>is_existing = existing, is_outcome = no_outcome incomplete, is_failures = 0\<rparr>) (\<lambda>is.
         seq (if is_failures is > 1 then log_event (Backend_errors_counted (is_failures is - 1)) else ret ())
           (\<lambda>_. ret (is_outcome is)))))
       (seq (if oc \<noteq> u ''duplicate'' then build_dedup_index C p limit op else ret ([], False))
         (\<lambda>(existing, incomplete). seq (import_loop C p oc v (Some f) op 0 xs
            \<lparr>is_existing = existing, is_outcome = no_outcome incomplete, is_failures = 0\<rparr>) (\<lambda>is.
         seq (if is_failures is > 1 then log_event (Backend_errors_counted (is_failures is - 1)) else ret ())
           (\<lambda>_. ret (is_outcome is)))))"
    proof (cases "oc = u ''duplicate''")
      case True
      then show ?thesis
        unfolding alike_iff
        by (auto intro!: alike_at_then [OF import_loop_alike [where f = f, OF f v]] alike_rules
            simp: seq_ret one.known_in_def)
    next
      case False
      then show ?thesis
        unfolding alike_iff
        by (auto intro!: alike_at_seq [OF index [unfolded alike_iff, rule_format]]
            alike_at_then [OF import_loop_alike [where f = f, OF f v]] alike_rules intro: known)
    qed
  qed
qed

lemma read_then:
  assumes P: "pol_backend P = B" "pol_backend Q = C" and R: "same_st related s t"
    and f: "\<And>m. spec_get p i (abs (store s)) = Some m \<Longrightarrow> alike_at (same_st related) (f m) (g m) s t"
  shows "alike_at (same_st related) (seq (policy_read P p i op) f) (seq (policy_read Q p i op) g) s t"
proof -
  have run: "policy_read P p i op s = (lookup_result i (spec_get p i (abs (store s))), s)"
    "policy_read Q p i op t = (lookup_result i (spec_get p i (abs (store s))), t)"
    using R by (simp_all add: one.policy_read_run [OF P(1)] two.policy_read_run [OF P(2)] same_st_def twin_def)
  show ?thesis
  proof (cases "lookup_result i (spec_get p i (abs (store s)))")
    case (Inr m)
    then have "spec_get p i (abs (store s)) = Some m"
      by (auto simp: lookup_result_def split: if_splits option.splits)
    with f run Inr show ?thesis by (simp add: alike_at_def act_simps)
  qed (use run R in \<open>simp add: alike_at_def act_simps\<close>)
qed

lemma update_alike_then:
  assumes R: "same_st related s t" and "stamped p sy" and "\<And>x. pt = Some x \<Longrightarrow> clean_keys (patch_keys x)"
    and "spec_get p i (abs (store s)) = Some m" and "\<And>x. alike (same_st related) (f x) (g x)"
  shows "alike_at (same_st related) (seq (not_found (call (b_update B p i co pt (Some sy)))) f)
    (seq (not_found (call (b_update C p i co pt (Some sy)))) g) s t"
proof -
  have "related (store s) (store t)" using R by (simp add: same_st_def)
  then show ?thesis
    using assms by (intro alike_at_then alike_at_guards alike_at_call update_alike)
qed

lemma update_body_alike:
  assumes P: "pol_backend P = B" "pol_backend Q = C"
  shows "alike (same_st related) (update_body P (Some key) i co md) (update_body Q (Some key) i co md)"
  unfolding update_body_def Let_def P alike_iff
  by (auto intro!: alike_at_check alike_at_result read_then [OF P] update_alike_then alike_check_space
      alike_at_seq [OF alike_entry(1) [unfolded alike_iff, rule_format]]
      dest: requested_patch_clean)

lemma delete_all_body_alike:
  assumes P: "pol_backend P = B" "pol_backend Q = C" "pol_scope_keys Q = pol_scope_keys P"
    and R: "same_st related s t"
    and fits: "\<And>n. n \<le> length (sp_listing (abs (store s)) (space_of key)) \<Longrightarrow> bulk n \<and> bulk' n"
  shows "alike_at (same_st related) (delete_all_body P (Some key) sc) (delete_all_body Q (Some key) sc) s t"
proof -
  have call: "alike_at (same_st related) (call (b_delete_all B (space_of key) d)) (call (b_delete_all C (space_of key) d)) s1 t1"
    if R: "same_st related s1 t1" and st: "store s1 = store s" and d: "d \<noteq> []" "fst ` set d \<inter> NESTED_FILTER_KEYS = {}"
    for d s1 t1
  proof -
    have "related (store s1) (store t1)" using R by (simp add: same_st_def)
    from delete_all_alike [OF this d] fits show ?thesis
      by (intro alike_at_call R) (simp add: st)
  qed
  have tail: "alike (same_st related) (seq (set_count n) (\<lambda>_. ret n)) (seq (set_count n) (\<lambda>_. ret n))" for n
    by (auto intro!: alike_rules)
  show ?thesis
    unfolding delete_all_body_def Let_def P(1,2)
    using R
    by (auto intro!: alike_at_result alike_at_scope [OF P(3)] alike_at_if alike_at_raise alike_at_then [OF call] tail
        simp: require_ok) (simp_all add: same_st_def)
qed

lemma other_body_alike:
  assumes P: "pol_backend P = B" "pol_backend Q = C" "pol_scope_keys Q = pol_scope_keys P"
    "pol_capabilities Q = pol_capabilities P" and r: "\<And>sc. r \<noteq> Delete_all sc"
  shows "alike (same_st related) (request_body P (Some key) r) (request_body Q (Some key) r)"
proof (cases "plain_read r")
  case True
  then show ?thesis using P by (intro reads.reads_alike) auto
next
  case False
  have args: "import_arguments Q = import_arguments P" "validate_entry_scope Q = validate_entry_scope P"
    by (simp_all add: import_arguments_def validate_entry_scope_def P fun_eq_iff)
  have added: "alike (same_st related) (check_added B (space_of key) items) (check_added C (space_of key) items)" for items
    by (induction items) (auto intro!: alike_rules reads.get_alike)
  have add: "alike (same_st related) (add_body P (Some key) c sc md infer) (add_body Q (Some key) c sc md infer)"
    for c sc md infer
    unfolding add_body_def Let_def P
    by (auto intro!: alike_require alike_check alike_checked_scope [OF P(3)] alike_rules add_alike added
        add_arguments_clean)
  have delete: "alike (same_st related) (delete_body P (Some key) i) (delete_body Q (Some key) i)" for i
    unfolding delete_body_def Let_def
    by (auto intro!: alike_require alike_rules reads.read_alike [OF P(1,2)] delete_alike simp: P)
  have entities: "alike (same_st related) (entities_body P (Some key) sc l) (entities_body Q (Some key) sc l)" for sc l
    unfolding entities_body_def Let_def
    by (auto intro!: alike_checked_scope [OF P(3)] alike_rules entities_alike simp: P seq_from_Inr)
  have imp: "alike (same_st related) (import_body P (Some key) xs oc) (import_body Q (Some key) xs oc)" for xs oc
    unfolding import_body_def Let_def
    by (auto intro!: alike_require alike_rules import_alike stamped_import_stamp good_validator_entry
        simp: P args MAX_EXPORT_def)
  show ?thesis
    using False r
    by (cases r) (auto intro!: alike_mapped add delete entities imp update_body_alike [OF P(1,2)])
qed

lemma perform_alike:
  assumes P: "pol_backend P = B" "pol_backend Q = C" "pol_scope_keys Q = pol_scope_keys P"
    "pol_capabilities Q = pol_capabilities P"
    and R: "same_st related s t"
    and fits: "\<And>q n. n \<le> length (sp_listing (abs (store s)) q) \<Longrightarrow> bulk n \<and> bulk' n"
  shows "alike_at (same_st related) (perform P ctx r) (perform Q ctx r) s t"
  unfolding perform_audited
proof (rule alike_at_audited [OF R])
  let ?s = "s\<lparr>entry := opening_entry ctx (operation_name r)\<rparr>"
  let ?t = "t\<lparr>entry := opening_entry ctx (operation_name r)\<rparr>"
  have R': "same_st related ?s ?t" using R by (simp add: same_st_def)
  show "alike_at (same_st related) (request_body P ctx r) (request_body Q ctx r) ?s ?t"
  proof (cases ctx)
    case None
    have "alike (same_st related) (request_body P None r) (request_body Q None r)"
      by (cases r) (auto simp: body_defs require_def current_key_def seq_from_Inl intro!: alike_rules)
    with R' None show ?thesis by (simp add: alike_iff)
  next
    case (Some key)
    show ?thesis
    proof (cases "\<exists>sc. r = Delete_all sc")
      case True
      then obtain sc where r: "r = Delete_all sc" by blast
      have "alike_at (same_st related) (delete_all_body P (Some key) sc) (delete_all_body Q (Some key) sc) ?s ?t"
        by (rule delete_all_body_alike [OF P(1-3) R']) (use fits in simp)
      then show ?thesis
        unfolding r Some request_body.simps mapped_def by (rule alike_at_then) (rule alike_ret)
    next
      case False
      with other_body_alike [OF P, of r key] R' Some show ?thesis by (simp add: alike_iff)
    qed
  qed
qed

end

section \<open>Sessions\<close>

fun replies :: "'w policy \<Rightarrow> (key option \<times> request) list \<Rightarrow> 'w st \<Rightarrow> (exc + response) list" where
  "replies P [] s = []"
| "replies P ((ctx, r) # rs) s = fst (perform P ctx r s) # replies P rs (snd (perform P ctx r s))"

context twin_backends
begin

lemma session_alike:
  assumes P: "pol_backend P = B" "pol_backend Q = C" "pol_scope_keys Q = pol_scope_keys P"
    "pol_capabilities Q = pol_capabilities P"
  shows "same_st related s t \<Longrightarrow>
    (\<And>k q n. n \<le> length (sp_listing (abs (store (run_session P (take k rs) s))) q) \<Longrightarrow> bulk n \<and> bulk' n) \<Longrightarrow>
    replies P rs s = replies Q rs t \<and> same_st related (run_session P rs s) (run_session Q rs t)"
proof (induction rs arbitrary: s t)
  case (Cons a rs)
  obtain ctx r where a: "a = (ctx, r)" by (cases a)
  have one: "alike_at (same_st related) (perform P ctx r) (perform Q ctx r) s t"
    using Cons.prems(2) [of _ 0] by (intro perform_alike [OF P Cons.prems(1)]) simp
  have "replies P rs (snd (perform P ctx r s)) = replies Q rs (snd (perform Q ctx r t))
      \<and> same_st related (run_session P rs (snd (perform P ctx r s))) (run_session Q rs (snd (perform Q ctx r t)))"
  proof (rule Cons.IH)
    show "same_st related (snd (perform P ctx r s)) (snd (perform Q ctx r t))"
      using one by (simp add: alike_at_def)
    fix k q n
    assume "n \<le> length (sp_listing (abs (store (run_session P (take k rs) (snd (perform P ctx r s))))) q)"
    with Cons.prems(2) [of n "Suc k" q] show "bulk n \<and> bulk' n" by (simp add: a)
  qed
  with one show ?case by (simp add: a alike_at_def)
qed simp

end

section \<open>The two local backends\<close>

abbreviation local_twin :: "mem_store \<Rightarrow> sql_store \<Rightarrow> bool" where
  "local_twin \<equiv> twin mem_inv mem_abs sq_inv sq_abs (\<lambda>v w. ms_env v = db_env w)"

lemma mem_delete_env: "ms_env (snd (mem_delete p i w)) = ms_env w" "ms_env (snd (mem_delete_all p d w)) = ms_env w"
  by (auto simp: mem_delete_def mem_delete_all_def mem_run from_result_def raising_def Let_def
      split: option.split sum.split)

lemma prune_env: "db_env (snd (transaction (seq (delete_memories n is) (\<lambda>_. delete_history n is)) w)) = db_env w"
  by (simp add: transaction_def delete_memories_def delete_history_def act_simps)

lemma sq_delete_env: "db_env (snd (sq_delete n p i w)) = db_env w" "db_env (snd (sq_delete_all n p d w)) = db_env w"
  using prune_env [of n "[i]" w] prune_env [of n "sq_doomed p d w" w]
  by (auto simp: sq_delete_def sq_delete_all_def sq_validate_partition_def refuse_partition_def run_op_def
      act_simps raising_def Let_def split: sum.split prod.split)

text \<open>Both draw an id and then a time for an add, and one time for an update of what is there.\<close>

interpretation local_pair: twin_backends "in_memory_backend U" mem_inv mem_abs "keyword_rank U" "\<lambda>n. True"
  "sqlite_backend U (Suc vars)" sq_inv sq_abs "\<lambda>k. k \<le> Suc vars" "\<lambda>v w. ms_env v = db_env w" for U vars
proof (unfold_locales, goal_cases)
  case (1 v w md sc p c infer sy)
  from mem_add_run [OF 1(1,4,5), of p c infer sy] sq_add_run [OF 1(2,4,5), of p c infer sy] 1(3)
  show ?case by (auto simp: alike_at_def in_memory_backend_def sqlite_backend_def)
next
  case (2 v w pt p i m co sy)
  from mem_update_run [where pt = pt and co = co and sy = sy, OF 2(1,4,5)]
    sq_update_run [where pt = pt and co = co and sy = sy, OF 2(2,4,6)] 2(3)
  show ?case by (auto simp: alike_at_def in_memory_backend_def sqlite_backend_def)
next
  case (3 v w p i)
  then show ?case by (simp add: in_memory_backend_def sqlite_backend_def mem_delete_env sq_delete_env)
next
  case (4 v w d p)
  then show ?case by (simp add: in_memory_backend_def sqlite_backend_def mem_delete_env sq_delete_env)
next
  case (5 p sc l v w)
  then show ?case
    by (simp add: in_memory_backend_def sqlite_backend_def mem_entities_def sq_entities_def raise_def)
next
  case 6
  then show ?case by (simp add: in_memory_backend_def sqlite_backend_def)
qed

text \<open>
  Property C23: the two local backends are interchangeable. From stores with the same
  contents and the same source of ids and times, any session of requests, writes and imports
  included, gets the same replies from either, errors included, leaves the same audit records and
  the same log lines, and ends in stores with the same contents, as long as no space holds more
  memories than one bulk delete of SQLite can name.
\<close>

theorem backends_interchangeable:
  assumes "pol_backend P = in_memory_backend U" and "pol_backend Q = sqlite_backend U (Suc vars)"
    and "pol_scope_keys Q = pol_scope_keys P" and "pol_capabilities Q = pol_capabilities P"
    and "same_st local_twin s t"
    and "\<And>k p. length (held (run_session P (take k rs) s) p) \<le> Suc vars"
  shows "replies P rs s = replies Q rs t
    \<and> audit_log (run_session P rs s) = audit_log (run_session Q rs t)
    \<and> server_log (run_session P rs s) = server_log (run_session Q rs t)
    \<and> mem_abs (store (run_session P rs s)) = sq_abs (store (run_session Q rs t))"
proof -
  have "n \<le> Suc vars" if "n \<le> length (held (run_session P (take k rs) s) q)" for k q n
    using that assms(6) [of k q] by (rule order_trans)
  then have "replies P rs s = replies Q rs t \<and> same_st local_twin (run_session P rs s) (run_session Q rs t)"
    by (intro local_pair.session_alike [OF assms(1-5)]) auto
  then show ?thesis by (simp add: same_st_def twin_def)
qed

lemma twins_at_start: "same_st local_twin (start demo_env) (start demo_new)"
proof -
  have env: "ms_env demo_env = db_env demo_new" by (simp add: demo_new_def sqlite_init_def)
  have "sq_inv demo_new" by (rule demo_new_inv)
  moreover have empty: "mem_abs demo_env = sq_abs demo_new"
    by (simp add: mem_abs_def sq_abs_def demo_env_def in_memory_init_def demo_new_def sqlite_init_def
        create_schema_def user_rows_def)
  ultimately show ?thesis
    using served_demo(1) env by (simp add: same_st_def twin_def well_stamped_def) (simp add: start_def)
qed

theorem backends_interchangeable_witness:
  "replies demo_policy [(Some ann, add_hi), (Some ray, Get [97])] (start demo_env) =
   replies (demo_sql_policy 0) [(Some ann, add_hi), (Some ray, Get [97])] (start demo_new)"
proof -
  let ?rs = "[(Some ann, add_hi), (Some ray, Get [97])]"
  let ?s = "snd (perform demo_policy (Some ann) add_hi (start demo_env))"
  have one: "store ?s = demo_one" by (rule demo_add_store)
  have "served ?s" using served_demo(2) one by (simp add: start_def)
  then have two: "store (snd (perform demo_policy (Some ray) (Get [97]) ?s)) = demo_one"
    using in_memory.read_unchanged [OF demo_backend, of ?s "Get [97]" "Some ray"] one by simp
  have "store (run_session demo_policy (take k ?rs) (start demo_env)) \<in> {demo_env, demo_one}" for k
  proof (cases k)
    case (Suc n)
    then show ?thesis using one two by (cases n) simp_all
  qed (simp add: start_def)
  moreover have "length (sp_listing (mem_abs demo_env) p) \<le> Suc 0" "length (sp_listing (mem_abs demo_one) p) \<le> Suc 0" for p
    by (simp_all add: mem_listing_abs demo_env_def in_memory_init_def demo_one_def)
  ultimately have small: "length (held (run_session demo_policy (take k ?rs) (start demo_env)) p) \<le> Suc 0" for k p
    by (metis insertE singletonD)
  show ?thesis
    using backends_interchangeable [OF demo_backend demo_sql_policy_sel(1) demo_sql_policy_sel(2) _ twins_at_start small]
    by (simp add: demo_policy_def demo_sql_policy_def)
qed

end
