(* ===== verification/Interleaved.thy ===== *)
theory Interleaved
  imports Twins
begin

text \<open>
  Requests that run at the same time. The server is one event loop: a request gives way to others
  only where it awaits a backend call, and the SQLite backend runs each call under its lock
  (\<open>SqliteBackend._run\<close>). So one request sees the others as calls made between its own: \<open>interfered
  B\<close> is the backend \<open>B\<close> with a list of such moves pending, one before each call. \<open>traffic\<close> are the
  moves policy can make. The lemmas: what requests do and answer whatever runs between their calls.
\<close>

section \<open>Calls with others between them\<close>

type_synonym 'w busy = "'w \<times> ('w \<Rightarrow> 'w) list"

fun let_others :: "'w busy \<Rightarrow> 'w busy" where
  "let_others (w, []) = (w, [])"
| "let_others (w, f # fs) = (f w, fs)"

definition amid :: "('w, 'a) act \<Rightarrow> ('w busy, 'a) act" where
  "amid m s = (case let_others s of (w, fs) \<Rightarrow> (case m w of (r, w') \<Rightarrow> (r, (w', fs))))"

definition interfered :: "'w backend \<Rightarrow> 'w busy backend" where
  "interfered B =
     \<lparr>b_retrieval = b_retrieval B, b_extracts_facts = b_extracts_facts B,
      b_capabilities = b_capabilities B, b_scope_keys = b_scope_keys B,
      b_validate_partition = b_validate_partition B,
      b_add = (\<lambda>p c sc md infer sy. amid (b_add B p c sc md infer sy)),
      b_search = (\<lambda>p q sc l th. amid (b_search B p q sc l th)),
      b_delete = (\<lambda>p i. amid (b_delete B p i)),
      b_delete_all = (\<lambda>p d. amid (b_delete_all B p d)),
      b_get = (\<lambda>p i. amid (b_get B p i)),
      b_update = (\<lambda>p i co pt sy. amid (b_update B p i co pt sy)),
      b_list_memories = (\<lambda>p sc l cu. amid (b_list_memories B p sc l cu)),
      b_history = (\<lambda>p i. amid (b_history B p i)),
      b_entities = (\<lambda>p sc l. amid (b_entities B p sc l)),
      b_health = amid (b_health B), b_close = amid (b_close B)\<rparr>"

lemma interfered_sel [simp]:
  "b_add (interfered B) p c sc md infer sy = amid (b_add B p c sc md infer sy)"
  "b_search (interfered B) p q sc l th = amid (b_search B p q sc l th)"
  "b_delete (interfered B) p i = amid (b_delete B p i)"
  "b_delete_all (interfered B) p d = amid (b_delete_all B p d)"
  "b_get (interfered B) p i = amid (b_get B p i)"
  "b_update (interfered B) p i co pt sy = amid (b_update B p i co pt sy)"
  "b_list_memories (interfered B) p sc l cu = amid (b_list_memories B p sc l cu)"
  "b_history (interfered B) p i = amid (b_history B p i)"
  "b_entities (interfered B) p sc l = amid (b_entities B p sc l)"
  by (simp_all add: interfered_def)

text \<open>What one call of policy's in the space \<open>q\<close> does to the store.\<close>

inductive policy_call :: "'w backend \<Rightarrow> pystr \<Rightarrow> ('w \<Rightarrow> 'w) \<Rightarrow> bool" for B q where
  call_add: "stamped q sy \<Longrightarrow> clean_keys (dict_keys (or_empty md)) \<Longrightarrow>
    policy_call B q (\<lambda>w. snd (b_add B q c sc md infer (Some sy) w))"
| call_search: "policy_call B q (\<lambda>w. snd (b_search B q query sc l th w))"
| call_delete: "policy_call B q (\<lambda>w. snd (b_delete B q i w))"
| call_delete_all: "d \<noteq> [] \<Longrightarrow> policy_call B q (\<lambda>w. snd (b_delete_all B q d w))"
| call_get: "policy_call B q (\<lambda>w. snd (b_get B q i w))"
| call_update: "stamped q sy \<Longrightarrow> (\<forall>x. pt = Some x \<longrightarrow> clean_keys (patch_keys x)) \<Longrightarrow>
    policy_call B q (\<lambda>w. snd (b_update B q i co pt (Some sy) w))"
| call_list: "policy_call B q (\<lambda>w. snd (b_list_memories B q sc l cu w))"
| call_history: "policy_call B q (\<lambda>w. snd (b_history B q i w))"
| call_entities: "policy_call B q (\<lambda>w. snd (b_entities B q sc l w))"

text \<open>Any number of such calls, in the spaces \<open>Q\<close>.\<close>

inductive traffic :: "'w backend \<Rightarrow> (pystr \<Rightarrow> bool) \<Rightarrow> ('w \<Rightarrow> 'w) \<Rightarrow> bool" for B Q where
  quiet: "traffic B Q (\<lambda>w. w)"
| after_call: "traffic B Q f \<Longrightarrow> Q q \<Longrightarrow> policy_call B q g \<Longrightarrow> traffic B Q (\<lambda>w. g (f w))"

lemma traffic_mono: "traffic B Q f \<Longrightarrow> (\<And>q. Q q \<Longrightarrow> Q' q) \<Longrightarrow> traffic B Q' f"
  by (induction rule: traffic.induct) (auto intro: traffic.intros)

lemma one_call: "policy_call B q g \<Longrightarrow> Q q \<Longrightarrow> traffic B Q g"
  using traffic.after_call [OF traffic.quiet, of Q q B g] by simp

context confined_backend
begin

lemma policy_call_keeps: "policy_call B p g \<Longrightarrow> I w \<Longrightarrow> I (g w)"
  by (erule policy_call.cases)
    (use add_keeps search_keeps delete_keeps delete_all_keeps get_keeps update_keeps list_keeps
      history_keeps entities_keeps in \<open>simp_all add: keeps_def\<close>)

lemma calls: "partition_calls B p (on_store I)"
  by (rule confined.partition_calls_axioms)

end

lemma traffic_keeps:
  assumes "traffic B Q f" and I: "\<And>q. Q q \<Longrightarrow> confined_backend B q I" and "I w"
  shows "I (f w)"
  using assms(1,3)
proof (induction rule: traffic.induct)
  case (after_call f q g)
  then show ?case using confined_backend.policy_call_keeps [OF I] by blast
qed

text \<open>
  Whole requests are such moves: everything a request does to the store is a sequence of calls in
  its key's space.
\<close>

lemma traffic_confined:
  fixes B :: "'w backend"
  shows "confined_backend B p (\<lambda>w. \<exists>f. traffic B ((=) p) f \<and> w = f w0)"
proof -
  have step: "keeps (\<lambda>w. \<exists>f. traffic B ((=) p) f \<and> w = f w0) m"
    if "policy_call B p (\<lambda>w. snd (m w))" for m :: "('w, 'x) act"
    unfolding keeps_def
  proof clarify
    fix f
    assume "traffic B ((=) p) f"
    from traffic.after_call [where Q = "(=) p", OF this refl that]
    show "\<exists>g. traffic B ((=) p) g \<and> snd (m (f w0)) = g w0" by blast
  qed
  show ?thesis
    by unfold_locales (rule step, rule policy_call.intros; simp)+
qed

lemma request_is_traffic:
  "\<exists>f. traffic (pol_backend P) (\<lambda>q. \<exists>key. ctx = Some key \<and> space_of key = q) f
     \<and> store (snd (perform P ctx r s)) = f (store s)"
proof (cases ctx)
  case None
  have "store (snd (perform P ctx r s)) = store s"
    using body_without_key [of P r "s\<lparr>entry := opening_entry None (operation_name r)\<rparr>"]
    by (simp add: perform_audited None)
  then show ?thesis by (intro exI [of _ "\<lambda>w. w"]) (simp add: traffic.quiet)
next
  case (Some key)
  let ?I = "\<lambda>w. \<exists>f. traffic (pol_backend P) ((=) (space_of key)) f \<and> w = f (store s)"
  have "?I (store (snd (perform P ctx r s)))"
  proof (rule perform_keeps_store [where I = ?I])
    fix key'
    assume "ctx = Some key'"
    then have "key' = key" using Some by simp
    then show "partition_calls (pol_backend P) (space_of key') (on_store ?I)"
      by (simp only:) (rule confined_backend.calls [OF traffic_confined])
  next
    show "?I (store s)" by (intro exI [of _ "\<lambda>w. w"]) (simp add: traffic.quiet)
  qed
  then obtain f where "traffic (pol_backend P) ((=) (space_of key)) f"
    and "store (snd (perform P ctx r s)) = f (store s)" by blast
  then show ?thesis by (intro exI [of _ f]) (simp add: Some traffic_mono)
qed

section \<open>What interleaving keeps\<close>

text \<open>The pending moves keep the predicate too.\<close>

definition amid_moves :: "('w \<Rightarrow> bool) \<Rightarrow> 'w busy \<Rightarrow> bool" where
  "amid_moves I s \<longleftrightarrow> I (fst s) \<and> (\<forall>f \<in> set (snd s). \<forall>w. I w \<longrightarrow> I (f w))"

lemma let_others_moves: "amid_moves I s \<Longrightarrow> amid_moves I (let_others s)"
  by (cases s rule: let_others.cases) (auto simp: amid_moves_def)

lemma keeps_amid: "keeps I m \<Longrightarrow> keeps (amid_moves I) (amid m)"
proof (unfold keeps_def, intro allI impI)
  fix s
  assume m: "\<forall>w. I w \<longrightarrow> I (snd (m w))" and "amid_moves I s"
  obtain w fs where s: "let_others s = (w, fs)" by (cases "let_others s")
  have "amid_moves I (w, fs)" using let_others_moves [OF \<open>amid_moves I s\<close>] s by simp
  with m have "amid_moves I (snd (m w), fs)" by (simp add: amid_moves_def)
  then show "amid_moves I (snd (amid m s))" by (cases "m w") (simp add: amid_def s)
qed

context confined_backend
begin

lemma amid_confined: "confined_backend (interfered B) p (amid_moves I)"
  by unfold_locales
    (simp_all add: keeps_amid add_keeps search_keeps delete_keeps delete_all_keeps get_keeps
      update_keeps list_keeps history_keeps entities_keeps)

end

text \<open>So the contract of a storing backend, with moves of any spaces pending.\<close>

sublocale storing_backend \<subseteq> amid: confined_backend "interfered B" p "amid_moves (well_stamped inv abs)" for p
  by (rule stamps.amid_confined)

context storing_backend
begin

lemma traffic_well_stamped: "traffic B Q f \<Longrightarrow> well_stamped inv abs w \<Longrightarrow> well_stamped inv abs (f w)"
  by (erule traffic_keeps) (rule stamps.confined_backend_axioms)

lemma traffic_view:
  assumes f: "traffic B (\<lambda>p. p \<noteq> q) f" and w: "inv w"
  shows "view q (abs (f w)) = view q (abs w)"
proof -
  let ?I = "\<lambda>v. inv v \<and> view q (abs v) = view q (abs w)"
  have "confined_backend B p ?I" if "p \<noteq> q" for p
  proof -
    have "confined_backend B p (holding inv abs (\<lambda>s. view q s = view q (abs w)))"
      using that by (intro confined_by_steps) (simp add: step_others)
    then show ?thesis by (simp add: holding_def [abs_def])
  qed
  from traffic_keeps [OF f this, of w] w show ?thesis by simp
qed

text \<open>Whatever runs between its calls, a request keeps the store well formed and stamped.\<close>

lemma interleaved_well_stamped:
  assumes P: "pol_backend P = interfered B" and w: "well_stamped inv abs (fst (store s))"
    and fs: "\<forall>f \<in> set (snd (store s)). traffic B Q f"
  shows "amid_moves (well_stamped inv abs) (store (snd (perform P ctx r s)))"
proof (rule perform_keeps_store)
  show "partition_calls (pol_backend P) (space_of key) (on_store (amid_moves (well_stamped inv abs)))" for key
    unfolding P by (rule amid.confined.partition_calls_axioms)
  show "amid_moves (well_stamped inv abs) (store s)"
    using w fs by (auto simp: amid_moves_def intro: traffic_well_stamped)
qed

text \<open>And none of its own calls touches what another space sees.\<close>

lemma interleaved_view:
  assumes P: "pol_backend P = interfered B" and w: "inv (fst (store s))"
    and fs: "\<forall>f \<in> set (snd (store s)). traffic B (\<lambda>p. p \<noteq> q) f"
    and out: "\<And>key. ctx = Some key \<Longrightarrow> space_of key \<noteq> q"
  shows "view q (abs (fst (store (snd (perform P ctx r s))))) = view q (abs (fst (store s)))"
proof -
  let ?I = "holding inv abs (\<lambda>sp. view q sp = view q (abs (fst (store s))))"
  have I: "confined_backend B p ?I" if "p \<noteq> q" for p
    using that by (intro confined_by_steps) (simp add: step_others)
  have "amid_moves ?I (store (snd (perform P ctx r s)))"
  proof (rule perform_keeps_store)
    show "partition_calls (pol_backend P) (space_of key) (on_store (amid_moves ?I))" if "ctx = Some key" for key
      unfolding P by (intro confined_backend.calls confined_backend.amid_confined I out that)
    have "?I (f v)" if "f \<in> set (snd (store s))" "?I v" for f v
      using fs that by (blast intro: traffic_keeps [OF _ I])
    then show "amid_moves ?I (store s)" using w by (simp add: amid_moves_def) (simp add: holding_def)
  qed
  then show ?thesis by (simp add: amid_moves_def holding_def)
qed

end

text \<open>
  Property C7: requests that run at the same time keep the invariant. With any
  calls of other requests, of any spaces, between its own calls, each request leaves the SQLite
  tables well formed and every memory stamped with the space it is stored in; and a space that
  neither it nor those calls belong to sees the same memories with the same histories as before.
\<close>

theorem interleaving_keeps_invariant:
  assumes "pol_backend P = interfered (sqlite_backend U (Suc vars))"
    and "well_stamped sq_inv sq_abs (fst (store s))"
    and "\<forall>f \<in> set (snd (store s)). traffic (sqlite_backend U (Suc vars)) Q f"
  shows "well_stamped sq_inv sq_abs (fst (store (snd (perform P ctx r s))))
    \<and> (\<forall>q. \<not> Q q \<and> (\<forall>key. ctx = Some key \<longrightarrow> space_of key \<noteq> q) \<longrightarrow>
         view q (sq_abs (fst (store (snd (perform P ctx r s))))) = view q (sq_abs (fst (store s))))"
proof (intro conjI allI impI)
  show "well_stamped sq_inv sq_abs (fst (store (snd (perform P ctx r s))))"
    using sqlite.interleaved_well_stamped [OF assms] by (simp add: amid_moves_def)
  fix q
  assume q: "\<not> Q q \<and> (\<forall>key. ctx = Some key \<longrightarrow> space_of key \<noteq> q)"
  have "sq_inv (fst (store s))" using assms(2) by (simp add: well_stamped_def)
  then show "view q (sq_abs (fst (store (snd (perform P ctx r s))))) = view q (sq_abs (fst (store s)))"
    by (rule sqlite.interleaved_view [OF assms(1)])
      (use q assms(3) in \<open>auto elim!: traffic_mono\<close>)
qed

section \<open>Reads while others write\<close>

context storing_backend
begin

definition undisturbed :: "pystr \<Rightarrow> 'w busy \<Rightarrow> 'w \<Rightarrow> bool" where
  "undisturbed p s w \<longleftrightarrow>
     inv (fst s) \<and> inv w \<and> view p (abs (fst s)) = view p (abs w)
     \<and> (\<forall>f \<in> set (snd s). traffic B (\<lambda>q. q \<noteq> p) f)"

lemma traffic_inv: "traffic B Q f \<Longrightarrow> inv w \<Longrightarrow> inv (f w)"
proof (erule traffic_keeps)
  show "confined_backend B q inv" for q
    using confined_by_steps [where J = "\<lambda>_. True" and p = q] by (simp add: holding_def [abs_def])
qed

lemma undisturbed_moves:
  assumes "undisturbed p s w"
  shows "undisturbed p (let_others s) w"
  using assms by (cases s rule: let_others.cases) (auto simp: undisturbed_def traffic_inv traffic_view)

lemma amid_read_alike:
  assumes "\<And>v. inv v \<Longrightarrow> snd (m v) = v"
    and "\<And>v w. inv v \<Longrightarrow> inv w \<Longrightarrow> view p (abs v) = view p (abs w) \<Longrightarrow> fst (m v) = fst (m w)"
  shows "alike (undisturbed p) (amid m) m"
proof (rule alikeI)
  fix s w
  assume R: "undisturbed p s w"
  obtain v fs where s: "let_others s = (v, fs)" by (cases "let_others s")
  have R': "undisturbed p (v, fs) w" using undisturbed_moves [OF R] s by simp
  then have "inv v" "inv w" "view p (abs v) = view p (abs w)" by (simp_all add: undisturbed_def)
  then have "snd (m v) = v" "snd (m w) = w" "fst (m v) = fst (m w)" using assms by blast+
  with R' show "fst (amid m s) = fst (m w) \<and> undisturbed p (snd (amid m s)) (snd (m w))"
    by (cases "m v") (simp add: amid_def s)
qed

lemma view_listing: "view p (abs v) = view p (abs w) \<Longrightarrow> sp_listing (abs v) p = sp_listing (abs w) p"
  by (simp add: view_def)

lemma amid_reads: "alike_reads (interfered B) B p (undisturbed p)"
proof
  show "alike (undisturbed p) (b_get (interfered B) p i) (b_get B p i)" for i
    unfolding interfered_sel
    by (rule amid_read_alike) (auto simp: get_refines dest: view_get)
  show "alike (undisturbed p) (b_search (interfered B) p q sc l th) (b_search B p q sc l th)"
    if "fst ` set (or_empty sc) \<inter> NESTED_FILTER_KEYS = {}" for sc q l th
    unfolding interfered_sel
    by (rule amid_read_alike) (auto simp: search_refines that dest: view_listing)
  show "alike (undisturbed p) (b_list_memories (interfered B) p sc l cu) (b_list_memories B p sc l cu)" for sc l cu
    unfolding interfered_sel
    by (rule amid_read_alike) (auto simp: list_refines dest: view_listing)
  show "alike (undisturbed p) (b_history (interfered B) p i) (b_history B p i)" for i
    unfolding interfered_sel
  proof (rule amid_read_alike)
    fix v w
    assume "inv v" "inv w" and view: "view p (abs v) = view p (abs w)"
    moreover have "sp_trail (abs v) i = sp_trail (abs w) i" if "spec_get p i (abs w) = Some m" for m
      using view_trail [OF view, of m] spec_get_Some [OF that] view_listing [OF view] by auto
    ultimately show "fst (b_history B p i v) = fst (b_history B p i w)"
      by (simp add: history_refines view_get [OF view] split: option.split)
  qed (simp add: history_refines)
qed

end

text \<open>The request on its own: the same request with nothing between its calls.\<close>

definition on_its_own :: "'w busy st \<Rightarrow> 'w st" where
  "on_its_own s = \<lparr>store = fst (store s), entry = entry s, audit_log = audit_log s, server_log = server_log s\<rparr>"

text \<open>
  Property C8: isolation holds call by call. A get, list, search, export or history
  read of a key answers the same, and leaves the same audit record and log lines, whatever calls
  of requests in other spaces the SQLite backend serves between its own.
\<close>

theorem reads_undisturbed:
  assumes "pol_backend P = interfered (sqlite_backend U (Suc vars))"
    and "pol_backend Q = sqlite_backend U (Suc vars)" and "pol_scope_keys Q = pol_scope_keys P"
    and "sq_inv (fst (store s))"
    and "\<forall>f \<in> set (snd (store s)). traffic (sqlite_backend U (Suc vars)) (\<lambda>q. q \<noteq> space_of key) f"
    and "plain_read r"
  shows "fst (perform P (Some key) r s) = fst (perform Q (Some key) r (on_its_own s))
    \<and> audit_log (snd (perform P (Some key) r s)) = audit_log (snd (perform Q (Some key) r (on_its_own s)))
    \<and> server_log (snd (perform P (Some key) r s)) = server_log (snd (perform Q (Some key) r (on_its_own s)))"
proof -
  let ?R = "sqlite.undisturbed U vars (space_of key)"
  have start: "same_st ?R s (on_its_own s)"
    using assms(4,5) by (simp add: same_st_def on_its_own_def sqlite.undisturbed_def)
  have "alike_at (same_st ?R) (perform P (Some key) r) (perform Q (Some key) r) s (on_its_own s)"
    unfolding perform_audited
  proof (rule alike_at_audited [OF start])
    show "alike_at (same_st ?R) (request_body P (Some key) r) (request_body Q (Some key) r)
        (s\<lparr>entry := opening_entry (Some key) (operation_name r)\<rparr>)
        (on_its_own s\<lparr>entry := opening_entry (Some key) (operation_name r)\<rparr>)"
      using alike_reads.reads_alike [OF sqlite.amid_reads assms(1-3) refl assms(6)] start
      by (simp add: alike_iff same_st_def)
  qed
  then show ?thesis by (simp add: alike_at_def same_st_def)
qed

section \<open>Writes while others write\<close>

lemma amid_run [act_simps]:
  "amid m (w, f # fs) = (case m (f w) of (r, v) \<Rightarrow> (r, (v, fs)))"
  "amid m (w, []) = (case m w of (r, v) \<Rightarrow> (r, (v, [])))"
  by (simp_all add: amid_def)

context storing_backend
begin

lemma read_between:
  assumes P: "pol_backend P = interfered B" and st: "store s = (w, f # fs)"
    and w: "well_stamped inv abs (f w)"
  shows "policy_read P p i op s = (lookup_result i (spec_get p i (abs (f w))),
     if is_memory_id i then s\<lparr>store := (f w, fs)\<rparr> else s)"
proof -
  have inv: "inv (f w)" using w by (simp add: well_stamped_def)
  have arg: "validate_memory_id i = (if is_memory_id i then Inr i else Inl (Arg_msg Invalid_memory_id))"
    by (simp add: validate_memory_id_def)
  have space: "in_space m p" if "spec_get p i (abs (f w)) = Some m" for m
    using w that by (auto simp: well_stamped_def dest: stamped_spec_get)
  have get: "call (amid (b_get B p i)) s = (Inr (spec_get p i (abs (f w))), s\<lparr>store := (f w, fs)\<rparr>)"
    by (simp add: act_simps st get_refines [OF inv])
  show ?thesis
    unfolding policy_read_def P interfered_sel
    by (cases "spec_get p i (abs (f w))")
      (simp_all add: seq_run check_run not_found_run from_result_run arg get lookup_result_def invalid_id_def
        missing_def check_that_def check_space_run space)
qed

lemma update_between:
  assumes P: "pol_backend P = interfered B" and key: "writer key"
    and st: "store s = (w, f # g # fs)" and w: "well_stamped inv abs w"
    and moves: "traffic B Q f" "traffic B Q g"
    and arg: "update_arguments co md = Inr ()" and pt: "requested_patch md = Inr pt" and id: "is_memory_id i"
    and found: "spec_get (space_of key) i (abs (f w)) = Some m" and fits: "patch_fits m pt = Inr ()"
  shows "case spec_get (space_of key) i (abs (g (f w))) of
      None \<Rightarrow> fst (policy_update P (Some key) i co md s) = Inl missing
        \<and> abs (fst (store (snd (policy_update P (Some key) i co md s)))) = abs (g (f w))
    | Some m2 \<Rightarrow> \<exists>now m'. m' = updated_memory m2 co pt
          (Some (system_for (space_of key) (k_name key) (sys_created_by (m_system m)))) now
        \<and> fst (policy_update P (Some key) i co md s) = Inr m'
        \<and> abs (fst (store (snd (policy_update P (Some key) i co md s)))) =
            spec_update (space_of key) m2 m' now (abs (g (f w)))"
proof -
  let ?p = "space_of key" and ?sy = "system_for (space_of key) (k_name key) (sys_created_by (m_system m))"
  have w1: "well_stamped inv abs (f w)" by (rule traffic_well_stamped [OF moves(1) w])
  have w2: "well_stamped inv abs (g (f w))" by (rule traffic_well_stamped [OF moves(2) w1])
  have inv: "inv (f w)" "inv (g (f w))" using w1 w2 by (simp_all add: well_stamped_def)
  have clean: "clean_keys (patch_keys x)" if "pt = Some x" for x
    using requested_patch_clean [OF arg] pt that by simp
  have read: "policy_read P ?p i op s1 = (Inr m, s1\<lparr>store := (f w, g # fs)\<rparr>)"
    if "store s1 = (w, f # g # fs)" for op and s1 :: "'w busy st"
    using read_between [OF P that w1, of ?p i op] id found by (simp add: lookup_result_def)
  note run = policy_update_def update_body_def act_simps Let_def arg pt fits P st read
    check_space_run require_writer [OF key]
  show ?thesis
  proof (cases "spec_get ?p i (abs (g (f w)))")
    case None
    obtain w' where upd: "b_update B ?p i co pt (Some ?sy) (g (f w)) =
        (Inl (MemoryAPIError 404 (Raw (u ''Not found''))), w')" and "abs w' = abs (g (f w))"
      using update_missing [where pt = pt and co = co and sy = "Some ?sy", OF inv(2) clean None] by blast
    then show ?thesis
      by (simp add: None run upd as_not_found_def missing_def)
  next
    case (Some m2)
    obtain now w' where upd: "b_update B ?p i co pt (Some ?sy) (g (f w)) =
        (Inr (updated_memory m2 co pt (Some ?sy) now), w')"
      and abs': "abs w' = spec_update ?p m2 (updated_memory m2 co pt (Some ?sy) now) now (abs (g (f w)))"
      using update_refines [where pt = pt and co = co and sy = "Some ?sy", OF inv(2) clean Some] by blast
    have "in_space m2 ?p" using w2 Some by (auto simp: well_stamped_def dest: stamped_spec_get)
    then have "in_space (updated_memory m2 co pt (Some ?sy) now) ?p" by (simp add: in_space_updated)
    then have "fst (policy_update P (Some key) i co md s) = Inr (updated_memory m2 co pt (Some ?sy) now)"
      "abs (fst (store (snd (policy_update P (Some key) i co md s)))) =
        spec_update ?p m2 (updated_memory m2 co pt (Some ?sy) now) now (abs (g (f w)))"
      using abs' by (simp_all add: run upd)
    then show ?thesis unfolding Some option.case by blast
  qed
qed

lemma add_between:
  assumes P: "pol_backend P = interfered B" and key: "writer key"
    and st: "store s = (w, f # g # fs)" and w: "well_stamped inv abs w"
    and moves: "traffic B Q f" "traffic B Q g"
    and arg: "add_arguments c md = Inr ()"
    and ok: "validate_scope (scope_json sc) (pol_scope_keys P) = Inr sc'"
  shows "\<exists>i now m v. m = \<lparr>m_id = i, m_content = c, m_score = None, m_scope = scope_as_text (or_empty sc'),
             m_metadata = or_empty md, m_created_at = now, m_updated_at = None,
             m_partition = space_of key,
             m_system = system_for (space_of key) (k_name key) (Some (k_name key))\<rparr>
      \<and> (\<forall>q. i \<notin> m_id ` set (sp_listing (abs (f w)) q))
      \<and> inv v \<and> abs v = spec_add (space_of key) m (abs (f w))
      \<and> fst (store (snd (policy_add P (Some key) c sc md infer s))) = g v
      \<and> (if spec_get (space_of key) i (abs (g v)) = None
         then fst (policy_add P (Some key) c sc md infer s) =
             Inl (PolicyError Internal_error (Policy_msg Internal_check_failed))
           \<and> server_log (snd (policy_add P (Some key) c sc md infer s)) =
             server_log s @ [Isolation_violation (u ''add'') i (space_of key) None None]
         else fst (policy_add P (Some key) c sc md infer s) =
             Inr (Many [\<lparr>r_id = i, r_status = u ''ready'', r_created_at = now, r_event = Ev_add\<rparr>])
           \<and> server_log (snd (policy_add P (Some key) c sc md infer s)) = server_log s)"
proof -
  let ?p = "space_of key" and ?sy = "system_for (space_of key) (k_name key) (Some (k_name key))"
  have w1: "well_stamped inv abs (f w)" by (rule traffic_well_stamped [OF moves(1) w])
  have inv1: "inv (f w)" using w1 by (simp add: well_stamped_def)
  have clean: "clean_keys (dict_keys (or_empty md))" using arg by (rule add_arguments_clean)
  obtain i now v where add: "b_add B ?p c sc' md infer (Some ?sy) (f w) =
      (Inr (Many [\<lparr>r_id = i, r_status = u ''ready'', r_created_at = now, r_event = Ev_add\<rparr>]), v)"
    and inv: "inv v" and fresh: "\<forall>q. i \<notin> m_id ` set (sp_listing (abs (f w)) q)"
    and abs': "abs v = spec_add ?p
            \<lparr>m_id = i, m_content = c, m_score = None, m_scope = scope_as_text (or_empty sc'),
             m_metadata = or_empty md, m_created_at = now, m_updated_at = None,
             m_partition = ?p, m_system = ?sy\<rparr> (abs (f w))"
    using add_refines [OF inv1 clean accepted_not_nested [OF ok], of ?p c infer "Some ?sy"] by auto
  have v: "well_stamped inv abs v"
    using w1 inv abs' by (simp add: well_stamped_def stamped_spec_add in_space_def)
  have w2: "well_stamped inv abs (g v)" by (rule traffic_well_stamped [OF moves(2) v])
  then have inv2: "inv (g v)" by (simp add: well_stamped_def)
  have space: "in_space m ?p" if "spec_get ?p i (abs (g v)) = Some m" for m
    using w2 that by (auto simp: well_stamped_def dest: stamped_spec_get)
  show ?thesis
    using fresh abs' inv
    by (intro exI [of _ i] exI [of _ now] exI [of _ "\<lparr>m_id = i, m_content = c, m_score = None,
          m_scope = scope_as_text (or_empty sc'), m_metadata = or_empty md, m_created_at = now,
          m_updated_at = None, m_partition = ?p, m_system = ?sy\<rparr>"] exI [of _ v])
      (auto simp: policy_add_def add_body_def act_simps Let_def arg checked_scope_run ok P st add
        add_items_def get_refines [OF inv2] check_space_run space audited_def with_entry_def
        require_writer [OF key] split: option.split)
qed

end

text \<open>
  Property C9: an update that races with others loses nothing. The patch is applied
  to the memory as it is at the write, not as policy read it: the content and the keys the update
  does not name are those the calls in between left, and the other memories of the space are as
  those calls left them. If one of them deleted the memory the answer is \<open>not_found\<close> and nothing is
  stored.
\<close>

theorem update_merges:
  assumes "pol_backend P = interfered (sqlite_backend U (Suc vars))" and "writer key"
    and "store s = (w, f # g # fs)" and "well_stamped sq_inv sq_abs w"
    and "traffic (sqlite_backend U (Suc vars)) Q f" and "traffic (sqlite_backend U (Suc vars)) Q g"
    and "update_arguments co md = Inr ()" and "wf_dict (or_empty md)"
    and "requested_patch md = Inr pt" and "is_memory_id i"
    and "spec_get (space_of key) i (sq_abs (f w)) = Some m" and "patch_fits m pt = Inr ()"
  shows "case spec_get (space_of key) i (sq_abs (g (f w))) of
      None \<Rightarrow> fst (policy_update P (Some key) i co md s) = Inl missing
        \<and> sq_abs (fst (store (snd (policy_update P (Some key) i co md s)))) = sq_abs (g (f w))
    | Some m2 \<Rightarrow> \<exists>m'. fst (policy_update P (Some key) i co md s) = Inr m'
        \<and> spec_get (space_of key) i
            (sq_abs (fst (store (snd (policy_update P (Some key) i co md s))))) = Some m'
        \<and> m_content m' = (case co of None \<Rightarrow> m_content m2 | Some c \<Rightarrow> c)
        \<and> (\<forall>k. map_of (m_metadata m') k =
            (case map_of (or_empty md) k of None \<Rightarrow> map_of (m_metadata m2) k
             | Some v \<Rightarrow> (if v = JNull then None else Some v)))
        \<and> filter (\<lambda>x. m_id x \<noteq> i) (sp_listing (sq_abs (fst (store (snd (policy_update P (Some key) i co md s))))) (space_of key)) =
            filter (\<lambda>x. m_id x \<noteq> i) (sp_listing (sq_abs (g (f w))) (space_of key))"
proof -
  note between = sqlite.update_between [OF assms(1-7) assms(9-12)]
  show ?thesis
  proof (cases "spec_get (space_of key) i (sq_abs (g (f w)))")
    case (Some m2)
    let ?sy = "system_for (space_of key) (k_name key) (sys_created_by (m_system m))"
    obtain now m' where m': "m' = updated_memory m2 co pt (Some ?sy) now"
      and run: "fst (policy_update P (Some key) i co md s) = Inr m'"
      and spec: "sq_abs (fst (store (snd (policy_update P (Some key) i co md s)))) =
        spec_update (space_of key) m2 m' now (sq_abs (g (f w)))"
      using between Some by auto
    have id: "m2 \<in> set (sp_listing (sq_abs (g (f w))) (space_of key))" "m_id m2 = i" "m_id m' = i"
      using spec_get_Some [OF Some] by (simp_all add: m')
    have "map_of (m_metadata m') k =
        (case map_of (or_empty md) k of None \<Rightarrow> map_of (m_metadata m2) k
         | Some v \<Rightarrow> (if v = JNull then None else Some v))" for k
      using requested_patch_effect [OF assms(9,8), of "m_metadata m2" k]
      by (simp add: m' updated_memory_def split: option.splits)
    moreover have "m_content m' = (case co of None \<Rightarrow> m_content m2 | Some c \<Rightarrow> c)"
      by (simp add: m' updated_memory_def)
    ultimately show ?thesis
      unfolding Some option.case run spec
      using spec_get_updated [OF id] spec_update_others [OF id(2,3)] by (intro exI [of _ m']) simp
  qed (use between in simp)
qed

text \<open>
  Property C12: an add that races with others. The memory is stored as an
  undisturbed add stores it, and the answer is its id if the memory is still in the space when
  policy reads it back. When another request has deleted it in between, the caller gets
  \<open>internal_error\<close> and the log says that isolation was violated, though no memory left its space.
\<close>

theorem add_read_back_races:
  assumes "pol_backend P = interfered (sqlite_backend U (Suc vars))" and "writer key"
    and "store s = (w, f # g # fs)" and "well_stamped sq_inv sq_abs w"
    and "traffic (sqlite_backend U (Suc vars)) Q f" and "traffic (sqlite_backend U (Suc vars)) Q g"
    and "add_arguments c md = Inr ()"
    and "validate_scope (scope_json sc) (pol_scope_keys P) = Inr sc'"
  shows "\<exists>i m v. m_id m = i \<and> m_content m = c \<and> m_scope m = scope_as_text (or_empty sc')
      \<and> m_metadata m = or_empty md \<and> in_space m (space_of key)
      \<and> (\<forall>q. i \<notin> m_id ` set (sp_listing (sq_abs (f w)) q))
      \<and> sq_inv v \<and> sq_abs v = spec_add (space_of key) m (sq_abs (f w))
      \<and> fst (store (snd (policy_add P (Some key) c sc md infer s))) = g v
      \<and> (if spec_get (space_of key) i (sq_abs (g v)) = None
         then fst (policy_add P (Some key) c sc md infer s) =
             Inl (PolicyError Internal_error (Policy_msg Internal_check_failed))
           \<and> server_log (snd (policy_add P (Some key) c sc md infer s)) =
             server_log s @ [Isolation_violation (u ''add'') i (space_of key) None None]
         else fst (policy_add P (Some key) c sc md infer s) =
             Inr (Many [\<lparr>r_id = i, r_status = u ''ready'', r_created_at = m_created_at m, r_event = Ev_add\<rparr>])
           \<and> server_log (snd (policy_add P (Some key) c sc md infer s)) = server_log s)"
proof -
  obtain i now m v where m: "m = \<lparr>m_id = i, m_content = c, m_score = None, m_scope = scope_as_text (or_empty sc'),
             m_metadata = or_empty md, m_created_at = now, m_updated_at = None,
             m_partition = space_of key,
             m_system = system_for (space_of key) (k_name key) (Some (k_name key))\<rparr>"
    and rest: "\<forall>q. i \<notin> m_id ` set (sp_listing (sq_abs (f w)) q)"
      "sq_inv v" "sq_abs v = spec_add (space_of key) m (sq_abs (f w))"
      "fst (store (snd (policy_add P (Some key) c sc md infer s))) = g v"
      "if spec_get (space_of key) i (sq_abs (g v)) = None
         then fst (policy_add P (Some key) c sc md infer s) =
             Inl (PolicyError Internal_error (Policy_msg Internal_check_failed))
           \<and> server_log (snd (policy_add P (Some key) c sc md infer s)) =
             server_log s @ [Isolation_violation (u ''add'') i (space_of key) None None]
         else fst (policy_add P (Some key) c sc md infer s) =
             Inr (Many [\<lparr>r_id = i, r_status = u ''ready'', r_created_at = now, r_event = Ev_add\<rparr>])
           \<and> server_log (snd (policy_add P (Some key) c sc md infer s)) = server_log s"
    using sqlite.add_between [OF assms, of infer] by blast
  have "in_space m (space_of key)" "m_id m = i" "m_content m = c" "m_scope m = scope_as_text (or_empty sc')"
    "m_metadata m = or_empty md" "m_created_at m = now"
    by (simp_all add: m in_space_def)
  with rest show ?thesis by (intro exI [of _ i] exI [of _ m] exI [of _ v]) simp
qed

section \<open>Requests by id\<close>

abbreviation forbidden :: exc where
  "forbidden \<equiv> PolicyError Forbidden (Policy_msg Forbidden_write)"

abbreviation invalid :: "message \<Rightarrow> exc" where
  "invalid m \<equiv> PolicyError Validation_error m"

definition refused :: "exc + 'a \<Rightarrow> exc option" where
  "refused r = (case r of Inl e \<Rightarrow> Some e | Inr x \<Rightarrow> None)"

text \<open>The second call of a request by id finds the memory, or another request has deleted it.\<close>

definition still_there :: "memory option \<Rightarrow> 'a \<Rightarrow> exc + 'a" where
  "still_there found x = (case found of None \<Rightarrow> Inl missing | Some m \<Rightarrow> Inr x)"

lemma lookup_found: "lookup_result i found = Inr m \<longleftrightarrow> is_memory_id i \<and> found = Some m"
  by (auto simp: lookup_result_def split: option.splits)

lemma require_forbidden: "\<not> writer key \<Longrightarrow> require (Some key) Writer = Inl forbidden"
  by (cases "g_relation (k_grant key)") (simp_all add: require_refused writer_def)

context storing_backend
begin

lemma get_between:
  assumes P: "pol_backend P = interfered B" and st: "store s = (w, f # fs)" and w: "well_stamped inv abs w"
    and moves: "traffic B Q f"
  shows "fst (policy_get P (Some key) i s) = lookup_result i (spec_get (space_of key) i (abs (f w)))"
proof -
  have w1: "well_stamped inv abs (f w)" by (rule traffic_well_stamped [OF moves w])
  show ?thesis
    using read_between [where f = f and w = w and fs = fs, OF P _ w1] st
    by (simp add: policy_get_def get_body_def act_simps)
qed

lemma history_between:
  assumes P: "pol_backend P = interfered B" and st: "store s = (w, f # g # fs)" and w: "well_stamped inv abs w"
    and moves: "traffic B Q f" "traffic B Q g"
  shows "fst (policy_history P (Some key) i s) =
    res_bind (lookup_result i (spec_get (space_of key) i (abs (f w))))
      (\<lambda>_. still_there (spec_get (space_of key) i (abs (g (f w)))) (sp_trail (abs (g (f w))) i))"
proof -
  have w1: "well_stamped inv abs (f w)" by (rule traffic_well_stamped [OF moves(1) w])
  have "inv (g (f w))" using traffic_well_stamped [OF moves(2) w1] by (simp add: well_stamped_def)
  then have trail: "fst (not_found (call (amid (b_history B (space_of key) i))) t) =
      still_there (spec_get (space_of key) i (abs (g (f w)))) (sp_trail (abs (g (f w))) i)"
    if "store t = (f w, g # fs)" for t
    using that by (simp add: act_simps history_refines still_there_def as_not_found_def missing_def
        split: option.split)
  note run = policy_history_def history_body_def Let_def P seq_run from_result_run
    read_between [where f = f and w = w and fs = "g # fs", OF P _ w1]
  show ?thesis
    using st trail
    by (cases "lookup_result i (spec_get (space_of key) i (abs (f w)))")
      (auto simp: run lookup_found [THEN iffD2] entry_updates_run dest!: lookup_found [THEN iffD1])
qed

lemma delete_between:
  assumes P: "pol_backend P = interfered B" and st: "store s = (w, f # g # fs)" and w: "well_stamped inv abs w"
    and moves: "traffic B Q f" "traffic B Q g"
  shows "fst (policy_delete P (Some key) i s) =
    (if writer key
     then res_bind (lookup_result i (spec_get (space_of key) i (abs (f w))))
       (\<lambda>_. still_there (spec_get (space_of key) i (abs (g (f w)))) True)
     else Inl forbidden)"
proof (cases "writer key")
  case True
  have w1: "well_stamped inv abs (f w)" by (rule traffic_well_stamped [OF moves(1) w])
  then have inv: "inv (g (f w))" using traffic_well_stamped [OF moves(2) w1] by (simp add: well_stamped_def)
  have deleted: "fst (not_found (call (amid (b_delete B (space_of key) i))) t) =
      still_there (spec_get (space_of key) i (abs (g (f w)))) True" if "store t = (f w, g # fs)" for t
    using that delete_missing [OF inv, of "space_of key" i] delete_refines [OF inv, of "space_of key" i]
    by (cases "spec_get (space_of key) i (abs (g (f w)))")
      (auto simp: act_simps still_there_def as_not_found_def missing_def)
  note run = policy_delete_def delete_body_def Let_def P seq_run from_result_run require_writer [OF True]
    read_between [where f = f and w = w and fs = "g # fs", OF P _ w1]
  show ?thesis
    using st True deleted
    by (cases "lookup_result i (spec_get (space_of key) i (abs (f w)))")
      (auto simp: run lookup_found [THEN iffD2] entry_updates_run dest!: lookup_found [THEN iffD1])
next
  case False
  then show ?thesis by (simp add: policy_delete_def delete_body_def act_simps require_forbidden)
qed

lemma update_refused_between:
  assumes P: "pol_backend P = interfered B" and st: "store s = (w, f # g # fs)" and w: "well_stamped inv abs w"
    and moves: "traffic B Q f" "traffic B Q g"
  shows "refused (fst (policy_update P (Some key) i co md s)) =
    (if \<not> writer key then Some forbidden
     else case update_arguments co md of
         Inl m \<Rightarrow> Some (invalid m)
       | Inr _ \<Rightarrow>
           (case lookup_result i (spec_get (space_of key) i (abs (f w))) of
              Inl e \<Rightarrow> Some e
            | Inr found \<Rightarrow>
                (case requested_patch md of
                   Inl e \<Rightarrow> Some e
                 | Inr pt \<Rightarrow>
                     (case patch_fits found pt of
                        Inl m \<Rightarrow> Some (invalid m)
                      | Inr _ \<Rightarrow>
                          if spec_get (space_of key) i (abs (g (f w))) = None then Some missing else None))))"
proof (cases "writer key")
  case key: True
  have w1: "well_stamped inv abs (f w)" by (rule traffic_well_stamped [OF moves(1) w])
  note run = policy_update_def update_body_def act_simps Let_def refused_def require_writer [OF key]
    read_between [where f = f and w = w and fs = "g # fs", OF P _ w1]
  show ?thesis
  proof (cases "update_arguments co md")
    case args: (Inr x)
    show ?thesis
    proof (cases "lookup_result i (spec_get (space_of key) i (abs (f w)))")
      case found: (Inr m)
      then have m: "is_memory_id i" "spec_get (space_of key) i (abs (f w)) = Some m"
        by (auto simp: lookup_result_def split: if_splits option.splits)
      show ?thesis
      proof (cases "requested_patch md")
        case pt: (Inr pt)
        show ?thesis
        proof (cases "patch_fits m pt")
          case fits: (Inr y)
          have "case spec_get (space_of key) i (abs (g (f w))) of
              None \<Rightarrow> fst (policy_update P (Some key) i co md s) = Inl missing
            | Some m2 \<Rightarrow> \<exists>m'. fst (policy_update P (Some key) i co md s) = Inr m'"
            using update_between [OF P key st w moves _ pt m _, of co] args fits
            by (auto split: option.splits)
          then show ?thesis
            using key args found pt fits by (auto simp: refused_def split: option.splits)
        qed (use key args found pt st in \<open>simp add: run\<close>)
      qed (use key args found st in \<open>simp add: run\<close>)
    qed (use key args st in \<open>simp add: run\<close>)
  qed (use key in \<open>simp add: run\<close>)
next
  case False
  then show ?thesis by (simp add: policy_update_def update_body_def act_simps require_forbidden refused_def)
qed

end

text \<open>
  Property C11: what a get, a history read, a delete and an update by id answer when
  others run between their calls (\<open>f\<close> before the first call, \<open>g\<close> before the second), every case.
  They never fail on the store's side: what another request deleted, before the first call or between
  the two, is \<open>not_found\<close>; the other errors are the request's own, a malformed id, a reader's write,
  invalid arguments, or metadata the memory has no room for.
\<close>

theorem by_id_answers_or_refuses:
  assumes "pol_backend P = interfered (sqlite_backend U (Suc vars))"
    and "store s = (w, f # g # fs)" and "well_stamped sq_inv sq_abs w"
    and "traffic (sqlite_backend U (Suc vars)) Q f" and "traffic (sqlite_backend U (Suc vars)) Q g"
    and "first = spec_get (space_of key) i (sq_abs (f w))"
    and "later = spec_get (space_of key) i (sq_abs (g (f w)))"
  shows "fst (policy_get P (Some key) i s) = lookup_result i first
    \<and> fst (policy_history P (Some key) i s) =
        res_bind (lookup_result i first) (\<lambda>_. still_there later (sp_trail (sq_abs (g (f w))) i))
    \<and> fst (policy_delete P (Some key) i s) =
        (if writer key then res_bind (lookup_result i first) (\<lambda>_. still_there later True) else Inl forbidden)
    \<and> refused (fst (policy_update P (Some key) i co md s)) =
        (if \<not> writer key then Some forbidden
         else case update_arguments co md of
             Inl m \<Rightarrow> Some (invalid m)
           | Inr _ \<Rightarrow>
               (case lookup_result i first of
                  Inl e \<Rightarrow> Some e
                | Inr found \<Rightarrow>
                    (case requested_patch md of
                       Inl e \<Rightarrow> Some e
                     | Inr pt \<Rightarrow>
                         (case patch_fits found pt of
                            Inl m \<Rightarrow> Some (invalid m)
                          | Inr _ \<Rightarrow> if later = None then Some missing else None))))"
  unfolding assms(6,7)
  by (intro conjI sqlite.get_between [OF assms(1-4)] sqlite.history_between [OF assms(1-5)]
      sqlite.delete_between [OF assms(1-5)] sqlite.update_refused_between [OF assms(1-5)])

section \<open>The properties at work\<close>

definition demo_busy :: "sql_store busy policy" where
  "demo_busy =
     \<lparr>pol_backend = interfered (sqlite_backend plain_ucd (Suc 9)),
      pol_capabilities = [u ''update'', u ''list'', u ''history''],
      pol_scope_keys = [u ''agent_id'', u ''run_id'']\<rparr>"

lemma demo_busy_sel [simp]:
  "pol_backend demo_busy = interfered (sqlite_backend plain_ucd (Suc 9))"
  "pol_scope_keys demo_busy = pol_scope_keys demo_policy"
  by (simp_all add: demo_busy_def demo_policy_def)

text \<open>Another key of the space sets a metadata key, sweeps a scope; the other space adds.\<close>

definition tagging :: patch where
  "tagging = \<lparr>p_set = [(u ''k'', JInt 1)], p_remove = []\<rparr>"

definition rob_system :: system where
  "rob_system = system_for (u ''red'') (u ''rob'') (Some (u ''ann''))"

definition tag :: "sql_store \<Rightarrow> sql_store" where
  "tag w = snd (b_update (sqlite_backend plain_ucd (Suc 9)) (u ''red'') [97] None (Some tagging) (Some rob_system) w)"

definition sweep :: "sql_store \<Rightarrow> sql_store" where
  "sweep w = snd (b_delete_all (sqlite_backend plain_ucd (Suc 9)) (u ''red'') bot_scope w)"

definition blue_add :: "sql_store \<Rightarrow> sql_store" where
  "blue_add w = snd (b_add (sqlite_backend plain_ucd (Suc 9)) (u ''blue'') (u ''hi'') None None True
     (Some (system_for (u ''blue'') (u ''bob'') (Some (u ''bob'')))) w)"

lemma tagging_clean: "clean_keys (patch_keys tagging)"
  by (simp add: tagging_def patch_keys_def dict_keys_def is_reserved_metadata_key_def RESERVED_METADATA_PREFIX_def
      RESERVED_METADATA_KEYS_def u_def)

lemma moves_traffic:
  "traffic (sqlite_backend plain_ucd (Suc 9)) ((=) (u ''red'')) tag"
  "traffic (sqlite_backend plain_ucd (Suc 9)) ((=) (u ''red'')) sweep"
  "traffic (sqlite_backend plain_ucd (Suc 9)) ((=) (u ''blue'')) blue_add"
  unfolding tag_def [abs_def] sweep_def [abs_def] blue_add_def [abs_def]
  by (rule one_call, rule policy_call.intros; simp add: tagging_clean rob_system_def bot_scope_def dict_keys_def)+

lemma demo_sql_served: "well_stamped sq_inv sq_abs demo_sql"
  using served_demo_sql by (simp add: start_def)

lemma demo_sql_get: "spec_get (u ''red'') [97] (sq_abs demo_sql) = Some (demo_memory [97])"
  using held_demo_sql [of "u ''red''"] by (simp add: spec_get_def start_def demo_memory_def)

lemma sweep_run:
  assumes "sq_inv w" and "length (sp_listing (sq_abs w) (u ''red'')) \<le> Suc 9"
  shows "sq_abs (sweep w) = spec_remove (u ''red'') (matching (Some bot_scope)) (sq_abs w)"
proof -
  have "fst ` set bot_scope \<inter> NESTED_FILTER_KEYS = {}"
    by (simp add: bot_scope_def NESTED_FILTER_KEYS_def u_def)
  moreover have "length (filter (matching (Some bot_scope)) (sp_listing (sq_abs w) (u ''red''))) \<le> Suc 9"
    using assms(2) length_filter_le le_trans by blast
  ultimately obtain w' k where "b_delete_all (sqlite_backend plain_ucd (Suc 9)) (u ''red'') bot_scope w = (Inr (Some k), w')"
    "sq_abs w' = spec_remove (u ''red'') (matching (Some bot_scope)) (sq_abs w)"
    using sqlite.delete_all_refines [OF assms(1)] by metis
  then show ?thesis by (simp add: sweep_def)
qed

lemma bot_matching: "m_scope m = bot_scope \<Longrightarrow> matching (Some bot_scope) m"
  by (simp add: matching_def scope_contains_def bot_scope_def scope_text.simps)

theorem interleaving_keeps_invariant_witness:
  "well_stamped sq_inv sq_abs
     (fst (store (snd (perform demo_busy (Some ann) add_hi (start (demo_sql, [tag, sweep]))))))"
proof -
  have "well_stamped sq_inv sq_abs (fst (store (start (demo_sql, [tag, sweep]))))"
    using demo_sql_served by (simp add: start_def)
  moreover have "\<forall>f \<in> set (snd (store (start (demo_sql, [tag, sweep])))).
      traffic (sqlite_backend plain_ucd (Suc 9)) ((=) (u ''red'')) f"
    using moves_traffic by (simp add: start_def)
  ultimately show ?thesis using interleaving_keeps_invariant [OF demo_busy_sel(1)] by blast
qed

theorem reads_undisturbed_witness:
  "fst (perform demo_busy (Some ray) Export (start (demo_sql, [blue_add]))) =
     fst (perform (demo_sql_policy 9) (Some ray) Export (start demo_sql))"
proof -
  have inv: "sq_inv (fst (store (start (demo_sql, [blue_add]))))"
    using demo_sql_inv by (simp add: start_def)
  have "\<forall>f \<in> set (snd (store (start (demo_sql, [blue_add])))).
      traffic (sqlite_backend plain_ucd (Suc 9)) (\<lambda>q. q \<noteq> space_of ray) f"
    using traffic_mono [OF moves_traffic(3), of "\<lambda>q. q \<noteq> u ''red''"] by (auto simp: start_def)
  from reads_undisturbed [OF demo_busy_sel(1) demo_sql_policy_sel(1) _ inv this, of Export]
  show ?thesis by (simp add: on_its_own_def start_def)
qed

lemma tag_found:
  "\<exists>now. spec_get (space_of ann) [97] (sq_abs (tag demo_sql)) =
    Some (updated_memory (demo_memory [97]) None (Some tagging) (Some rob_system) now)"
proof -
  have clean: "clean_keys (patch_keys x)" if "Some tagging = Some x" for x
    using that tagging_clean by simp
  obtain now w' where upd: "b_update (sqlite_backend plain_ucd (Suc 9)) (u ''red'') [97] None (Some tagging) (Some rob_system) demo_sql =
      (Inr (updated_memory (demo_memory [97]) None (Some tagging) (Some rob_system) now), w')"
    and spec: "sq_abs w' = spec_update (u ''red'') (demo_memory [97])
      (updated_memory (demo_memory [97]) None (Some tagging) (Some rob_system) now) now (sq_abs demo_sql)"
    using sqlite.update_refines [where pt = "Some tagging" and co = None and sy = "Some rob_system"
        and U = plain_ucd and n = 9, OF demo_sql_inv clean demo_sql_get] by blast
  have at: "demo_memory [97] \<in> set (sp_listing (sq_abs demo_sql) (u ''red''))" "m_id (demo_memory [97]) = [97]"
    using spec_get_Some [OF demo_sql_get] by simp_all
  show ?thesis
    unfolding tag_def upd snd_conv spec using spec_get_updated [OF at] at(2) by (intro exI [of _ now]) simp
qed

lemma demo_tagged:
  "store (start (demo_sql, [\<lambda>w. w, tag])) = (demo_sql, (\<lambda>w. w) # tag # [])"
  "spec_get (space_of ann) [97] (sq_abs demo_sql) = Some (demo_memory [97])"
  using demo_sql_get by (simp_all add: start_def)

theorem update_merges_witness:
  "\<exists>m. fst (policy_update demo_busy (Some ann) [97] (Some (u ''ho'')) None (start (demo_sql, [\<lambda>w. w, tag]))) = Inr m
     \<and> m_content m = u ''ho'' \<and> map_of (m_metadata m) (u ''k'') = Some (JInt 1)"
proof -
  obtain now where found2: "spec_get (space_of ann) [97] (sq_abs (tag demo_sql)) =
      Some (updated_memory (demo_memory [97]) None (Some tagging) (Some rob_system) now)"
    using tag_found by blast
  have args: "update_arguments (Some (u ''ho'')) None = Inr ()" "requested_patch None = Inr None"
    "wf_dict (or_empty (None :: metadata option))"
    by (simp_all add: eval_simps wf_dict_def)
  have fits: "patch_fits (demo_memory [97]) None = Inr ()" by (simp add: patch_fits_def)
  from update_merges [OF demo_busy_sel(1) demo_keys(4) demo_tagged(1) demo_sql_served traffic.quiet
      moves_traffic(1) args(1,3,2) demo_id demo_tagged(2) fits]
  show ?thesis
    unfolding found2 option.case
    by (auto simp: updated_memory_def tagging_def apply_patch_def demo_memory_def)
qed

theorem add_read_back_races_witness:
  "fst (policy_add demo_busy (Some ann) (u ''hi'') (Some bot_scope) None False (start (demo_sql, [\<lambda>w. w, sweep]))) =
     Inl (PolicyError Internal_error (Policy_msg Internal_check_failed))"
proof -
  have st: "store (start (demo_sql, [\<lambda>w. w, sweep])) = (demo_sql, (\<lambda>w. w) # sweep # [])"
    by (simp add: start_def)
  have ok: "validate_scope (scope_json (Some bot_scope)) (pol_scope_keys demo_busy) = Inr (Some bot_scope)"
    using demo_bot by (simp add: scope_json_def)
  obtain i m v where m: "m_id m = i" "m_scope m = scope_as_text (or_empty (Some bot_scope))"
    and v: "sq_inv v" "sq_abs v = spec_add (space_of ann) m (sq_abs demo_sql)"
    and answer: "if spec_get (space_of ann) i (sq_abs (sweep v)) = None
      then fst (policy_add demo_busy (Some ann) (u ''hi'') (Some bot_scope) None False (start (demo_sql, [\<lambda>w. w, sweep]))) =
          Inl (PolicyError Internal_error (Policy_msg Internal_check_failed))
        \<and> server_log (snd (policy_add demo_busy (Some ann) (u ''hi'') (Some bot_scope) None False
            (start (demo_sql, [\<lambda>w. w, sweep])))) =
          server_log (start (demo_sql, [\<lambda>w. w, sweep])) @ [Isolation_violation (u ''add'') i (space_of ann) None None]
      else fst (policy_add demo_busy (Some ann) (u ''hi'') (Some bot_scope) None False (start (demo_sql, [\<lambda>w. w, sweep]))) =
          Inr (Many [\<lparr>r_id = i, r_status = u ''ready'', r_created_at = m_created_at m, r_event = Ev_add\<rparr>])
        \<and> server_log (snd (policy_add demo_busy (Some ann) (u ''hi'') (Some bot_scope) None False
            (start (demo_sql, [\<lambda>w. w, sweep])))) = server_log (start (demo_sql, [\<lambda>w. w, sweep]))"
    using add_read_back_races [OF demo_busy_sel(1) demo_keys(4) st demo_sql_served traffic.quiet moves_traffic(2)
        demo_add_args ok, of False] by blast
  have "scope_as_text bot_scope = bot_scope"
    by (simp add: scope_as_text_def bot_scope_def scope_text.simps)
  then have bot: "matching (Some bot_scope) m" using m(2) by (simp add: bot_matching)
  have red: "sp_listing (sq_abs v) (u ''red'') = [demo_memory [97], demo_memory [97, 97], m]"
    using held_demo_sql [of "u ''red''"] by (simp add: v(2) spec_add_def start_def)
  have "m_scope (demo_memory j) = bot_scope" for j by (simp add: demo_memory_def bot_scope_def)
  then have "sp_listing (sq_abs (sweep v)) (u ''red'') = []"
    using bot red sweep_run [OF v(1)] by (simp add: spec_remove_def bot_matching)
  then have "spec_get (space_of ann) i (sq_abs (sweep v)) = None" by (simp add: spec_get_def)
  with answer show ?thesis by simp
qed

theorem by_id_answers_or_refuses_witness:
  "fst (policy_get demo_busy (Some ray) [97] (start (demo_sql, [\<lambda>w. w, sweep]))) = Inr (demo_memory [97])
   \<and> fst (policy_delete demo_busy (Some ann) [97] (start (demo_sql, [\<lambda>w. w, sweep]))) = Inl missing
   \<and> fst (policy_delete demo_busy (Some ray) [97] (start (demo_sql, [\<lambda>w. w, sweep]))) = Inl forbidden"
proof -
  have st: "store (start (demo_sql, [\<lambda>w. w, sweep])) = (demo_sql, (\<lambda>w. w) # sweep # [])"
    by (simp add: start_def)
  have red: "sp_listing (sq_abs demo_sql) (u ''red'') = [demo_memory [97], demo_memory [97, 97]]"
    using held_demo_sql [of "u ''red''"] by (simp add: start_def)
  have "m_scope (demo_memory j) = bot_scope" for j by (simp add: demo_memory_def bot_scope_def)
  then have gone: "spec_get (u ''red'') [97] (sq_abs (sweep demo_sql)) = None"
    using red sweep_run [OF demo_sql_inv] by (simp add: spec_get_def spec_remove_def bot_matching)
  have keys: "writer ann" "\<not> writer ray" "space_of ann = u ''red''" "space_of ray = u ''red''"
    by (simp_all add: writer_def ann_def ray_def)
  have found: "lookup_result [97] (Some (demo_memory [97])) = Inr (demo_memory [97])"
    using demo_id by (simp add: lookup_result_def)
  note answers = by_id_answers_or_refuses [OF demo_busy_sel(1) st demo_sql_served traffic.quiet
      moves_traffic(2) refl refl, where i = "[97]" and co = None and md = None]
  show ?thesis
    using answers [of ann] answers [of ray] keys gone
    by (simp add: demo_sql_get found still_there_def)
qed

end
