(* ===== verification/Patch_Cap.thy ===== *)
theory Patch_Cap
  imports Interleaved
begin

text \<open>
  The cap on metadata when updates race. Policy checks the patched metadata against what it read,
  the store patches what it holds by then (\<open>policy/__init__.py\<close>, \<open>Policy.update\<close>). The lemmas: the
  size of an object as the sum over its entries, and what a patch can add to it.
\<close>

section \<open>Sizes by entries\<close>

definition entry_text :: "pystr \<times> json \<Rightarrow> pystr" where
  "entry_text = (\<lambda>(k, v). dumps_str k @ [58] @ json_dumps v)"

definition entry_fine :: "pystr \<times> json \<Rightarrow> bool" where
  "entry_fine x \<longleftrightarrow> \<not> too_long_int (snd x) \<and> (\<forall>c \<in> set (entry_text x). \<not> is_surrogate c)"

definition entries_size :: "metadata \<Rightarrow> nat" where
  "entries_size d = sum_list (map (\<lambda>x. Suc (utf8_size (entry_text x))) d)"

lemma entries_size_simps [simp]:
  "entries_size [] = 0"
  "entries_size (x # d) = Suc (utf8_size (entry_text x)) + entries_size d"
  by (simp_all add: entries_size_def)

lemma entries_size_pos: "d \<noteq> [] \<Longrightarrow> 1 \<le> entries_size d"
  by (cases d) simp_all

lemma utf8_size_entries: "d \<noteq> [] \<Longrightarrow> Suc (utf8_size (join [44] (map entry_text d))) = entries_size d"
proof (induction d)
  case (Cons x d)
  then show ?case
    by (cases "d = []") (simp_all add: join_Cons utf8_size_def [of "[44]"]
        utf8_size_def [of "44 # _"] utf8_len_def)
qed simp

lemma json_dumps_entries: "json_dumps (JObj d) = [123] @ join [44] (map entry_text d) @ [125]"
  by (simp add: entry_text_def)

lemma surrogate_free:
  "(\<forall>c \<in> set (json_dumps (JObj d)). \<not> is_surrogate c) \<longleftrightarrow>
     (\<forall>x \<in> set d. \<forall>c \<in> set (entry_text x). \<not> is_surrogate c)"
proof -
  have "\<not> is_surrogate 123" "\<not> is_surrogate 125" "\<not> is_surrogate 44"
    by (simp_all add: is_surrogate_def)
  then show ?thesis
    using set_join_subset [of "[44]" "map entry_text d"] set_join_supset [of "map entry_text d" "[44]"]
    unfolding json_dumps_entries by auto
qed

lemma json_size_entries:
  "json_size d = Inr n \<longleftrightarrow>
     list_all entry_fine d \<and> n = (if d = [] then 2 else Suc (entries_size d))"
proof -
  have "utf8_size (json_dumps (JObj d)) = (if d = [] then 2 else Suc (entries_size d))"
    using utf8_size_entries [of d]
    by (simp add: json_dumps_entries utf8_size_def [of "[_]"] utf8_len_def
        utf8_size_def [of "_ # _"] del: json_dumps.simps)
  moreover have "list_all entry_fine d \<longleftrightarrow>
      \<not> too_long_int (JObj d) \<and> \<not> list_ex is_surrogate (json_dumps (JObj d))"
    using surrogate_free [of d] by (auto simp: entry_fine_def list_all_iff list_ex_iff simp del: json_dumps.simps)
  ultimately show ?thesis
    by (auto simp: json_size_def Let_def simp del: json_dumps.simps too_long_int.simps)
qed

section \<open>What a patch adds\<close>

lemma entries_size_set: "entries_size (dict_set k v d) \<le> entries_size d + entries_size [(k, v)]"
  by (induction d) auto

lemma entries_size_update: "entries_size (dict_update d e) \<le> entries_size d + entries_size e"
proof (induction e arbitrary: d)
  case (Cons p e)
  obtain k v where p: "p = (k, v)" by (cases p)
  show ?case
    using Cons.IH [of "dict_set k v d"] entries_size_set [of k v d] by (simp add: p)
qed simp

lemma entries_size_pop: "entries_size (dict_pop k d) \<le> entries_size d"
  by (induction d) auto

lemma entries_size_fold_pop: "entries_size (fold dict_pop ks d) \<le> entries_size d"
proof (induction ks arbitrary: d)
  case (Cons k ks)
  from Cons.IH [of "dict_pop k d"] entries_size_pop [of k d] show ?case by simp
qed simp

lemma entries_size_subset: "distinct d \<Longrightarrow> set d \<subseteq> set e \<Longrightarrow> entries_size d \<le> entries_size e"
proof (induction d arbitrary: e)
  case (Cons x d)
  then have "entries_size d \<le> entries_size (remove1 x e)"
    by (intro Cons.IH subsetI) (simp_all, metis in_set_remove1 subsetD)
  moreover have "x \<in> set e" using Cons.prems by simp
  then have "entries_size e = entries_size [x] + entries_size (remove1 x e)"
    by (simp add: entries_size_def sum_list_map_remove1)
  ultimately show ?case by simp
qed simp

lemma set_dict_update: "set (dict_update d e) \<subseteq> set d \<union> set e"
proof (induction e arbitrary: d)
  case (Cons p e)
  obtain k v where p: "p = (k, v)" by (cases p)
  show ?case using Cons.IH [of "dict_set k v d"] set_dict_set [of k v d] by (auto simp: p)
qed simp

lemma set_fold_pop: "set (fold dict_pop ks d) \<subseteq> set d"
proof (induction ks arbitrary: d)
  case (Cons k ks)
  have "set (dict_pop k d) \<subseteq> set d" by (induction d) auto
  with Cons.IH [of "dict_pop k d"] show ?case by auto
qed simp

lemma patched_holds_set:
  assumes "wf_dict (p_set p)"
  shows "set (p_set p) \<subseteq> set (patched md p)"
proof
  fix x
  assume x: "x \<in> set (p_set p)"
  obtain k v where kv: "x = (k, v)" by (cases x)
  have "map_of (p_set p) k = Some v" using x kv assms by (simp add: map_of_wf_in_set)
  then have "map_of (patched md p) k = Some v"
    by (simp add: patched_def map_of_dict_update [OF assms] map_add_Some_iff)
  then show "x \<in> set (patched md p)" unfolding kv by (rule map_of_SomeD)
qed

text \<open>The size of what the patch meets, and of what it was checked on, bound what it leaves.\<close>

lemma patch_adds:
  assumes "wf_dict (p_set p)" and "json_size (patched read p) = Inr n1" and "json_size md = Inr n2"
  shows "\<exists>n \<le> n2 + n1. json_size (apply_patch p md) = Inr n"
proof -
  let ?new = "apply_patch p md"
  have fine: "list_all entry_fine (patched read p)" "list_all entry_fine md"
    and n1: "entries_size (patched read p) \<le> n1" and n2: "entries_size md < n2" "2 \<le> n2"
    using assms(2,3) entries_size_pos by (auto simp: json_size_entries split: if_splits)
  have "set ?new \<subseteq> set md \<union> set (p_set p)"
    unfolding apply_patch_def using set_fold_pop set_dict_update by (rule subset_trans)
  with patched_holds_set [OF assms(1), of read] fine have "list_all entry_fine ?new"
    by (auto simp: list_all_iff)
  moreover have "distinct (p_set p)" using assms(1) by (simp add: wf_dict_def distinct_map)
  then have "entries_size (p_set p) \<le> entries_size (patched read p)"
    by (rule entries_size_subset) (rule patched_holds_set [OF assms(1)])
  then have "entries_size ?new \<le> entries_size md + entries_size (patched read p)"
    using entries_size_fold_pop [of "p_remove p" "dict_update md (p_set p)"]
      entries_size_update [of md "p_set p"] by (simp add: apply_patch_def)
  ultimately show ?thesis
    using n1 n2 by (auto simp: json_size_entries)
qed

lemma requested_patch_set:
  "requested_patch md = Inr (Some p) \<Longrightarrow> wf_dict (or_empty md) \<Longrightarrow> wf_dict (p_set p)"
  by (auto simp: requested_patch_def as_patch_def make_patch_ok res_bind_eq_Inr split: if_splits)

text \<open>
  Property C10: the cap when updates race. An update that runs amid other requests leaves metadata
  no larger than what the store held at the write and the cap together, or than that and what policy
  read when that was over the cap already: the check bounds what one write adds, whatever the
  others store between its read and its write.
\<close>

theorem racing_update_bound:
  assumes "pol_backend P = interfered (sqlite_backend U (Suc vars))" and "writer key"
    and "store s = (w, f # g # fs)" and "well_stamped sq_inv sq_abs w"
    and "traffic (sqlite_backend U (Suc vars)) Q f" and "traffic (sqlite_backend U (Suc vars)) Q g"
    and "update_arguments co md = Inr ()" and "wf_dict (or_empty md)"
    and "requested_patch md = Inr pt" and "is_memory_id i"
    and "spec_get (space_of key) i (sq_abs (f w)) = Some m" and "patch_fits m pt = Inr ()"
    and "spec_get (space_of key) i (sq_abs (g (f w))) = Some m2"
    and "json_size (m_metadata m2) = Inr n2"
  shows "\<exists>m' n. fst (policy_update P (Some key) i co md s) = Inr m'
    \<and> spec_get (space_of key) i (sq_abs (fst (store (snd (policy_update P (Some key) i co md s))))) = Some m'
    \<and> json_size (m_metadata m') = Inr n
    \<and> (n \<le> n2 + 16384 \<or> (\<exists>k. json_size (m_metadata m) = Inr k \<and> n \<le> n2 + k))"
proof -
  let ?sy = "system_for (space_of key) (k_name key) (sys_created_by (m_system m))"
  obtain now m' where m': "m' = updated_memory m2 co pt (Some ?sy) now"
    and run: "fst (policy_update P (Some key) i co md s) = Inr m'"
    and spec: "sq_abs (fst (store (snd (policy_update P (Some key) i co md s)))) =
      spec_update (space_of key) m2 m' now (sq_abs (g (f w)))"
    using sqlite.update_between [OF assms(1-7,9-12)] assms(13) by auto
  have id: "m2 \<in> set (sp_listing (sq_abs (g (f w))) (space_of key))" "m_id m2 = i" "m_id m' = i"
    using spec_get_Some [OF assms(13)] by (simp_all add: m')
  have "\<exists>n. json_size (m_metadata m') = Inr n
      \<and> (n \<le> n2 + 16384 \<or> (\<exists>k. json_size (m_metadata m) = Inr k \<and> n \<le> n2 + k))"
  proof (cases pt)
    case None
    then show ?thesis using assms(14) by (simp add: m' updated_memory_def)
  next
    case (Some p)
    then obtain n1 where n1: "json_size (patched (m_metadata m) p) = Inr n1"
      "n1 \<le> 16384 \<or> (\<exists>k. json_size (m_metadata m) = Inr k \<and> n1 \<le> k)"
      using assms(12) by (auto simp: patch_fits_def check_metadata_size_ok MAX_METADATA_BYTES_def)
    have "wf_dict (p_set p)" using requested_patch_set assms(8,9) Some by blast
    from patch_adds [OF this n1(1) assms(14)] obtain n where
      "n \<le> n2 + n1" "json_size (apply_patch p (m_metadata m2)) = Inr n" by blast
    then show ?thesis
      using n1(2) Some by (intro exI [of _ n]) (auto simp: m' updated_memory_def)
  qed
  with run show ?thesis
    unfolding spec using spec_get_updated [OF id] by (intro exI [of _ m']) simp
qed

text \<open>The bound is not the cap: two patches that fit what both read leave more than 16 KiB together.\<close>

definition long_value :: "pystr \<Rightarrow> patch" where
  "long_value k = \<lparr>p_set = [(k, JStr (replicate 9000 97))], p_remove = []\<rparr>"

lemma dumps_replicate: "dumps_str (replicate n 97) = [34] @ replicate n 97 @ [34]"
proof -
  have "concat (map escape_char (replicate n 97)) = replicate n 97"
    by (induction n) (simp_all add: escape_char_def)
  then show ?thesis by (simp add: dumps_str_def)
qed

lemma entry_replicate:
  "utf8_size (entry_text ([c], JStr (replicate n 97))) = n + 6"
  "entry_fine ([c], JStr (replicate n 97))" if "97 \<le> c" "c < 123"
proof -
  have "utf8_size (replicate n 97) = n" by (induction n) (simp_all add: utf8_len_def)
  then show "utf8_size (entry_text ([c], JStr (replicate n 97))) = n + 6"
    using that by (simp add: entry_text_def dumps_replicate) (simp add: dumps_str_def escape_char_def utf8_len_def)
  have "dumps_str [c] = [34, c, 34]" using that by (simp add: dumps_str_def escape_char_def)
  then show "entry_fine ([c], JStr (replicate n 97))"
    using that by (auto simp: entry_fine_def entry_text_def dumps_replicate is_surrogate_def)
qed

lemma cap_can_be_passed:
  "check_metadata_size (patched [] (long_value [97])) (Some []) = Inr ()
   \<and> check_metadata_size (patched [] (long_value [98])) (Some []) = Inr ()
   \<and> json_size (apply_patch (long_value [98]) (apply_patch (long_value [97]) [])) = Inr 18015"
  by (simp add: check_metadata_size_ok json_size_entries patched_def apply_patch_def long_value_def
      entry_replicate MAX_METADATA_BYTES_def)

section \<open>The bound at work\<close>

text \<open>Ann sets one metadata key while another key of her space sets a second one.\<close>

definition second_key :: metadata where
  "second_key = [(u ''j'', JInt 2)]"

theorem racing_update_bound_witness:
  "\<exists>m n. fst (policy_update demo_busy (Some ann) [97] None (Some second_key) (start (demo_sql, [\<lambda>w. w, tag]))) = Inr m
     \<and> json_size (m_metadata m) = Inr n \<and> n \<le> 7 + 16384"
proof -
  let ?p = "\<lparr>p_set = second_key, p_remove = []\<rparr>"
  obtain now where found2: "spec_get (space_of ann) [97] (sq_abs (tag demo_sql)) =
      Some (updated_memory (demo_memory [97]) None (Some tagging) (Some rob_system) now)"
    using tag_found by blast
  have pt: "requested_patch (Some second_key) = Inr (Some ?p)"
    by (simp add: requested_patch_def as_patch_def make_patch_def dict_keys_def Let_def second_key_def)
  have args: "update_arguments None (Some second_key) = Inr ()" "wf_dict (or_empty (Some second_key))"
    by (simp_all add: eval_simps wf_dict_def second_key_def MAX_METADATA_KEY_LENGTH_def
        is_reserved_metadata_key_def RESERVED_METADATA_PREFIX_def RESERVED_METADATA_KEYS_def)
  have fine: "entry_fine ([c], JInt i)" "utf8_size (entry_text ([c], JInt i)) = 5"
    if "97 \<le> c" "c < 123" "0 \<le> i" "i < 10" for c i
    using that max_str_digits_pos
    by (auto simp: entry_fine_def entry_text_def dumps_str_def escape_char_def int_str_def
        nat_digits.simps is_surrogate_def utf8_len_def)
  have old: "m_metadata (demo_memory [97]) = []" by (simp add: demo_memory_def)
  have two: "json_size [] = Inr 2" by (simp add: json_size_entries)
  have fits: "patch_fits (demo_memory [97]) (Some ?p) = Inr ()"
    using fine by (simp add: patch_fits_def old patched_def check_metadata_size_ok json_size_entries
        second_key_def u_def MAX_METADATA_BYTES_def)
  have n2: "json_size (m_metadata (updated_memory (demo_memory [97]) None (Some tagging) (Some rob_system) now)) = Inr 7"
    using fine by (simp add: updated_memory_def old apply_patch_def tagging_def json_size_entries u_def)
  from racing_update_bound [OF demo_busy_sel(1) demo_keys(4) demo_tagged(1) demo_sql_served traffic.quiet
      moves_traffic(1) args pt demo_id demo_tagged(2) fits found2 n2]
  show ?thesis unfolding old two by fastforce
qed

end
