(* ===== verification/Migration.thy ===== *)
theory Migration
  imports Moving
begin

text \<open>
  \<open>migrate\<close> of \<open>memcp/policy/transfer.py\<close> between two stores. Its source and its target are two
  backend objects with a state of their own each; \<open>migrate\<close> acts on the pair of the two states. The
  lemmas: a backend put beside another store keeps its contract and leaves the other store alone, and
  what a migration from the process's memory into a SQLite file copies.
\<close>

section \<open>Two stores side by side\<close>

definition on_first :: "('v, 'a) act \<Rightarrow> ('v \<times> 'w, 'a) act" where
  "on_first m w = (case m (fst w) of (r, v) \<Rightarrow> (r, (v, snd w)))"

definition on_second :: "('w, 'a) act \<Rightarrow> ('v \<times> 'w, 'a) act" where
  "on_second m w = (case m (snd w) of (r, v) \<Rightarrow> (r, (fst w, v)))"

definition first_backend :: "'v backend \<Rightarrow> ('v \<times> 'w) backend" where
  "first_backend B =
     \<lparr>b_retrieval = b_retrieval B, b_extracts_facts = b_extracts_facts B,
      b_capabilities = b_capabilities B, b_scope_keys = b_scope_keys B,
      b_validate_partition = b_validate_partition B,
      b_add = (\<lambda>p c sc md infer sy. on_first (b_add B p c sc md infer sy)),
      b_search = (\<lambda>p q sc l th. on_first (b_search B p q sc l th)),
      b_delete = (\<lambda>p i. on_first (b_delete B p i)),
      b_delete_all = (\<lambda>p d. on_first (b_delete_all B p d)),
      b_get = (\<lambda>p i. on_first (b_get B p i)),
      b_update = (\<lambda>p i co pt sy. on_first (b_update B p i co pt sy)),
      b_list_memories = (\<lambda>p sc l cu. on_first (b_list_memories B p sc l cu)),
      b_history = (\<lambda>p i. on_first (b_history B p i)),
      b_entities = (\<lambda>p sc l. on_first (b_entities B p sc l)),
      b_health = on_first (b_health B), b_close = on_first (b_close B)\<rparr>"

definition second_backend :: "'w backend \<Rightarrow> ('v \<times> 'w) backend" where
  "second_backend B =
     \<lparr>b_retrieval = b_retrieval B, b_extracts_facts = b_extracts_facts B,
      b_capabilities = b_capabilities B, b_scope_keys = b_scope_keys B,
      b_validate_partition = b_validate_partition B,
      b_add = (\<lambda>p c sc md infer sy. on_second (b_add B p c sc md infer sy)),
      b_search = (\<lambda>p q sc l th. on_second (b_search B p q sc l th)),
      b_delete = (\<lambda>p i. on_second (b_delete B p i)),
      b_delete_all = (\<lambda>p d. on_second (b_delete_all B p d)),
      b_get = (\<lambda>p i. on_second (b_get B p i)),
      b_update = (\<lambda>p i co pt sy. on_second (b_update B p i co pt sy)),
      b_list_memories = (\<lambda>p sc l cu. on_second (b_list_memories B p sc l cu)),
      b_history = (\<lambda>p i. on_second (b_history B p i)),
      b_entities = (\<lambda>p sc l. on_second (b_entities B p sc l)),
      b_health = on_second (b_health B), b_close = on_second (b_close B)\<rparr>"

text \<open>
  A store beside another keeps its contract. The state of the other is part of the invariant of the
  second one: no operation of the second changes it.
\<close>

context storing_backend
begin

lemma first_storing:
  "storing_backend (first_backend B) (\<lambda>w. inv (fst w)) (\<lambda>w. abs (fst w)) rank bulk"
proof (unfold_locales, goal_cases)
  case (5 w md sc p c infer sy)
  from add_refines [OF 5, of p c infer sy] show ?case
    by (fastforce simp: first_backend_def on_first_def)
next
  case (6 sc p c md infer sy w)
  from add_refuses [OF 6, of p c md infer sy "fst w"] show ?case
    by (auto simp: first_backend_def on_first_def)
next
  case (7 w pt p i co sy)
  from update_missing [OF 7(1) 7(2) 7(3), of pt co sy] 7(2) show ?case
    by (fastforce simp: first_backend_def on_first_def)
next
  case (8 w pt p i m co sy)
  from update_refines [where pt = pt and co = co and sy = sy, OF 8(1) 8(2) 8(3)] show ?case
    by (fastforce simp: first_backend_def on_first_def)
next
  case (10 w p i m)
  from delete_refines [OF 10] show ?case by (fastforce simp: first_backend_def on_first_def)
next
  case (11 w d p)
  from delete_all_refines [OF 11] show ?case by (fastforce simp: first_backend_def on_first_def)
next
  case (12 w d p)
  from delete_all_overflows [OF 12] show ?case by (auto simp: first_backend_def on_first_def)
next
  case (13 d p w)
  from delete_all_refuses [OF 13, of p "fst w"] show ?case by (auto simp: first_backend_def on_first_def)
next
  case (17 sc p q l th w)
  from search_refuses [OF 17, of p q l th "fst w"] show ?case
    by (auto simp: first_backend_def on_first_def)
next
  case (18 p sc l w)
  from entities_reads [of p sc l "fst w"] show ?case
    by (cases w) (auto simp: first_backend_def on_first_def split: prod.split)
qed (simp_all add: first_backend_def on_first_def inv_listing inv_ids inv_apart get_refines
    delete_missing list_refines history_refines search_refines)

lemma second_storing:
  "storing_backend (second_backend B) (\<lambda>w. fst w = other \<and> inv (snd w)) (\<lambda>w. abs (snd w)) rank bulk"
proof (unfold_locales, goal_cases)
  case (1 w m p)
  then show ?case using inv_listing [of "snd w" m p] by simp
next
  case (5 w md sc p c infer sy)
  from add_refines [OF conjunct2 [OF 5(1)] 5(2,3), of p c infer sy] 5(1) show ?case
    by (fastforce simp: second_backend_def on_second_def)
next
  case (6 sc p c md infer sy w)
  from add_refuses [OF 6, of p c md infer sy "snd w"] show ?case
    by (auto simp: second_backend_def on_second_def)
next
  case (7 w pt p i co sy)
  from update_missing [OF conjunct2 [OF 7(1)] 7(2) 7(3), of pt co sy] 7(1,2) show ?case
    by (fastforce simp: second_backend_def on_second_def)
next
  case (8 w pt p i m co sy)
  from update_refines [where pt = pt and co = co and sy = sy, OF conjunct2 [OF 8(1)] 8(2) 8(3)] 8(1) show ?case
    by (fastforce simp: second_backend_def on_second_def)
next
  case (10 w p i m)
  from delete_refines [OF conjunct2 [OF 10(1)] 10(2)] 10(1) show ?case by (fastforce simp: second_backend_def on_second_def)
next
  case (11 w d p)
  from delete_all_refines [OF conjunct2 [OF 11(1)] 11(2,3)] 11(1) show ?case by (fastforce simp: second_backend_def on_second_def)
next
  case (12 w d p)
  from delete_all_overflows [OF conjunct2 [OF 12(1)] 12(2,3)] show ?case by (auto simp: second_backend_def on_second_def)
next
  case (13 d p w)
  from delete_all_refuses [OF 13, of p "snd w"] show ?case by (auto simp: second_backend_def on_second_def)
next
  case (17 sc p q l th w)
  from search_refuses [OF 17, of p q l th "snd w"] show ?case
    by (auto simp: second_backend_def on_second_def)
next
  case (18 p sc l w)
  from entities_reads [of p sc l "snd w"] show ?case
    by (cases w) (auto simp: second_backend_def on_second_def split: prod.split)
qed (simp_all add: second_backend_def on_second_def inv_ids inv_apart get_refines
    delete_missing list_refines history_refines search_refines prod_eq_iff)

end

interpretation memory_side: storing_backend "first_backend (in_memory_backend U)" "\<lambda>w. mem_inv (fst w)"
  "\<lambda>w. mem_abs (fst w)" "keyword_rank U" "\<lambda>n. True" for U
  by (rule in_memory.first_storing)

interpretation file_side: storing_backend "second_backend (sqlite_backend U (Suc n))"
  "\<lambda>w. fst w = other \<and> sq_inv (snd w)" "\<lambda>w. sq_abs (snd w)" "keyword_rank U" "\<lambda>k. k \<le> Suc n" for U n other
  by (rule sqlite.second_storing)

abbreviation held_first :: "(mem_store \<times> 'w) st \<Rightarrow> pystr \<Rightarrow> memory list" where
  "held_first s p \<equiv> sp_listing (mem_abs (fst (store s))) p"

abbreviation held_second :: "('v \<times> sql_store) st \<Rightarrow> pystr \<Rightarrow> memory list" where
  "held_second s p \<equiv> sp_listing (sq_abs (snd (store s))) p"

section \<open>From memory to a file\<close>

text \<open>
  Property C22: a migration that may start (operator named, audit log written, both
  partitions usable, a known conflict mode) from the in-memory backend into a space of a SQLite file
  that is empty copies the whole source space, if its memories are ones an import accepts, are
  pairwise distinct as identities and number no more than the limit: every memory arrives, in order,
  with its content, its scope as text, its metadata, its author and its creator, stamped with the
  space it landed in; the source store is as it was, and so is every other space of the file; the
  report counts every memory as imported, none skipped and no error.
\<close>

theorem migrate_copies:
  assumes "well_stamped mem_inv mem_abs (fst (store s))" and "well_stamped sq_inv sq_abs (snd (store s))"
    and "strip operator \<noteq> []" and "can_record enabled chain"
    and "refuse_migration (first_backend (in_memory_backend U)) (second_backend (sqlite_backend U (Suc n)))
        p landing mode = Inr ()"
    and "held_second s landing = []" and "int (length (held_first s p)) \<le> limit"
    and "\<forall>m \<in> set (held_first s p). copyable m \<and> fst ` set (m_scope m) \<inter> NESTED_FILTER_KEYS = {}"
    and "distinct (map memory_key (held_first s p))"
  shows "\<exists>report t. migrate enabled chain (first_backend (in_memory_backend U))
        (second_backend (sqlite_backend U (Suc n))) p operator (Some landing) mode limit name1 name2
        scope_as_given s = (Inr report, t)
    \<and> list_all2 (copy_of landing) (held_first s p) (held_second t landing)
    \<and> fst (store t) = fst (store s) \<and> (\<forall>q. q \<noteq> landing \<longrightarrow> held_second t q = held_second s q)
    \<and> report = \<lparr>mr_source = name1, mr_target = name2, mr_exported = length (held_first s p), mr_truncated = False,
        mr_imported = length (held_first s p), mr_skipped = 0, mr_errors = [], mr_dedup_incomplete = False\<rparr>"
proof -
  let ?A = "first_backend (in_memory_backend U) :: (mem_store \<times> sql_store) backend"
  let ?B = "second_backend (sqlite_backend U (Suc n)) :: (mem_store \<times> sql_store) backend"
  let ?all = "held_first s p"
  let ?s = "s\<lparr>entry := new_entry (u ''migrate'') (Some operator) (Some landing) None (Some p)\<rparr>"
  let ?es = "map (\<lambda>m. (m_content m, Some (m_scope m), Some (m_metadata m))) ?all"
  let ?xs = "map (wire_entry \<circ> serialize_memory) ?all"
  let ?acc = "\<lparr>is_existing = [], is_outcome = no_outcome False, is_failures = 0\<rparr>"
  have w1: "well_stamped (\<lambda>w. mem_inv (fst w)) (\<lambda>w. mem_abs (fst w)) (store ?s)"
    using assms(1) by (simp add: well_stamped_def)
  have w2: "well_stamped (\<lambda>w. fst w = fst (store s) \<and> sq_inv (snd w)) (\<lambda>w. sq_abs (snd w)) (store ?s)"
    using assms(2) by (simp add: well_stamped_def)
  have limit: "0 \<le> limit" using assms(7) by linarith
  have read: "list_all_memories ?A p limit (u ''migrate'') ?s = (Inr (?all, False), ?s)"
    using memory_side.list_all_run [OF w1 limit] assms(7) by simp
  have index: "build_dedup_index ?B landing limit (u ''migrate'') ?s = (Inr ([], False), ?s)"
    using file_side.build_dedup_index_run [OF w2 limit, of U n landing] limit
    by (simp add: assms(6) index_memories_def)
  have checks: "map (check_entry scope_as_given) ?xs = map Inr ?es"
    using assms(8) by (simp add: check_entry_copy)
  have clean: "clean_keys (dict_keys (m_metadata m))" if "copyable m" for m
    using that by (auto simp: copyable_def dest: validate_metadata_clean)
  have storable: "list_all storable ?es"
    using assms(8) clean by (auto simp: list_all_iff storable_def)
  have distinct: "distinct (map parts_key ?es)"
    using assms(9) by (simp add: comp_def parts_key_def memory_key_def [abs_def])
  have none: "parts_key ` set ?es \<inter> dom (map_of (is_existing ?acc)) = {}" by simp
  obtain acc t ms where loop: "import_loop ?B landing mode scope_as_given (Some (copy_system ?all landing))
        (u ''migrate'') 0 ?xs ?acc ?s = (Inr acc, t)"
    and kept: "well_stamped (\<lambda>w. fst w = fst (store s) \<and> sq_inv (snd w)) (\<lambda>w. sq_abs (snd w)) (store t)"
    and t: "held_second t landing = held_second ?s landing @ ms"
      "\<forall>q. q \<noteq> landing \<longrightarrow> held_second t q = held_second ?s q"
    and ms: "stored_from landing (copy_system ?all landing) 0 ?es ms"
    and acc: "length (imported (is_outcome acc)) = length (imported (is_outcome ?acc)) + length ?es"
      "skipped (is_outcome acc) = skipped (is_outcome ?acc)" "errors (is_outcome acc) = errors (is_outcome ?acc)"
      "is_failures acc = is_failures ?acc"
      "dedup_incomplete (is_outcome acc) = dedup_incomplete (is_outcome ?acc)"
    using file_side.import_loop_new [where f = "copy_system ?all landing" and acc = ?acc and U = U and n = n
        and mode = mode and i = 0 and op = "u ''migrate''",
        OF copy_system_stamped w2 storable checks distinct none]
    by blast
  have conflict: "refuse_on_conflict ?B mode = Inr ()"
    using assms(5) by (simp add: refuse_migration_def res_bind_eq_Inr)
  have payload: "import_payload ?B landing ?xs mode scope_as_given limit (Some (copy_system ?all landing))
      (u ''migrate'') ?s = (Inr (is_outcome acc), t)"
  proof (cases "mode = u ''duplicate''")
    case True
    then show ?thesis
      using acc(4) loop conflict by (simp add: import_payload_def act_simps del: map_map)
  next
    case False
    then show ?thesis
      using acc(4) by (simp add: import_payload_def act_simps conflict index loop del: map_map)
  qed
  have "list_all2 (copy_of landing) ?all ms"
    using stored_from_copies [of landing ?all 0] ms by simp
  moreover have "fst (store t) = fst (store s)" using kept by (simp add: well_stamped_def)
  ultimately show ?thesis
    using assms(3,4) t acc
    by (simp add: migrate_def act_simps check_that_def Let_def audited_operator_def with_entry_def assms(5)
        read payload settle_def no_outcome_def assms(6) del: map_map)
qed

theorem migrate_copies_witness:
  "\<exists>report t m. migrate True [([(False, 20)], False)] (first_backend (in_memory_backend plain_ucd))
        (second_backend (sqlite_backend plain_ucd (Suc 0))) (u ''red'') (u ''op'') (Some (u ''blue'')) (u ''skip'')
        5 [] [] scope_as_given (start (demo_one, demo_sql)) = (Inr report, t)
      \<and> held_second t (u ''blue'') = [m] \<and> copy_of (u ''blue'') hi_memory m \<and> mr_imported report = 1"
proof -
  let ?s = "start (demo_one, demo_sql)"
  have named: "strip (u ''op'') \<noteq> []" by (simp add: strip_def strip_by_def is_space_def u_def)
  have recorded: "can_record True [([(False, 20)], False)]" by (simp add: can_record_def)
  have usable: "refuse_migration (first_backend (in_memory_backend plain_ucd))
      (second_backend (sqlite_backend plain_ucd (Suc 0))) (u ''red'') (u ''blue'') (u ''skip'') = Inr ()"
    by (simp add: refuse_migration_def refuse_unusable_partition_def is_wildcard_def strip_def strip_by_def
        is_space_def first_backend_def second_backend_def in_memory_backend_def mem_validate_partition_def
        sqlite_backend_def sq_validate_partition_def u_def refuse_on_conflict_def ON_CONFLICT_CHOICES_def)
  have stores: "well_stamped mem_inv mem_abs (fst (store ?s))" "well_stamped sq_inv sq_abs (snd (store ?s))"
    using served_demo(2) served_demo_sql by (simp_all add: start_def)
  have one: "held_first ?s (u ''red'') = [hi_memory]"
    using held_demo by (simp add: start_def)
  have empty: "held_second ?s (u ''blue'') = []"
    using held_demo_sql [of "u ''blue''"] by (simp add: start_def)
  have few: "int (length (held_first ?s (u ''red''))) \<le> 5" by (simp add: one)
  have content: "validate_content (m_content hi_memory) = Inr ()"
    by (simp add: hi_memory_def eval_simps)
  have metadata: "validate_metadata (m_metadata hi_memory) False = Inr ()"
    by (simp add: hi_memory_def)
  have size: "check_metadata_size (m_metadata hi_memory) None = Inr ()"
    by (simp add: hi_memory_def check_metadata_size_def json_size_def MAX_METADATA_BYTES_def
        is_surrogate_def utf8_size_def utf8_len_def)
  have copyable: "\<forall>m \<in> set (held_first ?s (u ''red'')).
      copyable m \<and> fst ` set (m_scope m) \<inter> NESTED_FILTER_KEYS = {}"
    by (simp add: one copyable_def content metadata size) (simp add: hi_memory_def)
  have distinct: "distinct (map memory_key (held_first ?s (u ''red'')))" by (simp add: one)
  from migrate_copies [OF stores named recorded usable empty few copyable distinct, of "[]" "[]"]
  show ?thesis by (fastforce simp: one list_all2_Cons1)
qed

end
