(* ===== verification/Mem0.thy ===== *)
theory Mem0
  imports Backend
begin

text \<open>
  \<open>memcp/backends/mem0/client.py\<close> and \<open>adapter.py\<close>: the client turns what becomes of an HTTP request
  into a JSON value or a \<open>MemoryAPIError\<close>; the adapter maps the backend's operations onto requests and
  reads memories out of the replies. The mem0 server and httpx are a parameter: \<open>http_send\<close> answers a
  request from a world it may change, in any way at all.
\<close>

section \<open>JSON as the code handles it\<close>

text \<open>
  \<open>x.get(...)\<close> of anything but an object raises \<open>AttributeError\<close>; a key that is missing or null
  reads as null. A value that the code passes on as text without looking at it (an id, a content, a
  time) is read by \<open>text_of\<close>, which leaves other types open.
\<close>

definition as_object :: "json \<Rightarrow> exc + (pystr, json) dict" where
  "as_object v = (case v of JObj d \<Rightarrow> Inr d | _ \<Rightarrow> Inl AttributeError)"

definition get_or :: "(pystr, json) dict \<Rightarrow> pystr \<Rightarrow> json \<Rightarrow> json" where
  "get_or d k other = (case map_of d k of None \<Rightarrow> other | Some v \<Rightarrow> v)"

abbreviation get_key :: "(pystr, json) dict \<Rightarrow> pystr \<Rightarrow> json" where
  "get_key d k \<equiv> get_or d k JNull"

fun truthy :: "json \<Rightarrow> bool" where
  "truthy JNull = False"
| "truthy (JBool b) = b"
| "truthy (JInt i) = (i \<noteq> 0)"
| "truthy (JFloat (Finite r)) = (r \<notin> {u ''0.0'', u ''-0.0''})"
| "truthy (JFloat f) = True"
| "truthy (JStr s) = (s \<noteq> [])"
| "truthy (JList vs) = (vs \<noteq> [])"
| "truthy (JObj d) = (d \<noteq> [])"

text \<open>\<open>str(v)\<close>; that of a list or an object is left open.\<close>

fun py_str :: "json \<Rightarrow> pystr" where
  "py_str (JStr s) = s"
| "py_str (JBool b) = (if b then u ''True'' else u ''False'')"
| "py_str v = scope_text v"

fun text_of :: "json \<Rightarrow> pystr" where
  "text_of (JStr s) = s"
| "text_of v = undefined v"

definition optional_text :: "json \<Rightarrow> pystr option" where
  "optional_text v = (if v = JNull then None else Some (text_of v))"

text \<open>Iterating: the elements of a list, the keys of an object, the characters of a string.\<close>

fun iterate :: "json \<Rightarrow> exc + json list" where
  "iterate (JList vs) = Inr vs"
| "iterate (JObj d) = Inr (map (\<lambda>(k, v). JStr k) d)"
| "iterate (JStr s) = Inr (map (\<lambda>c. JStr [c]) s)"
| "iterate v = Inl (TypeError (Raw (u ''not iterable'')))"

fun traverse :: "('a \<Rightarrow> 'e + 'b) \<Rightarrow> 'a list \<Rightarrow> 'e + 'b list" where
  "traverse f [] = Inr []"
| "traverse f (x # xs) = res_bind (f x) (\<lambda>y. res_bind (traverse f xs) (\<lambda>ys. Inr (y # ys)))"

section \<open>The client\<close>

record http_request =
  hq_method :: pystr
  hq_path :: pystr
  hq_params :: "(pystr, json) dict"
  hq_json :: "(pystr, json) dict option"

datatype http_body = Empty_body | Json_body json | Other_body

record http_response =
  hp_status :: int
  hp_text :: pystr
  hp_body :: http_body

text \<open>\<open>httpx.TimeoutException\<close> and \<open>httpx.RequestError\<close>, with their text, an exception of \<open>httpx\<close> that is
  neither (\<open>InvalidURL\<close>), which no handler catches, or a response.\<close>

datatype http_reply =
    Timeout_exception pystr | Request_error pystr | Other_exception pystr | Responded http_response

text \<open>What is outside the program: the server, the clock, and what Python says of a character's
  case, of a float's text and value, and of a timestamp (\<open>datetime.fromisoformat\<close>, a naive time
  read as UTC).\<close>

record 'w mem0_env =
  http_send :: "http_request \<Rightarrow> 'w \<Rightarrow> http_reply \<times> 'w"
  http_close :: "'w \<Rightarrow> 'w"
  monotonic :: "nat \<Rightarrow> rat"
  str_upper :: "pystr \<Rightarrow> pystr"
  str_lower :: "pystr \<Rightarrow> pystr"
  float_repr :: "float_arg \<Rightarrow> pyfloat"
  float_value :: "pyfloat \<Rightarrow> rat"
  instant_of :: "pystr \<Rightarrow> int option"

datatype mem0_warning =
    Attribution_caveat | Unexpected_shape | Unknown_event pystr json | At_ceiling int pystr
  | Health_check_failed

record 'w mem0 =
  m0_server :: 'w
  m0_log :: "mem0_warning list"
  m0_ticks :: nat

definition mem0_init :: "'w \<Rightarrow> 'w mem0" where
  "mem0_init w = \<lparr>m0_server = w, m0_log = [Attribution_caveat], m0_ticks = 0\<rparr>"

definition client_result :: "http_reply \<Rightarrow> exc + json" where
  "client_result reply =
     (case reply of
        Timeout_exception m \<Rightarrow> Inl (MemoryAPIError 408 (Raw (u ''Timeout: '' @ m)))
      | Request_error m \<Rightarrow> Inl (MemoryAPIError 503 (Raw (u ''Network error: '' @ m)))
      | Other_exception m \<Rightarrow> Inl (HttpxError m)
      | Responded r \<Rightarrow>
          if hp_status r \<ge> 400 then Inl (MemoryAPIError (hp_status r) (Raw (hp_text r)))
          else (case hp_body r of
                  Empty_body \<Rightarrow> Inr JNull
                | Json_body v \<Rightarrow> Inr v
                | Other_body \<Rightarrow> Inl (MemoryAPIError 502 (Raw (hp_text r)))))"

definition client_request ::
  "'w mem0_env \<Rightarrow> pystr \<Rightarrow> pystr \<Rightarrow> (pystr, json) dict \<Rightarrow> (pystr, json) dict option
   \<Rightarrow> ('w mem0, json) act" where
  "client_request E method path params body s =
     (case http_send E \<lparr>hq_method = method, hq_path = path, hq_params = params, hq_json = body\<rparr>
        (m0_server s) of
        (reply, w) \<Rightarrow> (client_result reply, s\<lparr>m0_server := w\<rparr>))"

definition client_close :: "'w mem0_env \<Rightarrow> ('w mem0, unit) act" where
  "client_close E = modify (\<lambda>s. s\<lparr>m0_server := http_close E (m0_server s)\<rparr>)"

definition warn :: "mem0_warning \<Rightarrow> ('w mem0, unit) act" where
  "warn m = modify (\<lambda>s. s\<lparr>m0_log := m0_log s @ [m]\<rparr>)"

definition mem0_monotonic :: "'w mem0_env \<Rightarrow> ('w mem0, rat) act" where
  "mem0_monotonic E s = (Inr (monotonic E (m0_ticks s)), s\<lparr>m0_ticks := Suc (m0_ticks s)\<rparr>)"

section \<open>Scopes as requests name them\<close>

definition LIST_CEILING :: int where "LIST_CEILING = 1000"

definition concrete :: "json \<Rightarrow> exc + json" where
  "concrete v = (if is_wildcard v then Inl (MemoryAPIError 400 (Mem0_msg Scope_value_wildcard)) else Inr v)"

definition scope_items :: "scope \<Rightarrow> exc + scope" where
  "scope_items scope =
     res_bind (raising (reject_nested_filters scope)) (\<lambda>_.
       Inr (filter (\<lambda>(k, v). k \<noteq> u ''user_id'') scope))"

fun add_filters :: "(pystr, json) dict \<Rightarrow> scope \<Rightarrow> exc + (pystr, json) dict" where
  "add_filters d [] = Inr d"
| "add_filters d ((k, v) # items) =
     res_bind (concrete v) (\<lambda>v. add_filters (dict_set k (JStr (scope_text v)) d) items)"

definition with_scope :: "(pystr, json) dict \<Rightarrow> scope option \<Rightarrow> exc + (pystr, json) dict" where
  "with_scope d sc =
     (if or_empty sc \<noteq> [] then res_bind (scope_items (or_empty sc)) (add_filters d) else Inr d)"

definition build_search_filters :: "pystr \<Rightarrow> scope option \<Rightarrow> exc + (pystr, json) dict" where
  "build_search_filters p sc = with_scope [(u ''user_id'', JStr p)] sc"

definition build_identifier_params :: "pystr \<Rightarrow> scope option \<Rightarrow> exc + (pystr, json) dict" where
  "build_identifier_params p sc = with_scope [(u ''user_id'', JStr p)] sc"

section \<open>Memories as replies hold them\<close>

definition system_json :: "system \<Rightarrow> (pystr, json) dict" where
  "system_json sy =
     (case sys_space sy of None \<Rightarrow> [] | Some v \<Rightarrow> [(u ''space'', v)])
     @ (case sys_author sy of None \<Rightarrow> [] | Some a \<Rightarrow> [(u ''author'', JStr a)])
     @ (case sys_created_by sy of None \<Rightarrow> [] | Some a \<Rightarrow> [(u ''created_by'', JStr a)])"

definition text_field :: "(pystr, json) dict \<Rightarrow> pystr \<Rightarrow> pystr option" where
  "text_field d k = (case map_of d k of Some (JStr s) \<Rightarrow> Some s | _ \<Rightarrow> None)"

definition split_system :: "(pystr, json) dict \<Rightarrow> system \<times> metadata" where
  "split_system stored =
     (let raw = get_key stored SYSTEM_METADATA_KEY;
          fields = (case raw of JObj d \<Rightarrow> d | JNull \<Rightarrow> [] | _ \<Rightarrow> [(u ''space'', raw)])
      in (\<lparr>sys_space = map_of fields (u ''space''), sys_author = text_field fields (u ''author''),
           sys_created_by = text_field fields (u ''created_by'')\<rparr>,
          filter (\<lambda>(k, v). v \<noteq> JNull) (strip_reserved_metadata stored)))"

definition json_score :: "'w mem0_env \<Rightarrow> json \<Rightarrow> rat option" where
  "json_score E v =
     (case v of
        JNull \<Rightarrow> None
      | JInt i \<Rightarrow> Some (of_int i)
      | JFloat f \<Rightarrow> Some (float_value E f)
      | JBool b \<Rightarrow> Some (if b then 1 else 0)
      | _ \<Rightarrow> undefined v)"

definition parse_memory :: "'w mem0_env \<Rightarrow> json \<Rightarrow> json \<Rightarrow> exc + memory" where
  "parse_memory E raw sc =
     res_bind (as_object raw) (\<lambda>d.
     let md = get_key d (u ''metadata'')
     in res_bind (if truthy md then as_object md else Inr []) (\<lambda>stored.
        case split_system stored of (sy, metadata) \<Rightarrow>
        Inr \<lparr>m_id = text_of (get_or d (u ''id'') (JStr [])),
             m_content = text_of (get_or d (u ''memory'') (get_or d (u ''text'') (JStr []))),
             m_score = json_score E (if sc \<noteq> JNull then sc else get_key d (u ''score'')),
             m_scope = filter (\<lambda>(k, v). k \<in> {u ''agent_id'', u ''run_id''} \<and> v \<noteq> JNull) d,
             m_metadata = metadata,
             m_created_at = text_of (get_or d (u ''created_at'') (JStr [])),
             m_updated_at = optional_text (get_key d (u ''updated_at'')),
             m_partition = (if truthy (get_key d (u ''user_id'')) then text_of (get_key d (u ''user_id'')) else []),
             m_system = sy\<rparr>))"

section \<open>Operations\<close>

definition mem0_validate_partition :: "pystr \<Rightarrow> unit checked" where
  "mem0_validate_partition p =
     (if p = [] \<or> p = u ''*'' \<or> p \<noteq> strip p then Inl (Mem0_msg (Partition_inexact p)) else Inr ())"

definition memory_path :: "pystr \<Rightarrow> pystr" where
  "memory_path memory_id = u ''/memories/'' @ memory_id"

definition add_event_of :: "pystr \<Rightarrow> add_event option" where
  "add_event_of event =
     (if event = u ''ADD'' then Some Ev_add
      else if event = u ''UPDATE'' then Some Ev_update
      else if event = u ''DELETE'' then Some Ev_delete
      else None)"

text \<open>One item of an add's reply: \<open>None\<close> for an event that changed nothing.\<close>

definition read_added :: "'w mem0_env \<Rightarrow> json \<Rightarrow> ('w mem0, add_result option) act" where
  "read_added E raw =
     seq (from_result (as_object raw)) (\<lambda>r.
     let event = str_upper E (py_str (if truthy (get_key r (u ''event'')) then get_key r (u ''event'')
                                      else JStr (u ''ADD'')));
         new_id = (case map_of r (u ''id'') of None \<Rightarrow> Inl KeyError | Some v \<Rightarrow> Inr v)
     in if event \<in> {u ''NONE'', u ''NOOP''} then ret None
        else
          seq (case add_event_of event of
                 Some ev \<Rightarrow> ret ev
               | None \<Rightarrow>
                   seq (from_result new_id) (\<lambda>i. seq (warn (Unknown_event event i)) (\<lambda>_. ret Ev_add))) (\<lambda>ev.
          seq (from_result new_id) (\<lambda>i.
          ret (Some \<lparr>r_id = text_of i, r_status = u ''ready'',
                     r_created_at = text_of (get_or r (u ''created_at'') (JStr [])), r_event = ev\<rparr>))))"

text \<open>The system fields are kept in the metadata, under a reserved key.\<close>

definition stored_metadata :: "metadata \<Rightarrow> system option \<Rightarrow> metadata" where
  "stored_metadata md sy =
     (let system = (case sy of None \<Rightarrow> [] | Some x \<Rightarrow> system_json x)
      in if system \<noteq> [] then dict_set SYSTEM_METADATA_KEY (JObj system) md else md)"

definition add_payload ::
  "pystr \<Rightarrow> pystr \<Rightarrow> scope option \<Rightarrow> metadata option \<Rightarrow> bool \<Rightarrow> system option
   \<Rightarrow> exc + (pystr, json) dict" where
  "add_payload p content sc md infer sy =
     res_bind (with_scope
       [(u ''messages'', JList [JObj [(u ''role'', JStr (u ''user'')), (u ''content'', JStr content)]]),
        (u ''user_id'', JStr p), (u ''infer'', JBool infer)] sc) (\<lambda>payload.
     res_bind (refuse_reserved_metadata (dict_keys (or_empty md))) (\<lambda>_.
     let stored = stored_metadata (or_empty md) sy
     in Inr (if stored \<noteq> [] then dict_set (u ''metadata'') (JObj stored) payload else payload)))"

definition mem0_add ::
  "'w mem0_env \<Rightarrow> pystr \<Rightarrow> pystr \<Rightarrow> scope option \<Rightarrow> metadata option \<Rightarrow> bool \<Rightarrow> system option
   \<Rightarrow> ('w mem0, add_return) act" where
  "mem0_add E p content sc md infer sy =
     seq (from_result (refuse_partition mem0_validate_partition p)) (\<lambda>_.
     seq (from_result (add_payload p content sc md infer sy)) (\<lambda>payload.
     seq (client_request E (u ''POST'') (u ''/memories'') [] (Some payload)) (\<lambda>result.
     case result of
       JObj d \<Rightarrow>
         (let results = get_key d (u ''results'')
          in seq (from_result (if truthy results then iterate results else Inr [])) (\<lambda>rs.
             seq (for_each (read_added E) rs) (\<lambda>added.
             ret (Many (List.map_filter (\<lambda>x. x) added)))))
     | _ \<Rightarrow> seq (warn Unexpected_shape) (\<lambda>_. ret (Many [])))))"

definition mem0_search ::
  "'w mem0_env \<Rightarrow> pystr \<Rightarrow> pystr \<Rightarrow> scope option \<Rightarrow> int \<Rightarrow> float_arg \<Rightarrow> ('w mem0, memory list) act" where
  "mem0_search E p query sc limit threshold =
     seq (from_result (refuse_partition mem0_validate_partition p)) (\<lambda>_.
     seq (from_result (build_search_filters p sc)) (\<lambda>filters.
     seq (client_request E (u ''POST'') (u ''/search'') []
            (Some [(u ''query'', JStr query), (u ''filters'', JObj filters), (u ''top_k'', JInt limit),
                   (u ''threshold'', JFloat (float_repr E threshold))])) (\<lambda>result.
     seq (from_result (case result of
            JObj d \<Rightarrow> iterate (get_or d (u ''results'') (JList []))
          | _ \<Rightarrow> Inr [])) (\<lambda>raw_results.
     from_result (traverse (\<lambda>r. res_bind (as_object r) (\<lambda>d. parse_memory E r (get_key d (u ''score''))))
       raw_results)))))"

definition mem0_get :: "'w mem0_env \<Rightarrow> pystr \<Rightarrow> pystr \<Rightarrow> ('w mem0, memory option) act" where
  "mem0_get E p memory_id =
     seq (from_result (refuse_partition mem0_validate_partition p)) (\<lambda>_.
     seq (client_request E (u ''GET'') (memory_path memory_id) [] None) (\<lambda>result.
     if result = JNull then ret None
     else
       seq (from_result (as_object result)) (\<lambda>d.
       if get_key d (u ''user_id'') \<noteq> JStr p then ret None
       else seq (from_result (parse_memory E result JNull)) (\<lambda>m. ret (Some m)))))"

definition mem0_delete :: "'w mem0_env \<Rightarrow> pystr \<Rightarrow> pystr \<Rightarrow> ('w mem0, bool) act" where
  "mem0_delete E p memory_id =
     seq (from_result (refuse_partition mem0_validate_partition p)) (\<lambda>_.
     seq (mem0_get E p memory_id) (\<lambda>existing.
     if existing = None then raise (MemoryAPIError 404 (Raw (u ''Not found'')))
     else
       seq (client_request E (u ''DELETE'') (memory_path memory_id) [] None) (\<lambda>_.
       ret True)))"

definition mem0_scope_keys :: "pystr list" where
  "mem0_scope_keys = [u ''agent_id'', u ''run_id'']"

definition deletable_value :: "json \<Rightarrow> bool" where
  "deletable_value v =
     (case v of JStr s \<Rightarrow> True | JInt i \<Rightarrow> True | JFloat f \<Rightarrow> True | JBool b \<Rightarrow> True | _ \<Rightarrow> False)"

definition mem0_delete_all :: "'w mem0_env \<Rightarrow> pystr \<Rightarrow> scope \<Rightarrow> ('w mem0, int option) act" where
  "mem0_delete_all E p sc =
     seq (from_result (refuse_partition mem0_validate_partition p)) (\<lambda>_.
     if list_ex (\<lambda>(k, v). k \<notin> set mem0_scope_keys \<or> \<not> deletable_value v) sc
     then raise (MemoryAPIError 400 (Mem0_msg (Delete_all_scope mem0_scope_keys)))
     else
       seq (from_result (build_identifier_params p (Some sc))) (\<lambda>params.
       seq (client_request E (u ''DELETE'') (u ''/memories'') params None) (\<lambda>_.
       ret None)))"

text \<open>\<open>round(latency, 1)\<close> in milliseconds.\<close>

definition latency_ms :: "rat \<Rightarrow> rat \<Rightarrow> rat" where
  "latency_ms start now = of_int (round_even ((now - start) * 1000 * 10)) / 10"

definition mem0_health :: "'w mem0_env \<Rightarrow> ('w mem0, health_status) act" where
  "mem0_health E =
     seq (mem0_monotonic E) (\<lambda>start.
     catch
       (seq (client_request E (u ''GET'') (u ''/memories'') [(u ''user_id'', JStr (u ''__health_check__''))] None) (\<lambda>_.
        seq (mem0_monotonic E) (\<lambda>now.
        ret \<lparr>hs_status = u ''healthy'', hs_backend = u ''mem0'', hs_latency_ms = Some (latency_ms start now)\<rparr>)))
       (\<lambda>e. if e = CancelledError then raise e
            else
              seq (warn Health_check_failed) (\<lambda>_.
              seq (mem0_monotonic E) (\<lambda>now.
              ret \<lparr>hs_status = u ''unhealthy'', hs_backend = u ''mem0'',
                   hs_latency_ms = Some (latency_ms start now)\<rparr>))))"

text \<open>What an update writes: the keys to set, null for each stored key to remove, the system.\<close>

definition put_metadata :: "metadata \<Rightarrow> patch option \<Rightarrow> system option \<Rightarrow> (pystr, json) dict" where
  "put_metadata existing pt sy =
     (let changes = (case pt of None \<Rightarrow> []
        | Some x \<Rightarrow> dict_update (dict_update [] (p_set x))
            (map (\<lambda>k. (k, JNull)) (filter (\<lambda>k. k \<in> fst ` set existing) (p_remove x))))
      in case sy of None \<Rightarrow> changes
         | Some x \<Rightarrow> dict_set SYSTEM_METADATA_KEY (JObj (system_json x)) changes)"

definition put_body :: "pystr option \<Rightarrow> (pystr, json) dict \<Rightarrow> (pystr, json) dict" where
  "put_body content md =
     (case content of None \<Rightarrow> [] | Some c \<Rightarrow> [(u ''text'', JStr c)])
     @ (if md \<noteq> [] then [(u ''metadata'', JObj md)] else [])"

definition mem0_update ::
  "'w mem0_env \<Rightarrow> pystr \<Rightarrow> pystr \<Rightarrow> pystr option \<Rightarrow> patch option \<Rightarrow> system option \<Rightarrow> ('w mem0, memory) act" where
  "mem0_update E p memory_id content pt sy =
     seq (from_result (refuse_partition mem0_validate_partition p)) (\<lambda>_.
     seq (from_result (case pt of None \<Rightarrow> Inr () | Some x \<Rightarrow> refuse_reserved_metadata (patch_keys x))) (\<lambda>_.
     seq (mem0_get E p memory_id) (\<lambda>existing.
     case existing of
       None \<Rightarrow> raise (MemoryAPIError 404 (Raw (u ''Memory not found'')))
     | Some m \<Rightarrow>
         let body = put_body content (put_metadata (m_metadata m) pt sy)
         in if body = [] then ret m
            else
              seq (client_request E (u ''PUT'') (memory_path memory_id) [] (Some body)) (\<lambda>_.
              seq (mem0_get E p memory_id) (\<lambda>updated.
              case updated of
                None \<Rightarrow> raise (MemoryAPIError 503 (Raw (u ''Update succeeded but read-back failed'')))
              | Some m' \<Rightarrow> ret m')))))"

text \<open>\<open>len(raw)\<close>.\<close>

fun json_len :: "json \<Rightarrow> exc + int" where
  "json_len (JList vs) = Inr (int (length vs))"
| "json_len (JObj d) = Inr (int (length d))"
| "json_len (JStr s) = Inr (int (length s))"
| "json_len v = Inl (TypeError (Raw (u ''no len'')))"

definition listed_items :: "json \<Rightarrow> exc + json" where
  "listed_items result =
     (case result of
        JList vs \<Rightarrow> Inr result
      | _ \<Rightarrow> res_bind (if truthy result then as_object result else Inr []) (\<lambda>d.
               Inr (get_or d (u ''results'') (JList []))))"

definition mem0_list_memories ::
  "'w mem0_env \<Rightarrow> pystr \<Rightarrow> scope option \<Rightarrow> int \<Rightarrow> pystr option \<Rightarrow> ('w mem0, list_result) act" where
  "mem0_list_memories E p sc limit cursor =
     seq (from_result (refuse_partition mem0_validate_partition p)) (\<lambda>_.
     seq (from_result (build_identifier_params p sc)) (\<lambda>params.
     seq (client_request E (u ''GET'') (u ''/memories'') (dict_set (u ''top_k'') (JInt LIST_CEILING) params) None) (\<lambda>result.
     seq (from_result (listed_items result)) (\<lambda>raw.
     seq (from_result (json_len raw)) (\<lambda>n.
     let at_ceiling = n \<ge> LIST_CEILING
     in seq (if at_ceiling then warn (At_ceiling LIST_CEILING p) else ret ()) (\<lambda>_.
        seq (from_result (res_bind (iterate raw) (traverse (\<lambda>r. parse_memory E r JNull)))) (\<lambda>memories.
        seq (from_result (raising (paginate memories cursor limit))) (\<lambda>page.
        ret (page\<lparr>l_incomplete := at_ceiling\<rparr>)))))))))"

definition read_history :: "'w mem0_env \<Rightarrow> json \<Rightarrow> exc + history_entry" where
  "read_history E raw =
     res_bind (as_object raw) (\<lambda>d.
     case get_or d (u ''event'') (JStr (u ''unknown'')) of
       JStr event \<Rightarrow>
         Inr \<lparr>h_action = str_lower E event,
              h_timestamp = text_of (get_or d (u ''created_at'') (JStr [])),
              h_content_before = optional_text (get_key d (u ''old_memory'')),
              h_content_after = optional_text (get_key d (u ''new_memory'')),
              h_author = None\<rparr>
     | _ \<Rightarrow> Inl AttributeError)"

definition mem0_history :: "'w mem0_env \<Rightarrow> pystr \<Rightarrow> pystr \<Rightarrow> ('w mem0, history_entry list) act" where
  "mem0_history E p memory_id =
     seq (from_result (refuse_partition mem0_validate_partition p)) (\<lambda>_.
     seq (mem0_get E p memory_id) (\<lambda>existing.
     if existing = None then raise (MemoryAPIError 404 (Raw (u ''Not found'')))
     else
       seq (client_request E (u ''GET'') (memory_path memory_id @ u ''/history'') [] None) (\<lambda>result.
       if \<not> truthy result then ret []
       else from_result (res_bind (iterate result) (traverse (read_history E))))))"

text \<open>The earliest and the latest of some timestamps; those that do not parse are skipped.\<close>

definition dated :: "'w mem0_env \<Rightarrow> pystr option list \<Rightarrow> (int \<times> pystr) list" where
  "dated E values =
     List.map_filter (\<lambda>v. map_option (\<lambda>t. (t, or_empty v)) (instant_of E (or_empty v))) values"

definition earliest_and_latest :: "'w mem0_env \<Rightarrow> pystr option list \<Rightarrow> pystr option \<times> pystr option" where
  "earliest_and_latest E values =
     (let ds = sort (dated E values)
      in if ds = [] then (None, None) else (Some (snd (hd ds)), Some (snd (last ds))))"

definition entity_keys :: "memory \<Rightarrow> (pystr \<times> pystr) list" where
  "entity_keys m =
     List.map_filter (\<lambda>(entity_type, k).
       let v = get_key (m_scope m) k in if truthy v then Some (entity_type, py_str v) else None)
       [(u ''agent'', u ''agent_id''), (u ''run'', u ''run_id'')]"

definition add_to_group ::
  "memory \<Rightarrow> pystr \<times> pystr \<Rightarrow> (pystr \<times> pystr, memory list) dict \<Rightarrow> (pystr \<times> pystr, memory list) dict" where
  "add_to_group m k groups = dict_set k (or_empty (map_of groups k) @ [m]) groups"

definition entity_groups :: "memory list \<Rightarrow> (pystr \<times> pystr, memory list) dict" where
  "entity_groups memories = fold (\<lambda>m. fold (add_to_group m) (entity_keys m)) memories []"

definition text_or_null :: "pystr option \<Rightarrow> json" where
  "text_or_null v = (case v of None \<Rightarrow> JNull | Some s \<Rightarrow> JStr s)"

definition entity_row :: "'w mem0_env \<Rightarrow> pystr \<times> pystr \<Rightarrow> memory list \<Rightarrow> (pystr, json) dict" where
  "entity_row E k members =
     [(u ''id'', JStr (snd k)), (u ''type'', JStr (fst k)),
      (u ''total_memories'', JInt (int (length members))),
      (u ''created_at'', text_or_null (fst (earliest_and_latest E (map (Some \<circ> m_created_at) members)))),
      (u ''updated_at'', text_or_null (snd (earliest_and_latest E (map (\<lambda>m.
         if or_empty (m_updated_at m) \<noteq> [] then m_updated_at m else Some (m_created_at m)) members))))]"

definition entity_rows :: "'w mem0_env \<Rightarrow> memory list \<Rightarrow> (pystr, json) dict list" where
  "entity_rows E memories =
     (let groups = entity_groups memories
      in map (\<lambda>k. entity_row E k (or_empty (map_of groups k))) (sort (dict_keys groups)))"

definition mem0_entities ::
  "'w mem0_env \<Rightarrow> pystr \<Rightarrow> scope option \<Rightarrow> int \<Rightarrow> ('w mem0, entities_result) act" where
  "mem0_entities E p sc limit =
     seq (from_result (refuse_partition mem0_validate_partition p)) (\<lambda>_.
     seq (mem0_list_memories E p sc LIST_CEILING None) (\<lambda>listed.
     ret \<lparr>er_entities = py_slice (entity_rows E (l_memories listed)) 0 limit, er_relationships = [],
          er_incomplete = l_incomplete listed\<rparr>))"

definition mem0_backend :: "'w mem0_env \<Rightarrow> 'w mem0 backend" where
  "mem0_backend E =
     \<lparr>b_retrieval = Some (u ''semantic''),
      b_extracts_facts = True,
      b_capabilities = [u ''update'', u ''list'', u ''history'', u ''entities''],
      b_scope_keys = mem0_scope_keys,
      b_validate_partition = mem0_validate_partition,
      b_add = mem0_add E,
      b_search = mem0_search E,
      b_delete = mem0_delete E,
      b_delete_all = mem0_delete_all E,
      b_get = mem0_get E,
      b_update = mem0_update E,
      b_list_memories = mem0_list_memories E,
      b_history = mem0_history E,
      b_entities = mem0_entities E,
      b_health = mem0_health E,
      b_close = client_close E\<rparr>"

end
