(* ===== verification/Mem0_Wire.thy ===== *)
theory Mem0_Wire
  imports Mem0 Isolation
begin

text \<open>
  What the mem0 adapter sends, whatever the server answers. \<open>recorded\<close> is the environment with a
  record of the exchanges: every request policy causes names the key's own space, or fetches a memory
  by id, and a change by id follows at once on a fetch whose reply named the space. Then what the
  adapter reads back of what it wrote: the metadata and the system fields of an add, and a patch
  written as nulls.
\<close>

section \<open>Exchanges\<close>

type_synonym exchange = "http_request \<times> http_reply"

definition recorded :: "'w mem0_env \<Rightarrow> ('w \<times> exchange list) mem0_env" where
  "recorded E =
     \<lparr>http_send = (\<lambda>req (w, sent). case http_send E req w of (reply, w') \<Rightarrow> (reply, (w', sent @ [(req, reply)]))),
      http_close = (\<lambda>(w, sent). (http_close E w, sent)),
      monotonic = monotonic E, str_upper = str_upper E, str_lower = str_lower E,
      float_repr = float_repr E, float_value = float_value E, instant_of = instant_of E\<rparr>"

abbreviation sent_by :: "('w \<times> exchange list) mem0 \<Rightarrow> exchange list" where
  "sent_by s \<equiv> snd (m0_server s)"

text \<open>The reply held a memory of the space.\<close>

definition reply_owner :: "http_reply \<Rightarrow> json option" where
  "reply_owner reply = (case client_result reply of Inr (JObj d) \<Rightarrow> Some (get_key d (u ''user_id'')) | _ \<Rightarrow> None)"

definition fetched :: "pystr \<Rightarrow> pystr \<Rightarrow> exchange option \<Rightarrow> bool" where
  "fetched p path prev \<longleftrightarrow>
     (case prev of
        None \<Rightarrow> False
      | Some (req, reply) \<Rightarrow> hq_method req = u ''GET'' \<and> hq_path req = path \<and> reply_owner reply = Some (JStr p))"

definition names_space :: "pystr \<Rightarrow> (pystr, json) dict \<Rightarrow> bool" where
  "names_space p d \<longleftrightarrow> map_of d (u ''user_id'') = Some (JStr p)"

text \<open>Filters that select what they say: each the text of a value that is no wildcard.\<close>

definition exact_filters :: "(pystr, json) dict \<Rightarrow> bool" where
  "exact_filters d \<longleftrightarrow>
     (\<forall>(k, v) \<in> set d. k \<noteq> u ''top_k'' \<longrightarrow> (\<exists>x. v = JStr (scope_text x) \<and> \<not> is_wildcard x))"

definition request_ok :: "pystr \<Rightarrow> exchange option \<Rightarrow> http_request \<Rightarrow> bool" where
  "request_ok p prev req \<longleftrightarrow>
     (hq_method req = u ''POST'' \<and> hq_path req = u ''/memories'' \<and> hq_params req = []
        \<and> (\<exists>body. hq_json req = Some body \<and> names_space p body))
   \<or> (hq_method req = u ''POST'' \<and> hq_path req = u ''/search'' \<and> hq_params req = []
        \<and> (\<exists>body d. hq_json req = Some body \<and> map_of body (u ''filters'') = Some (JObj d)
             \<and> names_space p d \<and> exact_filters d))
   \<or> (hq_method req = u ''GET'' \<and> hq_path req = u ''/memories'' \<and> hq_json req = None
        \<and> names_space p (hq_params req) \<and> exact_filters (hq_params req))
   \<or> (hq_method req = u ''DELETE'' \<and> hq_path req = u ''/memories'' \<and> hq_json req = None
        \<and> names_space p (hq_params req) \<and> exact_filters (hq_params req)
        \<and> (\<exists>k \<in> {u ''agent_id'', u ''run_id''}. k \<in> fst ` set (hq_params req)))
   \<or> (hq_method req = u ''GET'' \<and> hq_params req = [] \<and> hq_json req = None
        \<and> (\<exists>i. hq_path req = memory_path i))
   \<or> (hq_method req \<in> {u ''PUT'', u ''DELETE''} \<and> hq_params req = []
        \<and> (\<exists>i. hq_path req = memory_path i) \<and> fetched p (hq_path req) prev)"

fun exchanges_ok :: "pystr \<Rightarrow> exchange option \<Rightarrow> exchange list \<Rightarrow> bool" where
  "exchanges_ok p prev [] = True"
| "exchanges_ok p prev (x # xs) = (request_ok p prev (fst x) \<and> exchanges_ok p (Some x) xs)"

lemma exchanges_ok_snoc:
  "exchanges_ok p prev (xs @ [x]) =
     (exchanges_ok p prev xs \<and> request_ok p (if xs = [] then prev else Some (last xs)) (fst x))"
  by (induction xs arbitrary: prev) auto

definition wire_ok :: "pystr \<Rightarrow> exchange list \<Rightarrow> ('w \<times> exchange list) mem0 \<Rightarrow> bool" where
  "wire_ok p old s \<longleftrightarrow> (\<exists>new. sent_by s = old @ new \<and> exchanges_ok p None new)"

text \<open>The last exchange of this run, if any.\<close>

definition last_exchange :: "exchange list \<Rightarrow> ('w \<times> exchange list) mem0 \<Rightarrow> exchange option" where
  "last_exchange old s = (if length (sent_by s) \<le> length old then None else Some (last (sent_by s)))"

lemma wp_client_request:
  assumes "wire_ok p old s"
    and "request_ok p (last_exchange old s) \<lparr>hq_method = m, hq_path = path, hq_params = params, hq_json = body\<rparr>"
  shows "wp (client_request (recorded E) m path params body)
    (\<lambda>v s'. wire_ok p old s' \<and> (\<exists>req reply. last_exchange old s' = Some (req, reply) \<and> hq_method req = m
        \<and> hq_path req = path \<and> client_result reply = Inr v))
    (\<lambda>e s'. wire_ok p old s') s"
proof -
  let ?req = "\<lparr>hq_method = m, hq_path = path, hq_params = params, hq_json = body\<rparr>"
  obtain new where new: "sent_by s = old @ new" "exchanges_ok p None new"
    using assms(1) by (auto simp: wire_ok_def)
  obtain w reply w' where w: "m0_server s = (w, old @ new)" "http_send E ?req w = (reply, w')"
    using new(1) by (cases "m0_server s") (auto, metis prod.collapse)
  let ?s = "s\<lparr>m0_server := (w', old @ new @ [(?req, reply)])\<rparr>"
  have run: "client_request (recorded E) m path params body s = (client_result reply, ?s)"
    by (simp add: client_request_def recorded_def w)
  have "last_exchange old s = (if new = [] then None else Some (last new))"
    using new(1) by (simp add: last_exchange_def)
  then have "exchanges_ok p None (new @ [(?req, reply)])"
    using new(2) assms(2) by (simp add: exchanges_ok_snoc split: if_splits)
  then have "wire_ok p old ?s" by (auto simp: wire_ok_def)
  moreover have "last_exchange old ?s = Some (?req, reply)" by (simp add: last_exchange_def)
  ultimately show ?thesis by (auto simp: wp_def run split: sum.split)
qed

section \<open>What each operation sends\<close>

lemma exact_filters_set:
  "exact_filters d \<Longrightarrow> \<not> is_wildcard x \<Longrightarrow> exact_filters (dict_set k (JStr (scope_text x)) d)"
  by (auto simp: exact_filters_def dest!: subsetD [OF set_dict_set])

lemma exact_filters_top_k: "exact_filters d \<Longrightarrow> exact_filters (dict_set (u ''top_k'') v d)"
  by (auto simp: exact_filters_def dest!: subsetD [OF set_dict_set])

lemma add_filters_ok:
  "add_filters d items = Inr d' \<Longrightarrow> u ''user_id'' \<notin> fst ` set items \<Longrightarrow>
   (names_space p d \<longrightarrow> names_space p d') \<and> (exact_filters d \<longrightarrow> exact_filters d')
   \<and> fst ` set d \<union> fst ` set items \<subseteq> fst ` set d'"
proof (induction d items rule: add_filters.induct)
  case (2 d k v items)
  then have v: "\<not> is_wildcard v" and rest: "add_filters (dict_set k (JStr (scope_text v)) d) items = Inr d'"
    by (auto simp: concrete_def split: if_splits)
  from 2 rest v have IH: "names_space p (dict_set k (JStr (scope_text v)) d) \<longrightarrow> names_space p d'"
    "exact_filters (dict_set k (JStr (scope_text v)) d) \<longrightarrow> exact_filters d'"
    "fst ` set (dict_set k (JStr (scope_text v)) d) \<union> fst ` set items \<subseteq> fst ` set d'"
    by (auto simp: concrete_def)
  from IH(1,2) exact_filters_set [of d v k] v 2(3) have "names_space p d \<longrightarrow> names_space p d'"
    "exact_filters d \<longrightarrow> exact_filters d'"
    by (auto simp: names_space_def)
  moreover have "fst ` set (dict_set k (JStr (scope_text v)) d) = insert k (fst ` set d)"
    by (simp add: dom_update)
  ultimately show ?case using IH(3) by auto
qed simp

lemma with_scope_ok:
  assumes "with_scope d sc = Inr d'"
  shows "(names_space p d \<longrightarrow> names_space p d') \<and> (exact_filters d \<longrightarrow> exact_filters d')
    \<and> fst ` set (or_empty sc) - {u ''user_id''} \<subseteq> fst ` set d'"
proof (cases "or_empty sc = []")
  case False
  let ?items = "filter (\<lambda>(k, v). k \<noteq> u ''user_id'') (or_empty sc)"
  have "add_filters d ?items = Inr d'"
    using assms False by (auto simp: with_scope_def scope_items_def res_bind_eq_Inr)
  moreover have "u ''user_id'' \<notin> fst ` set ?items" by auto
  moreover have "fst ` set ?items = fst ` set (or_empty sc) - {u ''user_id''}" by force
  ultimately show ?thesis using add_filters_ok [of d ?items d' p] by simp
qed (use assms in \<open>simp add: with_scope_def\<close>)

text \<open>A partition the adapter accepts is no wildcard itself.\<close>

lemma usable_partition:
  assumes "refuse_partition mem0_validate_partition p = Inr w"
  shows "names_space p [(u ''user_id'', JStr p)]" and "exact_filters [(u ''user_id'', JStr p)]"
proof -
  have "p \<noteq> []" "p \<noteq> u ''*''" "strip p = p"
    using assms by (auto simp: refuse_partition_def mem0_validate_partition_def split: if_splits)
  then have "\<not> is_wildcard (JStr p)" by (simp add: is_wildcard_def)
  then show "exact_filters [(u ''user_id'', JStr p)]"
    by (auto simp: exact_filters_def intro!: exI [of _ "JStr p"])
qed (simp add: names_space_def)

lemma wp_then:
  assumes "wp m Q E s" and "\<And>x t. Q x t \<Longrightarrow> wp (f x) Q' E' t" and "\<And>e t. E e t \<Longrightarrow> E' e t"
  shows "wp (seq m f) Q' E' s"
  using assms by (auto simp: wp_seq intro: wp_mono)

lemma wp_check: "(\<And>x. r = Inr x \<Longrightarrow> wp (f x) Q E s) \<Longrightarrow> (\<And>e. E e s) \<Longrightarrow> wp (seq (from_result r) f) Q E s"
  by (cases r) (simp_all add: wp_simps)

abbreviation wire_only :: "pystr \<Rightarrow> exchange list \<Rightarrow> (('w \<times> exchange list) mem0, 'a) act
    \<Rightarrow> ('w \<times> exchange list) mem0 \<Rightarrow> bool" where
  "wire_only p old m s \<equiv> wp m (\<lambda>_. wire_ok p old) (\<lambda>_. wire_ok p old) s"

lemma wire_ok_log [simp]: "wire_ok p old (s\<lparr>m0_log := l\<rparr>) = wire_ok p old s"
  by (simp add: wire_ok_def)

lemma wp_warn [wp_simps]: "wp (warn m) Q E s = Q () (s\<lparr>m0_log := m0_log s @ [m]\<rparr>)"
  by (simp add: warn_def wp_simps)

lemma wire_warn: "wire_ok p old s \<Longrightarrow> wire_only p old (warn m) s"
  by (simp add: wp_simps)

lemma wp_mem0_get:
  assumes "wire_ok p old s"
  shows "wp (mem0_get (recorded E) p i)
    (\<lambda>r s'. wire_ok p old s' \<and> (r \<noteq> None \<longrightarrow> fetched p (memory_path i) (last_exchange old s')))
    (\<lambda>_. wire_ok p old) s"
  unfolding mem0_get_def
proof (rule wp_check, rule wp_then)
  show "wp (client_request (recorded E) (u ''GET'') (memory_path i) [] None)
    (\<lambda>v s'. wire_ok p old s' \<and> (\<exists>req reply. last_exchange old s' = Some (req, reply)
        \<and> hq_method req = u ''GET'' \<and> hq_path req = memory_path i \<and> client_result reply = Inr v))
    (\<lambda>e s'. wire_ok p old s') s"
    by (rule wp_client_request [OF assms]) (auto simp: request_ok_def)
next
  fix result t
  assume t: "wire_ok p old t \<and> (\<exists>req reply. last_exchange old t = Some (req, reply)
        \<and> hq_method req = u ''GET'' \<and> hq_path req = memory_path i \<and> client_result reply = Inr result)"
  then show "wp (if result = JNull then ret None
       else seq (from_result (as_object result)) (\<lambda>d.
         if get_key d (u ''user_id'') \<noteq> JStr p then ret None
         else seq (from_result (parse_memory (recorded E) result JNull)) (\<lambda>m. ret (Some m))))
      (\<lambda>r s'. wire_ok p old s' \<and> (r \<noteq> None \<longrightarrow> fetched p (memory_path i) (last_exchange old s')))
      (\<lambda>_. wire_ok p old) t"
    by (auto simp: wp_simps as_object_def fetched_def reply_owner_def split: json.split sum.split)
qed (simp_all add: assms)

text \<open>One request that the rules allow from any state.\<close>

lemma wire_request:
  assumes "wire_ok p old s" and "\<And>prev. request_ok p prev
      \<lparr>hq_method = m, hq_path = path, hq_params = params, hq_json = body\<rparr>"
    and "\<And>x t. wire_ok p old t \<Longrightarrow> wire_only p old (f x) t"
  shows "wire_only p old (seq (client_request (recorded E) m path params body) f) s"
  by (rule wp_then [OF wp_client_request [OF assms(1,2)]]) (auto intro: assms(3))

lemma wire_for_each:
  assumes "\<And>x t. wire_ok p old t \<Longrightarrow> wire_only p old (f x) t"
  shows "wire_ok p old s \<Longrightarrow> wire_only p old (for_each f xs) s"
proof (induction xs arbitrary: s)
  case (Cons x xs)
  show ?case
    unfolding for_each.simps
    by (rule wp_then [OF assms [OF Cons.prems]], rule wp_then [OF Cons.IH])
      (simp_all add: wp_simps)
qed (simp add: wp_simps)

lemma wire_add:
  assumes w: "wire_ok p old s"
  shows "wire_only p old (mem0_add (recorded E) p content sc md infer sy) s"
  unfolding mem0_add_def
proof (rule wp_check, rule wp_check)
  fix payload
  assume "add_payload p content sc md infer sy = Inr payload"
  then obtain d where d: "with_scope
      [(u ''messages'', JList [JObj [(u ''role'', JStr (u ''user'')), (u ''content'', JStr content)]]),
       (u ''user_id'', JStr p), (u ''infer'', JBool infer)] sc = Inr d"
    and payload: "payload = (if stored_metadata (or_empty md) sy \<noteq> []
        then dict_set (u ''metadata'') (JObj (stored_metadata (or_empty md) sy)) d else d)"
    unfolding add_payload_def by (auto simp: res_bind_eq_Inr Let_def)
  have "names_space p d" using with_scope_ok [OF d] by (simp add: names_space_def)
  then have body: "names_space p payload" by (simp add: payload names_space_def)
  show "wire_only p old (seq (client_request (recorded E) (u ''POST'') (u ''/memories'') [] (Some payload)) (\<lambda>result.
     case result of
       JObj d \<Rightarrow>
         (let results = get_key d (u ''results'')
          in seq (from_result (if truthy results then iterate results else Inr [])) (\<lambda>rs.
             seq (for_each (read_added (recorded E)) rs) (\<lambda>added.
             ret (Many (List.map_filter (\<lambda>x. x) added)))))
     | _ \<Rightarrow> seq (warn Unexpected_shape) (\<lambda>_. ret (Many [])))) s"
  proof (rule wire_request [OF w])
    show "request_ok p prev \<lparr>hq_method = u ''POST'', hq_path = u ''/memories'', hq_params = [],
        hq_json = Some payload\<rparr>" for prev
      using body by (simp add: request_ok_def)
    fix result and t :: "('a \<times> exchange list) mem0"
    assume t: "wire_ok p old t"
    have read: "wire_only p old (read_added (recorded E) x) t'" if "wire_ok p old t'"
      for x and t' :: "('a \<times> exchange list) mem0"
      using that by (auto simp: read_added_def wp_simps Let_def warn_def wire_ok_def split: sum.split option.split)
    have "wire_only p old (seq (for_each (read_added (recorded E)) rs)
        (\<lambda>added. ret (Many (List.map_filter (\<lambda>x. x) added)))) t" for rs
      by (rule wp_then [OF wire_for_each [OF read t]]) (simp_all add: wp_simps)
    moreover have "wire_only p old (seq (warn Unexpected_shape) (\<lambda>_. ret (Many []))) t"
      by (rule wp_then [OF wire_warn [OF t]]) (simp_all add: wp_simps)
    ultimately show "wire_only p old (case result of
       JObj d \<Rightarrow>
         (let results = get_key d (u ''results'')
          in seq (from_result (if truthy results then iterate results else Inr [])) (\<lambda>rs.
             seq (for_each (read_added (recorded E)) rs) (\<lambda>added.
             ret (Many (List.map_filter (\<lambda>x. x) added)))))
     | _ \<Rightarrow> seq (warn Unexpected_shape) (\<lambda>_. ret (Many []))) t"
      using t by (auto simp: Let_def intro!: wp_check split: json.split)
  qed
qed (simp_all add: w)

lemma wire_search:
  assumes w: "wire_ok p old s"
  shows "wire_only p old (mem0_search (recorded E) p query sc limit th) s"
  unfolding mem0_search_def
proof (rule wp_check, rule wp_check, rule wire_request [OF w])
  fix x d prev
  assume "refuse_partition mem0_validate_partition p = Inr x" and d: "build_search_filters p sc = Inr d"
  from usable_partition [OF this(1)] with_scope_ok [OF d [unfolded build_search_filters_def]]
  show "request_ok p prev \<lparr>hq_method = u ''POST'', hq_path = u ''/search'', hq_params = [],
      hq_json = Some [(u ''query'', JStr query), (u ''filters'', JObj d), (u ''top_k'', JInt limit),
        (u ''threshold'', JFloat (float_repr (recorded E) th))]\<rparr>"
    by (simp add: request_ok_def)
qed (auto simp: w wp_simps split: sum.split)

lemma wire_delete_all:
  assumes w: "wire_ok p old s" and "d \<noteq> []"
  shows "wire_only p old (mem0_delete_all (recorded E) p d) s"
  unfolding mem0_delete_all_def
proof (rule wp_check)
  fix x assume p: "refuse_partition mem0_validate_partition p = Inr x"
  show "wire_only p old (if list_ex (\<lambda>(k, v). k \<notin> set mem0_scope_keys \<or> \<not> deletable_value v) d
     then raise (MemoryAPIError 400 (Mem0_msg (Delete_all_scope mem0_scope_keys)))
     else
       seq (from_result (build_identifier_params p (Some d))) (\<lambda>params.
       seq (client_request (recorded E) (u ''DELETE'') (u ''/memories'') params None) (\<lambda>_.
       ret None))) s"
  proof (cases "list_ex (\<lambda>(k, v). k \<notin> set mem0_scope_keys \<or> \<not> deletable_value v) d")
    case False
    obtain k v rest where d: "d = (k, v) # rest" using assms(2) by (cases d) auto
    with False have k: "k = u ''agent_id'' \<or> k = u ''run_id''" by (auto simp: mem0_scope_keys_def)
    show ?thesis
      unfolding if_not_P [OF False]
    proof (rule wp_check, rule wire_request [OF w])
      fix params prev
      assume params: "build_identifier_params p (Some d) = Inr params"
      from with_scope_ok [OF this [unfolded build_identifier_params_def]] usable_partition [OF p]
      have "names_space p params" "exact_filters params" "fst ` set d - {u ''user_id''} \<subseteq> fst ` set params"
        by auto
      moreover from this(3) d k have "\<exists>k \<in> {u ''agent_id'', u ''run_id''}. k \<in> fst ` set params" by auto
      ultimately show "request_ok p prev \<lparr>hq_method = u ''DELETE'', hq_path = u ''/memories'',
          hq_params = params, hq_json = None\<rparr>"
        unfolding request_ok_def by simp
    qed (simp_all add: wp_simps w)
  qed (simp add: wp_simps w)
qed (simp add: w)

lemma wire_list:
  assumes w: "wire_ok p old s"
  shows "wire_only p old (mem0_list_memories (recorded E) p sc l cu) s"
  unfolding mem0_list_memories_def
proof (rule wp_check, rule wp_check, rule wire_request [OF w])
  fix x d prev
  assume "refuse_partition mem0_validate_partition p = Inr x" and d: "build_identifier_params p sc = Inr d"
  from usable_partition [OF this(1)] with_scope_ok [OF d [unfolded build_identifier_params_def]]
  have "names_space p d" "exact_filters d" by auto
  then show "request_ok p prev \<lparr>hq_method = u ''GET'', hq_path = u ''/memories'',
      hq_params = dict_set (u ''top_k'') (JInt LIST_CEILING) d, hq_json = None\<rparr>"
    using exact_filters_top_k [of d "JInt LIST_CEILING"] by (simp add: request_ok_def names_space_def)
qed (auto simp: w wp_simps Let_def split: sum.split)

text \<open>A change by id, right after the fetch that found the memory in the space.\<close>

lemma wire_change:
  assumes "wire_ok p old s" and "fetched p (memory_path i) (last_exchange old s)"
    and "m \<in> {u ''PUT'', u ''DELETE''}" and "\<And>x t. wire_ok p old t \<Longrightarrow> wire_only p old (f x) t"
  shows "wire_only p old (seq (client_request (recorded E) m (memory_path i) [] body) f) s"
proof (rule wp_then [OF wp_client_request [OF assms(1)]])
  show "request_ok p (last_exchange old s)
      \<lparr>hq_method = m, hq_path = memory_path i, hq_params = [], hq_json = body\<rparr>"
    using assms(2,3) by (auto simp: request_ok_def)
qed (auto intro: assms(4))

lemma wire_delete:
  assumes w: "wire_ok p old s"
  shows "wire_only p old (mem0_delete (recorded E) p i) s"
  unfolding mem0_delete_def
  by (rule wp_check, rule wp_then [OF wp_mem0_get [OF w]])
    (auto simp: wp_if wp_raise wp_ret w intro!: wire_change)

lemma wire_get: "wire_ok p old s \<Longrightarrow> wire_only p old (mem0_get (recorded E) p i) s"
  by (rule wp_mono [OF wp_mem0_get]) auto

lemma wire_update:
  assumes w: "wire_ok p old s"
  shows "wire_only p old (mem0_update (recorded E) p i co pt sy) s"
  unfolding mem0_update_def
proof (rule wp_check, rule wp_check, rule wp_then [OF wp_mem0_get [OF w]])
  fix existing :: "memory option" and t :: "('a \<times> exchange list) mem0"
  assume t: "wire_ok p old t \<and> (existing \<noteq> None \<longrightarrow> fetched p (memory_path i) (last_exchange old t))"
  have readback: "wire_only p old (seq (mem0_get (recorded E) p i) (\<lambda>updated.
      case updated of
        None \<Rightarrow> raise (MemoryAPIError 503 (Raw (u ''Update succeeded but read-back failed'')))
      | Some m' \<Rightarrow> ret m')) t'" if "wire_ok p old t'" for t' :: "('a \<times> exchange list) mem0"
    by (rule wp_then [OF wire_get [OF that]]) (auto simp: wp_simps split: option.split)
  show "wire_only p old (case existing of
       None \<Rightarrow> raise (MemoryAPIError 404 (Raw (u ''Memory not found'')))
     | Some m \<Rightarrow>
         let body = put_body co (put_metadata (m_metadata m) pt sy)
         in if body = [] then ret m
            else
              seq (client_request (recorded E) (u ''PUT'') (memory_path i) [] (Some body)) (\<lambda>_.
              seq (mem0_get (recorded E) p i) (\<lambda>updated.
              case updated of
                None \<Rightarrow> raise (MemoryAPIError 503 (Raw (u ''Update succeeded but read-back failed'')))
              | Some m' \<Rightarrow> ret m'))) t"
    using t by (cases existing) (auto simp: wp_if wp_raise wp_ret Let_def intro!: wire_change readback)
qed (simp_all add: w)

lemma wire_history:
  assumes w: "wire_ok p old s"
  shows "wire_only p old (mem0_history (recorded E) p i) s"
  unfolding mem0_history_def
proof (rule wp_check, rule wp_then [OF wire_get [OF w]])
  fix existing and t :: "('a \<times> exchange list) mem0"
  assume t: "wire_ok p old t"
  have "memory_path i @ u ''/history'' = memory_path (i @ u ''/history'')" by (simp add: memory_path_def)
  then have "wire_only p old (seq (client_request (recorded E) (u ''GET'') (memory_path i @ u ''/history'') [] None) (\<lambda>result.
      if \<not> truthy result then ret [] else from_result (res_bind (iterate result) (traverse (read_history (recorded E)))))) t"
    by (intro wire_request [OF t]) (auto simp: request_ok_def wp_simps split: sum.split)
  with t show "wire_only p old (if existing = None then raise (MemoryAPIError 404 (Raw (u ''Not found'')))
     else
       seq (client_request (recorded E) (u ''GET'') (memory_path i @ u ''/history'') [] None) (\<lambda>result.
       if \<not> truthy result then ret [] else from_result (res_bind (iterate result) (traverse (read_history (recorded E)))))) t"
    by (simp add: wp_simps)
qed (simp_all add: w)

lemma wire_entities: "wire_ok p old s \<Longrightarrow> wire_only p old (mem0_entities (recorded E) p sc l) s"
  unfolding mem0_entities_def
  by (rule wp_check, rule wp_then [OF wire_list]) (simp_all add: wp_simps)

text \<open>The adapter confines the calls of a space to the space, on the wire.\<close>

interpretation wire: confined_backend "mem0_backend (recorded E)" p "wire_ok p old" for E p old
  by unfold_locales
    (simp_all add: mem0_backend_def keeps_wp wire_add wire_search wire_delete wire_delete_all wire_get
      wire_update wire_list wire_history wire_entities)

text \<open>
  Property C38: with mem0 behind policy, whatever the server answers, every HTTP
  request a caller causes names the caller's own space (with filters that are no wildcard, and a bulk
  delete with an agent or a run), or fetches one memory by id; and a \<open>PUT\<close> or \<open>DELETE\<close> by id comes
  right after a fetch of that memory whose reply gave the caller's space as its owner.
\<close>

theorem mem0_stays_in_space:
  assumes "pol_backend P = mem0_backend (recorded E)" and "perform P (Some key) r s = (x, t)"
  shows "\<exists>new. sent_by (store t) = sent_by (store s) @ new
    \<and> exchanges_ok (g_space (k_grant key)) None new"
proof -
  have "keeps (on_store (wire_ok (g_space (k_grant key)) (sent_by (store s)))) (perform P (Some key) r)"
    unfolding perform_audited
    by (intro keeps_audited keeps_body) (simp add: assms(1) wire.confined.partition_calls_axioms)
  moreover have "on_store (wire_ok (g_space (k_grant key)) (sent_by (store s))) s"
    by (simp add: on_store_def wire_ok_def)
  ultimately have "on_store (wire_ok (g_space (k_grant key)) (sent_by (store s))) t"
    using assms(2) by (rule keepsD)
  then show ?thesis by (simp add: on_store_def wire_ok_def)
qed

text \<open>A server that answers every request with one memory of the space \<open>red\<close>.\<close>

definition demo_mem0 :: "unit mem0_env" where
  "demo_mem0 =
     \<lparr>http_send = (\<lambda>req w. (Responded \<lparr>hp_status = 200, hp_text = [], hp_body = Json_body (JObj
        [(u ''id'', JStr [97]), (u ''memory'', JStr (u ''hi'')), (u ''user_id'', JStr (u ''red''))])\<rparr>, w)),
      http_close = (\<lambda>w. w), monotonic = (\<lambda>n. 0), str_upper = (\<lambda>s. s), str_lower = (\<lambda>s. s),
      float_repr = (\<lambda>x. Finite (u ''0.0'')), float_value = (\<lambda>f. 0), instant_of = (\<lambda>s. None)\<rparr>"

definition demo_mem0_policy :: "(unit \<times> exchange list) mem0 policy" where
  "demo_mem0_policy =
     \<lparr>pol_backend = mem0_backend (recorded demo_mem0),
      pol_capabilities = [u ''update'', u ''list'', u ''history'', u ''entities''],
      pol_scope_keys = [u ''agent_id'', u ''run_id'']\<rparr>"

theorem mem0_stays_in_space_witness:
  "exchanges_ok (u ''red'') None
     (sent_by (store (snd (perform demo_mem0_policy (Some ann) (Delete [97]) (start (mem0_init ((), [])))))))"
  using mem0_stays_in_space [of demo_mem0_policy demo_mem0 ann "Delete [97]" "start (mem0_init ((), []))"
      "fst (perform demo_mem0_policy (Some ann) (Delete [97]) (start (mem0_init ((), []))))"
      "snd (perform demo_mem0_policy (Some ann) (Delete [97]) (start (mem0_init ((), []))))"]
  by (auto simp: start_def ann_def demo_mem0_policy_def mem0_init_def)

section \<open>What is written is read back\<close>

lemma system_json_fields:
  "map_of (system_json sy) (u ''space'') = sys_space sy"
  "text_field (system_json sy) (u ''author'') = sys_author sy"
  "text_field (system_json sy) (u ''created_by'') = sys_created_by sy"
  by (auto simp: system_json_def text_field_def split: option.split)

lemma system_json_Nil: "system_json sy = [] \<longleftrightarrow> sy = no_system"
  by (cases sy) (auto simp: system_json_def no_system_def split: option.splits)

lemma reserved_system_key: "prefix RESERVED_METADATA_PREFIX SYSTEM_METADATA_KEY"
  by (simp add: SYSTEM_METADATA_KEY_def)

lemma clean_not_system: "clean_keys (dict_keys md) \<Longrightarrow> SYSTEM_METADATA_KEY \<notin> fst ` set md"
  using reserved_system_key by (auto simp: clean_keys_def dict_keys_def is_reserved_metadata_key_def)

lemma strip_clean: "clean_keys (dict_keys md) \<Longrightarrow> strip_reserved_metadata md = md"
  by (auto simp: strip_reserved_metadata_def clean_keys_def dict_keys_def is_reserved_metadata_key_def
      filter_id_conv)

lemma strip_system: "strip_reserved_metadata (dict_set SYSTEM_METADATA_KEY v md) = strip_reserved_metadata md"
proof (induction md)
  case (Cons q md)
  then show ?case
    using reserved_system_key by (cases q) (auto simp: strip_reserved_metadata_def)
qed (simp add: strip_reserved_metadata_def reserved_system_key)

text \<open>
  Mem0 has no place for the system fields, so the adapter keeps them
  in the metadata under a reserved key. What \<open>add\<close> stores this way it takes apart again: the
  system fields as they were, and the caller's metadata, in its order, without them.
\<close>

theorem mem0_metadata_roundtrip:
  assumes "clean_keys (dict_keys md)" and "list_all (\<lambda>(k, v). v \<noteq> JNull) md"
  shows "split_system (stored_metadata md (Some sy)) = (sy, md)"
proof -
  have visible: "filter (\<lambda>(k, v). v \<noteq> JNull) (strip_reserved_metadata md) = md"
    using assms(2) by (simp add: strip_clean [OF assms(1)] filter_id_conv list_all_iff)
  show ?thesis
  proof (cases "system_json sy = []")
    case True
    have "map_of md SYSTEM_METADATA_KEY = None"
      using clean_not_system [OF assms(1)] by (simp add: map_of_eq_None_iff)
    with True visible show ?thesis
      by (simp add: stored_metadata_def split_system_def get_or_def system_json_Nil text_field_def
          no_system_def)
  next
    case False
    with visible show ?thesis
      by (simp add: stored_metadata_def split_system_def get_or_def Let_def strip_system
          system_json_fields)
  qed
qed

theorem mem0_metadata_roundtrip_witness:
  "split_system (stored_metadata [(u ''colour'', JStr (u ''red''))]
     (Some (system_for (u ''red'') (u ''ann'') (Some (u ''ann''))))) =
   (system_for (u ''red'') (u ''ann'') (Some (u ''ann'')), [(u ''colour'', JStr (u ''red''))])"
  by (rule mem0_metadata_roundtrip)
    (simp_all add: dict_keys_def is_reserved_metadata_key_def RESERVED_METADATA_KEYS_def
      RESERVED_METADATA_PREFIX_def u_def)

lemma map_of_nulls: "map_of (map (\<lambda>k. (k, JNull)) ks) k = (if k \<in> set ks then Some JNull else None)"
  by (induction ks) auto

lemma wf_nulls: "distinct ks \<Longrightarrow> wf_dict (map (\<lambda>k. (k, JNull)) ks)"
  by (simp add: wf_dict_def comp_def)

lemma map_of_visible:
  "wf_dict d \<Longrightarrow> map_of (snd (split_system d)) k =
     (if prefix RESERVED_METADATA_PREFIX k then None
      else case map_of d k of Some v \<Rightarrow> if v = JNull then None else Some v | None \<Rightarrow> None)"
proof (induction d)
  case (Cons q d)
  moreover obtain k' v' where q: "q = (k', v')" by (cases q)
  moreover from Cons.prems q have "map_of d k' = None" "wf_dict d"
    by (auto simp: wf_dict_def map_of_eq_None_iff)
  ultimately show ?case
    by (auto simp: split_system_def Let_def strip_reserved_metadata_def split: option.splits)
qed (simp add: split_system_def strip_reserved_metadata_def Let_def)

text \<open>The stored metadata after mem0's merge, key by key.\<close>

lemma merged_metadata:
  assumes "wf_dict (p_set x)" and "distinct (p_remove x)"
  shows "map_of (dict_update stored (put_metadata seen (Some x) (Some sy))) k =
    (if k = SYSTEM_METADATA_KEY then Some (JObj (system_json sy))
     else case if k \<in> set (p_remove x) \<and> k \<in> fst ` set seen then Some JNull else map_of (p_set x) k of
       None \<Rightarrow> map_of stored k | Some v \<Rightarrow> Some v)"
proof -
  let ?nulls = "map (\<lambda>k. (k, JNull)) (filter (\<lambda>k. k \<in> fst ` set seen) (p_remove x))"
  let ?changes = "dict_update (dict_update [] (p_set x)) ?nulls"
  have "put_metadata seen (Some x) (Some sy) = dict_set SYSTEM_METADATA_KEY (JObj (system_json sy)) ?changes"
    by (simp add: put_metadata_def Let_def)
  moreover have "map_of ?changes k = (if k \<in> set (p_remove x) \<and> k \<in> fst ` set seen then Some JNull
      else map_of (p_set x) k)"
    using assms(2) by (auto simp: map_of_dict_update wf_nulls assms(1) map_of_nulls map_add_def)
  moreover have "wf_dict ?changes" by simp
  ultimately show ?thesis by (simp add: map_of_dict_update map_add_def)
qed

text \<open>
  Property C39: mem0 merges what a \<open>PUT\<close> sends into the stored metadata and cannot
  delete a key, so the adapter writes null for a key to remove and hides nulls when it reads. With
  that merge, what a client sees after an update is exactly the patch applied to what it saw before,
  key by key, and the system fields are the new ones.
\<close>

theorem mem0_patch_by_nulls:
  assumes "wf_dict stored" and "wf_dict (p_set x)" and "distinct (p_remove x)"
    and "fst ` set (p_set x) \<inter> set (p_remove x) = {}" and "clean_keys (patch_keys x)"
    and "list_all (\<lambda>(k, v). v \<noteq> JNull) (p_set x)"
    and "merged = dict_update stored (put_metadata (snd (split_system stored)) (Some x) (Some sy))"
  shows "fst (split_system merged) = sy
    \<and> map_of (snd (split_system merged)) k = map_of (apply_patch x (snd (split_system stored))) k"
proof -
  let ?seen = "snd (split_system stored)"
  note merged = merged_metadata [OF assms(2,3), of stored ?seen sy, folded assms(7)]
  have wf: "wf_dict merged" by (simp add: assms(1,7))
  have "map_of (snd (split_system merged)) k = map_of (apply_patch x ?seen) k"
  proof (cases "prefix RESERVED_METADATA_PREFIX k")
    case True
    then have "k \<notin> set (p_remove x)" "map_of (p_set x) k = None"
      using assms(5) by (auto simp: clean_keys_def patch_keys_def dict_keys_def
          is_reserved_metadata_key_def map_of_eq_None_iff)
    with True show ?thesis by (simp add: map_of_visible wf map_of_apply_patch assms(1,2))
  next
    case False
    then have "k \<noteq> SYSTEM_METADATA_KEY" using reserved_system_key by auto
    note new = merged [of k, unfolded if_not_P [OF this]]
    have set_none: "k \<in> set (p_remove x) \<Longrightarrow> map_of (p_set x) k = None"
      using assms(4) by (auto simp: map_of_eq_None_iff)
    have set_some: "map_of (p_set x) k \<noteq> Some JNull"
      using assms(6) by (auto simp: list_all_iff dest: map_of_SomeD)
    have seen: "map_of ?seen k = (case map_of stored k of Some v \<Rightarrow> if v = JNull then None else Some v | None \<Rightarrow> None)"
      using False by (simp add: map_of_visible assms(1))
    have kept: "k \<in> fst ` set ?seen \<longleftrightarrow> map_of ?seen k \<noteq> None"
      by (simp add: map_of_eq_None_iff)
    have "map_of (snd (split_system merged)) k =
        (case map_of merged k of Some v \<Rightarrow> if v = JNull then None else Some v | None \<Rightarrow> None)"
      using False by (simp add: map_of_visible wf)
    also have "\<dots> = (if k \<in> set (p_remove x) then None
        else case map_of (p_set x) k of None \<Rightarrow> map_of ?seen k | Some v \<Rightarrow> Some v)"
      using set_none set_some unfolding new kept seen
      by (cases "k \<in> set (p_remove x)"; cases "map_of stored k"; cases "map_of (p_set x) k") simp_all
    also have "\<dots> = map_of (apply_patch x ?seen) k"
      by (simp add: map_of_apply_patch assms(2))
    finally show ?thesis .
  qed
  then show ?thesis by (simp add: split_system_def get_or_def merged Let_def system_json_fields)
qed

theorem mem0_patch_by_nulls_witness:
  "snd (split_system (dict_update [(u ''a'', JInt 1), (u ''b'', JInt 2)] (put_metadata
       (snd (split_system [(u ''a'', JInt 1), (u ''b'', JInt 2)]))
       (Some \<lparr>p_set = [(u ''b'', JInt 3)], p_remove = [u ''a'']\<rparr>)
       (Some (system_for (u ''red'') (u ''ann'') None))))) = [(u ''b'', JInt 3)]
   \<and> map_of (apply_patch \<lparr>p_set = [(u ''b'', JInt 3)], p_remove = [u ''a'']\<rparr>
       (snd (split_system [(u ''a'', JInt 1), (u ''b'', JInt 2)]))) (u ''a'') = None"
proof -
  let ?old = "[(u ''a'', JInt 1), (u ''b'', JInt 2)]"
  let ?x = "\<lparr>p_set = [(u ''b'', JInt 3)], p_remove = [u ''a'']\<rparr>"
  let ?new = "dict_update ?old (put_metadata (snd (split_system ?old)) (Some ?x)
      (Some (system_for (u ''red'') (u ''ann'') None)))"
  have new: "snd (split_system ?new) = [(u ''b'', JInt 3)]"
    by (simp add: put_metadata_def split_system_def strip_reserved_metadata_def Let_def get_or_def
        SYSTEM_METADATA_KEY_def RESERVED_METADATA_PREFIX_def u_def)
  have "map_of (snd (split_system ?new)) (u ''a'') = map_of (apply_patch ?x (snd (split_system ?old))) (u ''a'')"
    by (rule mem0_patch_by_nulls [THEN conjunct2, OF _ _ _ _ _ _ refl])
      (simp_all add: wf_dict_def patch_keys_def dict_keys_def is_reserved_metadata_key_def
        RESERVED_METADATA_KEYS_def RESERVED_METADATA_PREFIX_def u_def)
  with new show ?thesis by (simp add: u_def)
qed

end
