(* ===== verification/Auth.thy ===== *)
theory Auth
  imports Types
begin

text \<open>
  \<open>memcp/http/auth.py\<close>: the keys file, the table that finds a key by the SHA-256 of its token, and
  the ASGI gate in front of the MCP endpoint. Parameters: the hash (\<open>sha256\<close>, to the hex digest),
  the UTF-8 decoding of a header, and the problems pydantic lists for a file it refuses (which
  files it refuses is translated from the models). The lemmas: exactly which files load, whom the
  loaded table resolves a token to, and as whom the gate serves a sequence of requests.
\<close>

section \<open>The models of the keys file\<close>

text \<open>
  A TOML document is read as a JSON value (dates and times, which JSON lacks, as null). The
  models are strict and forbid extra fields: a table has exactly the declared ones.
\<close>

record key_entry =
  ke_name :: pystr
  ke_secrets :: "pystr list"
  ke_grants :: "grant list"

definition SECRET_PREFIX :: pystr where
  "SECRET_PREFIX = u ''sha256:''"

definition name_char :: "uchar \<Rightarrow> bool" where
  "name_char c \<longleftrightarrow> is_id_char c \<or> c = 46"

definition key_name_ok :: "pystr \<Rightarrow> bool" where
  "key_name_ok s \<longleftrightarrow> 1 \<le> length s \<and> length s \<le> 64 \<and> list_all name_char s"

definition hex_char :: "uchar \<Rightarrow> bool" where
  "hex_char c \<longleftrightarrow> (48 \<le> c \<and> c \<le> 57) \<or> (97 \<le> c \<and> c \<le> 102)"

definition secret_ok :: "pystr \<Rightarrow> bool" where
  "secret_ok s \<longleftrightarrow>
     prefix SECRET_PREFIX s \<and> length s = length SECRET_PREFIX + 64
     \<and> list_all hex_char (drop (length SECRET_PREFIX) s)"

fun all_some :: "'a option list \<Rightarrow> 'a list option" where
  "all_some [] = Some []"
| "all_some (None # xs) = None"
| "all_some (Some x # xs) = map_option ((#) x) (all_some xs)"

definition list_of :: "(json \<Rightarrow> 'a option) \<Rightarrow> json \<Rightarrow> 'a list option" where
  "list_of f v = (case v of JList vs \<Rightarrow> all_some (map f vs) | _ \<Rightarrow> None)"

definition fields_of :: "pystr list \<Rightarrow> json \<Rightarrow> (pystr \<Rightarrow> json) option" where
  "fields_of names v =
     (case v of
        JObj d \<Rightarrow> if set (dict_keys d) = set names then Some (\<lambda>k. the (map_of d k)) else None
      | _ \<Rightarrow> None)"

definition string_where :: "(pystr \<Rightarrow> bool) \<Rightarrow> json \<Rightarrow> pystr option" where
  "string_where ok v = (case v of JStr s \<Rightarrow> if ok s then Some s else None | _ \<Rightarrow> None)"

definition relation_of :: "json \<Rightarrow> relation option" where
  "relation_of v =
     (if v = JStr (u ''reader'') then Some Reader
      else if v = JStr (u ''writer'') then Some Writer
      else None)"

definition grant_entry :: "json \<Rightarrow> grant option" where
  "grant_entry v =
     Option.bind (fields_of [u ''space'', u ''relation''] v) (\<lambda>field.
     Option.bind (string_where (\<lambda>s. True) (field (u ''space''))) (\<lambda>space.
     Option.bind (relation_of (field (u ''relation''))) (\<lambda>relation.
     Some \<lparr>g_space = space, g_relation = relation\<rparr>)))"

definition key_entry_of :: "json \<Rightarrow> key_entry option" where
  "key_entry_of v =
     Option.bind (fields_of [u ''name'', u ''secrets'', u ''grants''] v) (\<lambda>field.
     Option.bind (string_where key_name_ok (field (u ''name''))) (\<lambda>name.
     Option.bind (list_of (string_where secret_ok) (field (u ''secrets''))) (\<lambda>secrets.
     Option.bind (list_of grant_entry (field (u ''grants''))) (\<lambda>grants.
     if secrets \<noteq> [] \<and> length grants = 1
     then Some \<lparr>ke_name = name, ke_secrets = secrets, ke_grants = grants\<rparr>
     else None))))"

definition keys_file :: "json \<Rightarrow> key_entry list option" where
  "keys_file v =
     Option.bind (fields_of [u ''keys''] v) (\<lambda>field.
     Option.bind (list_of key_entry_of (field (u ''keys''))) (\<lambda>entries.
     if entries \<noteq> [] then Some entries else None))"

section \<open>The key table\<close>

type_synonym key_table = "(pystr, key) dict"

definition LOCAL_KEY :: key where
  "LOCAL_KEY = \<lparr>k_name = u ''local'', k_grant = \<lparr>g_space = u ''default_user'', g_relation = Writer\<rparr>\<rparr>"

definition resolve :: "(pystr \<Rightarrow> pystr) \<Rightarrow> key_table \<Rightarrow> pystr \<Rightarrow> key option" where
  "resolve sha256 T token = map_of T (sha256 token)"

definition table_keys :: "key_table \<Rightarrow> key list" where
  "table_keys T = fromkeys (map snd T)"

datatype loc_part = Loc_index int | Loc_name pystr

fun loc_text :: "loc_part \<Rightarrow> pystr" where
  "loc_text (Loc_index i) = int_str i"
| "loc_text (Loc_name s) = s"

definition where_text :: "loc_part list \<Rightarrow> pystr" where
  "where_text loc =
     (case loc of
        Loc_name field # Loc_index i # parts \<Rightarrow>
          if field = u ''keys'' then
            (let rest = join (u ''.'') (map loc_text parts)
             in u ''key '' @ int_str (i + 1) @ (if rest \<noteq> [] then u '': '' @ rest else []))
          else join (u ''.'') (map loc_text loc)
      | _ \<Rightarrow>
          (let text = join (u ''.'') (map loc_text loc)
           in if text \<noteq> [] then text else u ''the file''))"

definition digest_of :: "pystr \<Rightarrow> pystr" where
  "digest_of secret =
     (if prefix SECRET_PREFIX secret then drop (length SECRET_PREFIX) secret else secret)"

definition entry_key :: "key_entry \<Rightarrow> key" where
  "entry_key e =
     \<lparr>k_name = ke_name e,
      k_grant = \<lparr>g_space = g_space (hd (ke_grants e)), g_relation = g_relation (hd (ke_grants e))\<rparr>\<rparr>"

fun load_secrets ::
  "nat \<Rightarrow> key \<Rightarrow> pystr list \<Rightarrow> (pystr, nat) dict \<Rightarrow> key_table
   \<Rightarrow> keys_message + (pystr, nat) dict \<times> key_table" where
  "load_secrets n key [] owner by_digest = Inr (owner, by_digest)"
| "load_secrets n key (secret # secrets) owner by_digest =
     (let digest = digest_of secret
      in case map_of owner digest of
           Some m \<Rightarrow> Inl (if m = n then Key_lists_secret_twice n else Keys_share_secret m n)
         | None \<Rightarrow>
             load_secrets n key secrets (dict_set digest n owner) (dict_set digest key by_digest))"

fun load_entries ::
  "nat \<Rightarrow> key_entry list \<Rightarrow> (pystr, nat) dict \<Rightarrow> (pystr, nat) dict \<Rightarrow> key_table
   \<Rightarrow> keys_message + key_table" where
  "load_entries n [] names owner by_digest = Inr by_digest"
| "load_entries n (e # entries) names owner by_digest =
     (case map_of names (ke_name e) of
        Some m \<Rightarrow> Inl (Keys_same_name m n (ke_name e))
      | None \<Rightarrow>
          res_bind (load_secrets n (entry_key e) (ke_secrets e) owner by_digest)
            (\<lambda>(owner, by_digest).
              load_entries (n + 1) entries (dict_set (ke_name e) n names) owner by_digest))"

text \<open>What opening and decoding the file gives.\<close>

datatype keys_source = File_error pystr | Not_utf8 | Not_toml pystr | Toml json

definition load_keys ::
  "(json \<Rightarrow> (loc_part list \<times> pystr) list) \<Rightarrow> pystr \<Rightarrow> keys_source \<Rightarrow> exc + key_table" where
  "load_keys problems path src =
     (let refuse = (\<lambda>m. Inl (ValueError (Keys_msg path m)))
      in case src of
           File_error strerror \<Rightarrow> refuse (Keys_unreadable strerror)
         | Not_utf8 \<Rightarrow> refuse Keys_not_utf8
         | Not_toml text \<Rightarrow> refuse (Keys_not_toml text)
         | Toml raw \<Rightarrow>
             (case keys_file raw of
                None \<Rightarrow>
                  refuse (Keys_invalid (map (\<lambda>(loc, m). (where_text loc, m)) (problems raw)))
              | Some entries \<Rightarrow>
                  (case load_entries 1 entries [] [] [] of
                     Inl m \<Rightarrow> refuse m
                   | Inr by_digest \<Rightarrow> Inr by_digest)))"

section \<open>Which files load\<close>

definition digests :: "key_entry \<Rightarrow> pystr list" where
  "digests e = map digest_of (ke_secrets e)"

definition table_rows :: "key_entry \<Rightarrow> key_table" where
  "table_rows e = map (\<lambda>d. (d, entry_key e)) (digests e)"

lemma set_digests: "set (digests e) = digest_of ` set (ke_secrets e)"
  by (simp add: digests_def)

lemma load_secrets_ok:
  assumes "fst ` set by_digest = fst ` set owner"
  shows "load_secrets n key ss owner by_digest = Inr r \<longleftrightarrow>
     distinct (map digest_of ss) \<and> digest_of ` set ss \<inter> fst ` set owner = {}
     \<and> r = (owner @ map (\<lambda>s. (digest_of s, n)) ss, by_digest @ map (\<lambda>s. (digest_of s, key)) ss)"
  using assms
proof (induction ss arbitrary: owner by_digest)
  case (Cons s ss)
  show ?case
  proof (cases "digest_of s \<in> fst ` set owner")
    case True
    then obtain m where "map_of owner (digest_of s) = Some m"
      by (metis map_of_eq_None_iff not_None_eq)
    with True show ?thesis by (auto simp: Let_def)
  next
    case False
    then have "map_of owner (digest_of s) = None" by (simp add: map_of_eq_None_iff)
    moreover have "load_secrets n key ss (owner @ [(digest_of s, n)]) (by_digest @ [(digest_of s, key)]) = Inr r \<longleftrightarrow>
       distinct (map digest_of ss)
       \<and> digest_of ` set ss \<inter> fst ` set (owner @ [(digest_of s, n)]) = {}
       \<and> r = ((owner @ [(digest_of s, n)]) @ map (\<lambda>s. (digest_of s, n)) ss,
              (by_digest @ [(digest_of s, key)]) @ map (\<lambda>s. (digest_of s, key)) ss)"
      by (rule Cons.IH) (use Cons.prems in simp)
    ultimately show ?thesis
      using False Cons.prems by (auto simp: Let_def dict_set_fresh)
  qed
qed auto

lemma load_entries_ok:
  assumes "fst ` set by_digest = fst ` set owner"
  shows "load_entries n es names owner by_digest = Inr T \<longleftrightarrow>
     distinct (map ke_name es) \<and> ke_name ` set es \<inter> fst ` set names = {}
     \<and> distinct (concat (map digests es)) \<and> set (concat (map digests es)) \<inter> fst ` set owner = {}
     \<and> T = by_digest @ concat (map table_rows es)"
  using assms
proof (induction es arbitrary: n names owner by_digest)
  case (Cons e es)
  show ?case
  proof (cases "ke_name e \<in> fst ` set names")
    case True
    then obtain m where "map_of names (ke_name e) = Some m"
      by (metis map_of_eq_None_iff not_None_eq)
    with True show ?thesis by auto
  next
    case fresh: False
    then have name: "map_of names (ke_name e) = None" by (simp add: map_of_eq_None_iff)
    let ?owner = "owner @ map (\<lambda>s. (digest_of s, n)) (ke_secrets e)"
    let ?table = "by_digest @ table_rows e"
    have rows: "map (\<lambda>s. (digest_of s, entry_key e)) (ke_secrets e) = table_rows e"
      by (simp add: table_rows_def digests_def)
    have same: "fst ` set ?table = fst ` set ?owner"
      using Cons.prems by (simp add: table_rows_def digests_def image_Un image_image)
    note IH = Cons.IH [OF same, of "n + 1" "names @ [(ke_name e, n)]"]
    have step: "load_entries n (e # es) names owner by_digest = Inr T \<longleftrightarrow>
        distinct (digests e) \<and> set (digests e) \<inter> fst ` set owner = {}
        \<and> load_entries (n + 1) es (names @ [(ke_name e, n)]) ?owner ?table = Inr T"
      using name
      by (auto simp: res_bind_eq_Inr load_secrets_ok [OF Cons.prems] rows dict_set_fresh [OF fresh]
          digests_def)
    show ?thesis
      unfolding step IH using fresh
      by (auto simp: image_Un image_image set_digests [symmetric])
  qed
qed auto

text \<open>The entries startup accepts: a well-formed file, no name and no secret listed twice.\<close>

definition accepted_entries :: "keys_source \<Rightarrow> key_entry list option" where
  "accepted_entries src =
     (case src of
        Toml raw \<Rightarrow>
          Option.bind (keys_file raw) (\<lambda>es.
          if distinct (map ke_name es) \<and> distinct (concat (map digests es)) then Some es else None)
      | _ \<Rightarrow> None)"

lemma load_keys_ok:
  "load_keys problems path src = Inr T \<longleftrightarrow>
     (\<exists>es. accepted_entries src = Some es \<and> T = concat (map table_rows es))"
proof -
  have load: "load_entries 1 es [] [] [] = Inr T \<longleftrightarrow>
      distinct (map ke_name es) \<and> distinct (concat (map digests es))
      \<and> T = concat (map table_rows es)" for es
    by (subst load_entries_ok) auto
  have "load_keys problems path (Toml raw) = Inr T \<longleftrightarrow>
      (\<exists>es. accepted_entries (Toml raw) = Some es \<and> T = concat (map table_rows es))" for raw
  proof (cases "keys_file raw")
    case (Some es)
    then have "load_keys problems path (Toml raw) = Inr T \<longleftrightarrow> load_entries 1 es [] [] [] = Inr T"
      by (cases "load_entries 1 es [] [] []") (simp_all add: load_keys_def)
    with Some load [of es] show ?thesis by (auto simp: accepted_entries_def)
  qed (simp add: load_keys_def accepted_entries_def)
  then show ?thesis
    by (cases src) (simp_all add: load_keys_def accepted_entries_def)
qed

lemma load_keys_refused:
  "load_keys problems path src = Inl e \<Longrightarrow> \<exists>m. e = ValueError (Keys_msg path m)"
  by (auto simp: load_keys_def Let_def split: keys_source.splits option.splits sum.splits)

text \<open>Who holds a token.\<close>

definition holder :: "(pystr \<Rightarrow> pystr) \<Rightarrow> key_entry list \<Rightarrow> pystr \<Rightarrow> key option" where
  "holder sha256 es token = map_option entry_key (find (\<lambda>e. sha256 token \<in> set (digests e)) es)"

lemma holder_unique:
  assumes "distinct (concat (map digests es))" and "e \<in> set es" and "sha256 token \<in> set (digests e)"
  shows "holder sha256 es token = Some (entry_key e)"
  using assms by (induction es) (auto simp: holder_def)

lemma map_of_table_rows:
  "map_of (concat (map table_rows es)) d = map_option entry_key (find (\<lambda>e. d \<in> set (digests e)) es)"
proof (induction es)
  case (Cons e es)
  have "map_of (table_rows e) d = (if d \<in> set (digests e) then Some (entry_key e) else None)"
    unfolding table_rows_def by (induction "digests e") (auto simp: map_of_map_restrict restrict_map_def)
  with Cons show ?case by (simp add: map_add_def)
qed simp

lemma resolve_holder: "resolve sha256 (concat (map table_rows es)) token = holder sha256 es token"
  by (simp add: resolve_def holder_def map_of_table_rows)

lemma unique_from_replicate:
  "x \<notin> seen \<Longrightarrow> 0 < n \<Longrightarrow> unique_from seen (replicate n x @ ys) = x # unique_from (insert x seen) ys"
proof (induction n)
  case (Suc n)
  have "unique_from (insert x seen) (replicate n x @ ys) = unique_from (insert x seen) ys"
    by (induction n) auto
  with Suc show ?case by simp
qed simp

lemma keys_of_rows:
  assumes "distinct (map ke_name es)" and "\<forall>e \<in> set es. ke_secrets e \<noteq> []"
  shows "table_keys (concat (map table_rows es)) = map entry_key es"
proof -
  have "unique_from seen (map snd (concat (map table_rows es))) = map entry_key es"
    if "entry_key ` set es \<inter> seen = {}" for seen
    using assms that
  proof (induction es arbitrary: seen)
    case (Cons e es)
    have "map snd (table_rows e) = replicate (length (ke_secrets e)) (entry_key e)"
      by (simp add: table_rows_def digests_def comp_def map_replicate_const)
    moreover have "entry_key ` set es \<inter> insert (entry_key e) seen = {}"
      using Cons.prems by (force simp: entry_key_def)
    ultimately show ?case
      using Cons by (simp add: unique_from_replicate map_concat)
  qed simp
  then show ?thesis by (simp add: table_keys_def fromkeys_def)
qed

text \<open>What a file that loads has granted: each key once, in file order.\<close>

lemma all_some_mem: "all_some xs = Some ys \<Longrightarrow> y \<in> set ys \<Longrightarrow> Some y \<in> set xs"
  by (induction xs arbitrary: ys rule: all_some.induct) auto

lemma list_of_mem:
  assumes "list_of f v = Some ys" and "y \<in> set ys"
  shows "\<exists>w. f w = Some y"
proof -
  obtain vs where "all_some (map f vs) = Some ys"
    using assms(1) by (auto simp: list_of_def split: json.splits)
  from all_some_mem [OF this assms(2)] show ?thesis by (metis imageE list.set_map)
qed

lemma keys_file_entries:
  assumes "keys_file raw = Some es"
  shows "es \<noteq> []" and "e \<in> set es \<Longrightarrow> key_name_ok (ke_name e) \<and> ke_secrets e \<noteq> []
      \<and> list_all secret_ok (ke_secrets e) \<and> length (ke_grants e) = 1"
proof -
  obtain field where es: "list_of key_entry_of (field (u ''keys'')) = Some es" "es \<noteq> []"
    using assms by (auto simp: keys_file_def bind_eq_Some_conv split: if_splits)
  then show "es \<noteq> []" by simp
  assume "e \<in> set es"
  then obtain v where "key_entry_of v = Some e"
    using list_of_mem [OF es(1)] by blast
  moreover have "list_of (string_where secret_ok) w = Some ss \<Longrightarrow> list_all secret_ok ss" for w ss
    by (auto simp: list_all_iff string_where_def dest!: list_of_mem split: json.splits if_splits)
  ultimately show "key_name_ok (ke_name e) \<and> ke_secrets e \<noteq> []
      \<and> list_all secret_ok (ke_secrets e) \<and> length (ke_grants e) = 1"
    by (auto simp: key_entry_of_def bind_eq_Some_conv string_where_def split: if_splits json.splits)
qed

lemma accepted_entriesD:
  assumes "accepted_entries src = Some es"
  shows "es \<noteq> []" and "distinct (map ke_name es)" and "distinct (concat (map digests es))"
    and "\<forall>e \<in> set es. ke_secrets e \<noteq> []"
  using assms keys_file_entries
  by (fastforce simp: accepted_entries_def bind_eq_Some_conv split: keys_source.splits if_splits)+

text \<open>
  Property C30: the keys file. Startup loads exactly the files whose entries are well formed and
  in which no name and no secret is listed twice; it refuses any other with a ValueError. From a
  file that loads, the table holds each entry's key once, in file order, and a token resolves to
  the key of the one entry that lists its digest, and to none when no entry does.
\<close>

theorem load_keys_exact:
  "case accepted_entries src of
     None \<Rightarrow> \<exists>m. load_keys problems path src = Inl (ValueError (Keys_msg path m))
   | Some es \<Rightarrow>
       (\<exists>T. load_keys problems path src = Inr T \<and> table_keys T = map entry_key es
         \<and> (\<forall>sha256 token k. resolve sha256 T token = Some k
              = (\<exists>e \<in> set es. sha256 token \<in> set (digests e) \<and> k = entry_key e)))"
proof (cases "accepted_entries src")
  case None
  then have "\<not> (\<exists>T. load_keys problems path src = Inr T)" by (simp add: load_keys_ok)
  then show ?thesis
    using None load_keys_refused by (cases "load_keys problems path src") auto
next
  case (Some es)
  note es = accepted_entriesD [OF Some]
  have "holder sha256 es token = Some k \<longleftrightarrow>
      (\<exists>e \<in> set es. sha256 token \<in> set (digests e) \<and> k = entry_key e)" for sha256 token k
    using holder_unique [OF es(3)] by (auto simp: holder_def find_Some_iff)
  with Some es show ?thesis
    by (auto simp: load_keys_ok keys_of_rows resolve_holder)
qed

end
