(* ===== verification/Config.thy ===== *)
theory Config
  imports Auth
begin

text \<open>
  \<open>memcp/config.py\<close> and \<open>memcp/http/hosts.py\<close>: the addresses that prove a bind is local
  (\<open>ipaddress\<close> of the standard library included), the settings as pydantic has read them from the
  environment, the validators that refuse a start, and the Host and Origin allow-lists. The
  lemmas: which hosts count as loopback, and which settings start a server.
\<close>

section \<open>IP addresses\<close>

text \<open>\<open>IPv4Address\<close>: four decimal octets, ASCII, no leading zero.\<close>

definition digit_char :: "uchar \<Rightarrow> bool" where
  "digit_char c \<longleftrightarrow> 48 \<le> c \<and> c \<le> 57"

definition decimal_value :: "pystr \<Rightarrow> int" where
  "decimal_value s = digits_value (map (\<lambda>c. c - 48) s)"

definition ipv4_octet :: "pystr \<Rightarrow> int option" where
  "ipv4_octet s =
     (if s = [] \<or> \<not> list_all digit_char s \<or> length s > 3 then None
      else if s \<noteq> u ''0'' \<and> hd s = 48 then None
      else if decimal_value s > 255 then None
      else Some (decimal_value s))"

definition ipv4_value :: "pystr \<Rightarrow> int option" where
  "ipv4_value s =
     (case split_on 46 s of
        [a, b, c, d] \<Rightarrow>
          Option.bind (ipv4_octet a) (\<lambda>a.
          Option.bind (ipv4_octet b) (\<lambda>b.
          Option.bind (ipv4_octet c) (\<lambda>c.
          Option.bind (ipv4_octet d) (\<lambda>d.
          Some (((a * 256 + b) * 256 + c) * 256 + d)))))
      | _ \<Rightarrow> None)"

definition ipv4_loopback :: "int \<Rightarrow> bool" where
  "ipv4_loopback v \<longleftrightarrow> v div 2 ^ 24 = 127"

text \<open>\<open>IPv6Address\<close>: at most one \<open>::\<close>, a dotted tail, a zone after \<open>%\<close>.\<close>

definition hex_value :: "uchar \<Rightarrow> int option" where
  "hex_value c =
     (if digit_char c then Some (c - 48)
      else if 97 \<le> c \<and> c \<le> 102 then Some (c - 87)
      else if 65 \<le> c \<and> c \<le> 70 then Some (c - 55)
      else None)"

definition hextet :: "pystr \<Rightarrow> int option" where
  "hextet s =
     (if s = [] \<or> length s > 4 then None
      else Option.bind (all_some (map hex_value s)) (\<lambda>ds. Some (foldl (\<lambda>a d. 16 * a + d) 0 ds)))"

text \<open>The groups of an address, a dotted tail as its two 16-bit halves.\<close>

definition ipv6_parts :: "pystr \<Rightarrow> (pystr + int) list option" where
  "ipv6_parts s =
     (let parts = split_on 58 s
      in if length parts < 3 then None
         else if 46 \<in> set (last parts)
         then Option.bind (ipv4_value (last parts)) (\<lambda>v.
                Some (map Inl (butlast parts) @ [Inr (v div 65536), Inr (v mod 65536)]))
         else Some (map Inl parts))"

definition part_empty :: "pystr + int \<Rightarrow> bool" where
  "part_empty p \<longleftrightarrow> p = Inl []"

definition part_value :: "pystr + int \<Rightarrow> int option" where
  "part_value p = (case p of Inl s \<Rightarrow> hextet s | Inr v \<Rightarrow> Some v)"

definition inner_empty :: "(pystr + int) list \<Rightarrow> nat list" where
  "inner_empty parts = filter (\<lambda>i. part_empty (parts ! i)) [1..<length parts - 1]"

text \<open>The groups copied from above and below the \<open>::\<close>, with the zeros between them.\<close>

definition ipv6_layout :: "(pystr + int) list \<Rightarrow> (pystr + int) list option" where
  "ipv6_layout parts =
     (case inner_empty parts of
        [] \<Rightarrow>
          if length parts \<noteq> 8 \<or> part_empty (hd parts) \<or> part_empty (last parts) then None
          else Some parts
      | [skip_index] \<Rightarrow>
          (let high = take skip_index parts;
               low = drop (Suc skip_index) parts;
               hi = (if part_empty (hd parts) then tl high else high);
               lo = (if part_empty (last parts) then butlast low else low);
               skipped = 8 - (int (length hi) + int (length lo))
           in if part_empty (hd parts) \<and> hi \<noteq> [] then None
              else if part_empty (last parts) \<and> lo \<noteq> [] then None
              else if skipped < 1 then None
              else Some (hi @ replicate (nat skipped) (Inr 0) @ lo))
      | _ \<Rightarrow> None)"

definition ipv6_value :: "pystr \<Rightarrow> int option" where
  "ipv6_value s =
     (if 47 \<in> set s then None
      else
        case split_on 37 s of
          addr # zone \<Rightarrow>
            if zone \<noteq> [] \<and> (length zone > 1 \<or> hd zone = []) then None
            else
              Option.bind (ipv6_parts addr) (\<lambda>parts.
              if length parts > 9 then None
              else
                Option.bind (ipv6_layout parts) (\<lambda>groups.
                Option.bind (all_some (map part_value groups)) (\<lambda>vs.
                Some (foldl (\<lambda>a v. a * 65536 + v) 0 vs))))
        | [] \<Rightarrow> None)"

text \<open>From Python 3.13 on (\<open>v4_mapped\<close>), an IPv4-mapped address is loopback when the IPv4 one is.\<close>

definition ipv6_loopback :: "bool \<Rightarrow> int \<Rightarrow> bool" where
  "ipv6_loopback v4_mapped v \<longleftrightarrow>
     (if v4_mapped \<and> v div 2 ^ 32 = 0xFFFF then ipv4_loopback (v mod 2 ^ 32) else v = 1)"

definition is_loopback :: "bool \<Rightarrow> pystr \<Rightarrow> bool" where
  "is_loopback v4_mapped host \<longleftrightarrow>
     (if host = [] then False
      else
        case ipv4_value host of
          Some v \<Rightarrow> ipv4_loopback v
        | None \<Rightarrow>
            (case ipv6_value host of
               Some v \<Rightarrow> ipv6_loopback v4_mapped v
             | None \<Rightarrow> host = u ''localhost''))"

section \<open>Settings\<close>

datatype backend_kind = Kind_mem0 | Kind_in_memory | Kind_sqlite

record config =
  memcp_backend :: backend_kind
  mem0_api_base :: "pystr option"
  mem0_api_key :: "pystr option"
  memcp_sqlite_path :: pystr
  memcp_keys_file :: "pystr option"
  memcp_auth_tokens :: "pystr option"
  memcp_auth_seats :: "pystr option"
  cf_host :: pystr
  cf_port :: int
  memcp_allowed_hosts :: "pystr option"
  log_level :: pystr
  log_format :: pystr

text \<open>The defaults of everything but the backend.\<close>

definition config_defaults :: "backend_kind \<Rightarrow> config" where
  "config_defaults backend =
     \<lparr>memcp_backend = backend, mem0_api_base = None, mem0_api_key = None,
      memcp_sqlite_path = u ''memcp.sqlite3'', memcp_keys_file = None, memcp_auth_tokens = None,
      memcp_auth_seats = None, cf_host = u ''0.0.0.0'', cf_port = 8080, memcp_allowed_hosts = None,
      log_level = u ''INFO'', log_format = u ''json''\<rparr>"

definition falsy :: "pystr option \<Rightarrow> bool" where
  "falsy v \<longleftrightarrow> v = None \<or> v = Some []"

definition empty_is_none :: "pystr option \<Rightarrow> pystr option" where
  "empty_is_none v = (if falsy v then None else v)"

definition empty_hosts_is_none :: "pystr option \<Rightarrow> pystr option" where
  "empty_hosts_is_none v = (if falsy v then None else v)"

definition validate_backend_config :: "config \<Rightarrow> config_message + unit" where
  "validate_backend_config c =
     (if memcp_backend c = Kind_mem0 then
        (if falsy (mem0_api_base c) then Inl Mem0_base_required
         else if falsy (mem0_api_key c) then Inl Mem0_key_required
         else Inr ())
      else Inr ())"

fun refuse_replaced :: "(pystr \<times> pystr option) list \<Rightarrow> config_message + unit" where
  "refuse_replaced [] = Inr ()"
| "refuse_replaced ((name, v) # vs) =
     (if \<not> falsy v then Inl (Variable_replaced name) else refuse_replaced vs)"

definition refuse_replaced_variables :: "config \<Rightarrow> config_message + unit" where
  "refuse_replaced_variables c =
     refuse_replaced
       [(u ''MEMCP_AUTH_TOKENS'', memcp_auth_tokens c), (u ''MEMCP_AUTH_SEATS'', memcp_auth_seats c)]"

definition refuse_unauthenticated_exposure :: "bool \<Rightarrow> config \<Rightarrow> config_message + unit" where
  "refuse_unauthenticated_exposure v4_mapped c =
     (if falsy (memcp_keys_file c) \<and> \<not> is_loopback v4_mapped (cf_host c)
      then Inl (Exposed_without_keys (cf_host c)) else Inr ())"

text \<open>\<open>Config()\<close> on fields already read: the field validators, then the model's in order.\<close>

definition field_validators :: "config \<Rightarrow> config" where
  "field_validators raw =
     raw\<lparr>memcp_keys_file := empty_is_none (memcp_keys_file raw),
         memcp_auth_tokens := empty_is_none (memcp_auth_tokens raw),
         memcp_auth_seats := empty_is_none (memcp_auth_seats raw),
         memcp_allowed_hosts := empty_hosts_is_none (memcp_allowed_hosts raw)\<rparr>"

definition make_config :: "bool \<Rightarrow> config \<Rightarrow> config_message + config" where
  "make_config v4_mapped raw =
     (let c = field_validators raw
      in res_bind (validate_backend_config c) (\<lambda>_.
         res_bind (refuse_replaced_variables c) (\<lambda>_.
         res_bind (refuse_unauthenticated_exposure v4_mapped c) (\<lambda>_.
         Inr c))))"

fun backend_name :: "backend_kind \<Rightarrow> pystr" where
  "backend_name Kind_mem0 = u ''mem0''"
| "backend_name Kind_in_memory = u ''in_memory''"
| "backend_name Kind_sqlite = u ''sqlite''"

definition version :: pystr where
  "version = u ''0.2.0''"

section \<open>Hosts and origins\<close>

definition allowed_hosts_list :: "config \<Rightarrow> pystr list option" where
  "allowed_hosts_list c =
     (case memcp_allowed_hosts c of
        None \<Rightarrow> None
      | Some text \<Rightarrow>
          if text = [] then None
          else Some (map strip (filter (\<lambda>h. strip h \<noteq> []) (split_on 44 text))))"

record transport_settings =
  enable_dns_rebinding_protection :: bool
  allowed_hosts :: "pystr list"
  allowed_origins :: "pystr list"

definition transport_security :: "config \<Rightarrow> transport_settings option" where
  "transport_security c =
     (case allowed_hosts_list c of
        None \<Rightarrow> None
      | Some allowed \<Rightarrow>
          if allowed = [] then None
          else Some
            \<lparr>enable_dns_rebinding_protection = True, allowed_hosts = allowed,
             allowed_origins =
               concat (map (\<lambda>h. map (\<lambda>scheme. scheme @ u ''://'' @ h) [u ''http'', u ''https'']) allowed)\<rparr>)"

section \<open>Which hosts are local\<close>

definition dotted :: "nat \<Rightarrow> nat \<Rightarrow> nat \<Rightarrow> nat \<Rightarrow> pystr" where
  "dotted a b c d = join [46] (map nat_digits [a, b, c, d])"

lemma decimal_value_snoc: "decimal_value (s @ [c]) = 10 * decimal_value s + (c - 48)"
  by (simp add: decimal_value_def digits_value_snoc)

lemma decimal_value_digits: "decimal_value (nat_digits n) = int n"
  by (simp add: decimal_value_def digits_value_nat_digits)

lemma decimal_value_pos:
  "list_all digit_char s \<Longrightarrow> s \<noteq> [] \<Longrightarrow> hd s \<noteq> 48 \<Longrightarrow> 0 < decimal_value s"
proof (induction s rule: rev_induct)
  case (snoc c s)
  show ?case
  proof (cases "s = []")
    case True
    with snoc.prems show ?thesis
      by (simp add: decimal_value_def digits_value_def digit_char_def)
  next
    case False
    with snoc show ?thesis by (auto simp: decimal_value_snoc digit_char_def)
  qed
qed simp

text \<open>A numeral without leading zeros is the decimal text of its value.\<close>

lemma nat_digits_value:
  "list_all digit_char s \<Longrightarrow> s \<noteq> [] \<Longrightarrow> s = u ''0'' \<or> hd s \<noteq> 48 \<Longrightarrow>
   nat_digits (nat (decimal_value s)) = s"
proof (induction s rule: rev_induct)
  case (snoc c s)
  have c: "48 \<le> c" "c \<le> 57" using snoc.prems(1) by (auto simp: digit_char_def)
  show ?case
  proof (cases "s = []")
    case True
    with c show ?thesis
      by (simp add: decimal_value_def digits_value_def nat_digits.simps [of "nat (c - 48)"])
  next
    case False
    with snoc.prems have hd: "hd s \<noteq> 48" and all: "list_all digit_char s"
      by (auto simp: u_def)
    have pos: "0 < decimal_value s" by (rule decimal_value_pos [OF all False hd])
    have n: "nat (decimal_value (s @ [c])) = 10 * nat (decimal_value s) + nat (c - 48)"
      using pos c by (simp add: decimal_value_snoc nat_add_distrib nat_mult_distrib)
    have small: "nat (c - 48) < 10" using c by linarith
    with pos have "\<not> 10 * nat (decimal_value s) + nat (c - 48) < 10" by linarith
    then have "nat_digits (10 * nat (decimal_value s) + nat (c - 48)) =
        nat_digits (nat (decimal_value s)) @ [48 + int (nat (c - 48))]"
      using small by (subst nat_digits.simps) (simp add: div_mult_self4)
    also have "\<dots> = s @ [c]" using snoc.IH [OF all False] hd c by simp
    finally show ?thesis by (simp add: n)
  qed
qed simp

lemma hd_nat_digits: "0 < n \<Longrightarrow> hd (nat_digits n) \<noteq> 48"
proof (induction n rule: nat_digits.induct)
  case (1 n)
  then show ?case
    by (cases "n < 10") (simp_all add: nat_digits.simps [of n] hd_append)
qed

lemma digits_nat_digits: "list_all digit_char (nat_digits n)"
  using nat_digits_range by (auto simp: list_all_iff digit_char_def)

lemma ipv4_octet_exact: "ipv4_octet s = Some v \<longleftrightarrow> (\<exists>n < 256. s = nat_digits n \<and> v = int n)"
proof
  assume ok: "ipv4_octet s = Some v"
  then have s: "list_all digit_char s" "s \<noteq> []" "s = u ''0'' \<or> hd s \<noteq> 48"
    and v: "v = decimal_value s" "v \<le> 255"
    by (auto simp: ipv4_octet_def split: if_splits)
  have "0 \<le> decimal_value s"
    using s decimal_value_pos [OF s(1,2)]
    by (cases "s = u ''0''") (auto simp: decimal_value_def digits_value_def u_def)
  with nat_digits_value [OF s] v show "\<exists>n < 256. s = nat_digits n \<and> v = int n"
    by (intro exI [of _ "nat v"]) auto
next
  assume "\<exists>n < 256. s = nat_digits n \<and> v = int n"
  then obtain n where n: "n < 256" "s = nat_digits n" "v = int n" by blast
  have "length (nat_digits n) \<le> 3" using n(1) by (intro length_nat_digits) simp_all
  moreover have "nat_digits n = u ''0'' \<or> hd (nat_digits n) \<noteq> 48"
    using hd_nat_digits [of n] by (cases "n = 0") (simp_all add: nat_digits.simps u_def)
  ultimately show "ipv4_octet s = Some v"
    using n by (auto simp: ipv4_octet_def digits_nat_digits decimal_value_digits)
qed

lemma dot_free: "46 \<notin> set (nat_digits n)"
  using nat_digits_range [of 46 n] by auto

lemma ipv4_value_exact:
  "ipv4_value s = Some v \<longleftrightarrow>
     (\<exists>a < 256. \<exists>b < 256. \<exists>c < 256. \<exists>d < 256.
        s = dotted a b c d \<and> v = ((int a * 256 + int b) * 256 + int c) * 256 + int d)"
proof
  assume "ipv4_value s = Some v"
  then obtain w x y z where parts: "split_on 46 s = [w, x, y, z]"
    and v: "Option.bind (ipv4_octet w) (\<lambda>a. Option.bind (ipv4_octet x) (\<lambda>b.
      Option.bind (ipv4_octet y) (\<lambda>c. Option.bind (ipv4_octet z) (\<lambda>d.
      Some (((a * 256 + b) * 256 + c) * 256 + d))))) = Some v"
    by (auto simp: ipv4_value_def split: list.splits)
  have s: "s = join [46] [w, x, y, z]" using join_split_on [of 46 s] parts by simp
  from v show "\<exists>a < 256. \<exists>b < 256. \<exists>c < 256. \<exists>d < 256.
        s = dotted a b c d \<and> v = ((int a * 256 + int b) * 256 + int c) * 256 + int d"
    unfolding bind_eq_Some_conv ipv4_octet_exact s dotted_def by fastforce
next
  assume "\<exists>a < 256. \<exists>b < 256. \<exists>c < 256. \<exists>d < 256.
        s = dotted a b c d \<and> v = ((int a * 256 + int b) * 256 + int c) * 256 + int d"
  then obtain a b c d where n: "a < 256" "b < 256" "c < 256" "d < 256"
    and s: "s = dotted a b c d" "v = ((int a * 256 + int b) * 256 + int c) * 256 + int d" by blast
  have octet: "n < 256 \<Longrightarrow> ipv4_octet (nat_digits n) = Some (int n)" for n
    by (auto simp: ipv4_octet_exact)
  have "split_on 46 s = [nat_digits a, nat_digits b, nat_digits c, nat_digits d]"
    by (simp add: s dotted_def split_on_append split_on_piece dot_free)
  with n s(2) show "ipv4_value s = Some v"
    by (simp add: ipv4_value_def octet)
qed

lemma ipv6_needs_colons:
  assumes "58 \<notin> set s"
  shows "ipv6_value s = None"
proof -
  obtain addr zone where split: "split_on 37 s = addr # zone" by (cases "split_on 37 s") auto
  then have "s = join [37] (addr # zone)" by (metis join_split_on)
  with assms have "58 \<notin> set addr" by (cases zone) auto
  then have "ipv6_parts addr = None" by (simp add: ipv6_parts_def split_on_piece)
  with split show ?thesis by (simp add: ipv6_value_def)
qed

lemma ipv4_loopback_value:
  assumes "b < 256" and "c < 256" and "d < 256"
  shows "ipv4_loopback (((int a * 256 + int b) * 256 + int c) * 256 + int d) \<longleftrightarrow> a = 127"
proof -
  have "(((int a * 256 + int b) * 256 + int c) * 256 + int d) div 2 ^ 24 = int a"
    using assms by simp
  then show ?thesis by (simp add: ipv4_loopback_def)
qed

lemma dotted_value:
  "a < 256 \<Longrightarrow> b < 256 \<Longrightarrow> c < 256 \<Longrightarrow> d < 256 \<Longrightarrow>
   ipv4_value (dotted a b c d) = Some (((int a * 256 + int b) * 256 + int c) * 256 + int d)"
  unfolding ipv4_value_exact by blast

lemma is_loopback_exact:
  assumes "58 \<notin> set host"
  shows "is_loopback v4_mapped host \<longleftrightarrow>
     host = u ''localhost'' \<or> (\<exists>b < 256. \<exists>c < 256. \<exists>d < 256. host = dotted 127 b c d)"
proof (cases "ipv4_value host")
  case None
  then have "\<not> (\<exists>b < 256. \<exists>c < 256. \<exists>d < 256. host = dotted 127 b c d)"
    using dotted_value [of 127] by force
  with None show ?thesis by (auto simp: is_loopback_def ipv6_needs_colons [OF assms])
next
  case (Some v)
  have "ipv4_value (u ''localhost'') = None" by (simp add: ipv4_value_def u_def)
  moreover have "ipv4_value [] = None" by (simp add: ipv4_value_def)
  ultimately have neq: "host \<noteq> u ''localhost''" "host \<noteq> []" using Some by auto
  from Some obtain a b c d where n: "a < 256" "b < 256" "c < 256" "d < 256" "host = dotted a b c d"
    and v: "v = ((int a * 256 + int b) * 256 + int c) * 256 + int d"
    unfolding ipv4_value_exact by blast
  have local: "ipv4_loopback v \<longleftrightarrow> a = 127" using ipv4_loopback_value [OF n(2-4)] v by simp
  have "a = 127" if "b' < 256" "c' < 256" "d' < 256" "host = dotted 127 b' c' d'" for b' c' d'
  proof -
    have "ipv4_value host = Some (((int 127 * 256 + int b') * 256 + int c') * 256 + int d')"
      using that dotted_value [of 127 b' c' d'] by simp
    then have "ipv4_loopback v"
      using Some ipv4_loopback_value [OF that(1-3), of 127] by simp
    with ipv4_loopback_value [OF n(2-4), of a] v show "a = 127" by simp
  qed
  then have "(\<exists>b < 256. \<exists>c < 256. \<exists>d < 256. host = dotted 127 b c d) \<longleftrightarrow> a = 127"
    using n by blast
  moreover have "is_loopback v4_mapped host = ipv4_loopback v"
    using Some neq(2) by (simp add: is_loopback_def)
  ultimately show ?thesis using neq(1) local by simp
qed

section \<open>Which settings start a server\<close>

lemma refuse_replaced_ok: "refuse_replaced vs = Inr w \<longleftrightarrow> list_all (\<lambda>(name, v). falsy v) vs"
  by (induction vs rule: refuse_replaced.induct) auto

lemma falsy_None [simp]: "falsy None"
  by (simp add: falsy_def)

lemma falsy_empty_is_none [simp]: "falsy (empty_is_none v) = falsy v"
  by (auto simp: empty_is_none_def falsy_def)

text \<open>
  Property C32: the settings that start a server. A mem0 backend needs its base and key;
  the variables the keys file replaced must be empty; and without a keys file the host must be
  local, which for a host without a colon means \<open>localhost\<close> or a dotted address in 127.0.0.0/8 and
  nothing else.
\<close>

theorem config_exact:
  "(make_config v4_mapped raw = Inr c \<longleftrightarrow>
      c = field_validators raw
      \<and> (memcp_backend raw = Kind_mem0 \<longrightarrow> \<not> falsy (mem0_api_base raw) \<and> \<not> falsy (mem0_api_key raw))
      \<and> falsy (memcp_auth_tokens raw) \<and> falsy (memcp_auth_seats raw)
      \<and> (\<not> falsy (memcp_keys_file raw) \<or> is_loopback v4_mapped (cf_host raw)))
   \<and> (58 \<notin> set (cf_host raw) \<longrightarrow>
      (is_loopback v4_mapped (cf_host raw) \<longleftrightarrow>
         cf_host raw = u ''localhost''
         \<or> (\<exists>b < 256. \<exists>c < 256. \<exists>d < 256. cf_host raw = dotted 127 b c d)))"
proof
  show "make_config v4_mapped raw = Inr c \<longleftrightarrow>
      c = field_validators raw
      \<and> (memcp_backend raw = Kind_mem0 \<longrightarrow> \<not> falsy (mem0_api_base raw) \<and> \<not> falsy (mem0_api_key raw))
      \<and> falsy (memcp_auth_tokens raw) \<and> falsy (memcp_auth_seats raw)
      \<and> (\<not> falsy (memcp_keys_file raw) \<or> is_loopback v4_mapped (cf_host raw))"
    by (auto simp: make_config_def Let_def res_bind_eq_Inr validate_backend_config_def
        refuse_replaced_variables_def refuse_replaced_ok refuse_unauthenticated_exposure_def
        field_validators_def)
  show "58 \<notin> set (cf_host raw) \<longrightarrow>
      (is_loopback v4_mapped (cf_host raw) \<longleftrightarrow>
         cf_host raw = u ''localhost''
         \<or> (\<exists>b < 256. \<exists>c < 256. \<exists>d < 256. cf_host raw = dotted 127 b c d))"
    using is_loopback_exact by blast
qed

text \<open>The defaults alone are refused: they listen on every interface without a keys file.\<close>

theorem config_exact_witness:
  "(\<forall>c. make_config False (config_defaults Kind_sqlite) \<noteq> Inr c)
   \<and> (let raw = (config_defaults Kind_sqlite)\<lparr>cf_host := u ''127.0.0.1''\<rparr>
      in make_config False raw = Inr raw)"
proof -
  let ?raw = "config_defaults Kind_sqlite"
  let ?local = "?raw\<lparr>cf_host := u ''127.0.0.1''\<rparr>"
  note evaluate = config_defaults_def is_loopback_def ipv4_value_def ipv4_octet_def digit_char_def
    decimal_value_def digits_value_def ipv4_loopback_def u_def
  have "is_loopback False (cf_host ?local)"
    by (simp add: evaluate)
  then have "make_config False ?local = Inr ?local"
    using config_exact [of False ?local ?local]
    by (simp add: field_validators_def config_defaults_def falsy_def empty_is_none_def
        empty_hosts_is_none_def)
  moreover have "\<not> is_loopback False (cf_host ?raw)"
    by (simp add: evaluate)
  then have "make_config False ?raw \<noteq> Inr c" for c
    using config_exact [of False ?raw c] by (simp add: config_defaults_def falsy_def)
  ultimately show ?thesis by (simp add: Let_def)
qed

section \<open>The allow-lists\<close>

text \<open>Every host stands in the list under both schemes, none is blank, and no list means no
  settings at all: also when the variable holds only commas and blanks.\<close>

lemma transport_security_hosts:
  "transport_security c = Some ts \<Longrightarrow>
     enable_dns_rebinding_protection ts \<and> allowed_hosts ts \<noteq> [] \<and> [] \<notin> set (allowed_hosts ts)
     \<and> set (allowed_origins ts) =
         (\<Union>h \<in> set (allowed_hosts ts). {u ''http://'' @ h, u ''https://'' @ h})"
  by (auto simp: transport_security_def allowed_hosts_list_def u_def split: option.splits if_splits)

lemma transport_security_commas:
  "memcp_allowed_hosts c = Some (u '' , '') \<Longrightarrow> transport_security c = None"
  by (simp add: transport_security_def allowed_hosts_list_def u_def strip_def strip_by_def is_space_def)

end
