(* ===== verification/Tools.thy ===== *)
theory Tools
  imports Isolation Config
begin

text \<open>
  \<open>memcp/tools\<close>: the MCP tools as closures over the policy object, the errors a client gets, the
  line logged for each call, and which tools a backend's capabilities register. The SDK's parsing
  of a call into typed arguments is outside the model: a \<open>tool_call\<close> is a call it has accepted.
  The lemmas: what the client sees of each outcome of policy, that a reply has its tool's shape and
  shows only the key's space, and that \<open>memory_status\<close> lists what is registered.
\<close>

section \<open>Calls and replies\<close>

text \<open>The tools take policy's arguments; \<open>memory_status\<close> takes none.\<close>

datatype tool_call = Ask request | Memory_status

fun tool_name :: "tool_call \<Rightarrow> pystr" where
  "tool_name (Ask (Add content sc md infer)) = u ''add_memory''"
| "tool_name (Ask (Search query sc limit threshold)) = u ''search_memory''"
| "tool_name (Ask (Get i)) = u ''get_memory''"
| "tool_name (Ask (Update i content md)) = u ''update_memory''"
| "tool_name (Ask (Delete i)) = u ''delete_memory''"
| "tool_name (Ask (Delete_all sc)) = u ''delete_all_memories''"
| "tool_name (Ask (List sc limit cursor)) = u ''list_memories''"
| "tool_name (Ask (History i)) = u ''memory_history''"
| "tool_name (Ask (Entities sc limit)) = u ''memory_entities''"
| "tool_name (Ask Export) = u ''export_memories''"
| "tool_name (Ask (Import memories on_conflict)) = u ''import_memories''"
| "tool_name Memory_status = u ''memory_status''"

record status_reply =
  sr_backend :: pystr
  sr_version :: pystr
  sr_capabilities :: "pystr list"
  sr_scope_keys :: "pystr list"
  sr_extracts_facts :: bool
  sr_retrieval :: "pystr option"

datatype reply =
    Nothing_extracted
  | One_added add_result
  | Many_added "add_result list"
  | Results "wire list"
  | Deleted_flag bool
  | One_memory wire
  | Deleted_count "int option"
  | Page "wire list" "pystr option" bool
  | History_of "history_entry list"
  | Entities_of "(pystr, json) dict list" "(pystr, json) dict list" bool
  | Export_of "wire list" nat bool
  | Import_of nat nat "(nat \<times> message) list" "(pystr \<times> nat \<times> import_action) list"
      "(nat \<times> pystr) list" bool
  | Status status_reply
  | Failed error_reply

section \<open>The handlers\<close>

definition serialize_add_result :: "add_return \<Rightarrow> reply" where
  "serialize_add_result r = (case r of Many rs \<Rightarrow> Many_added rs | One x \<Rightarrow> One_added x)"

definition add_memory ::
  "'w policy \<Rightarrow> key option \<Rightarrow> pystr \<Rightarrow> scope option \<Rightarrow> metadata option \<Rightarrow> bool \<Rightarrow> ('w st, reply) act" where
  "add_memory P ctx content sc md infer =
     seq (policy_add P ctx content sc md infer) (\<lambda>result.
     if \<not> add_truthy result then ret Nothing_extracted else ret (serialize_add_result result))"

definition search_memory ::
  "'w policy \<Rightarrow> key option \<Rightarrow> pystr \<Rightarrow> scope option \<Rightarrow> int \<Rightarrow> float_arg \<Rightarrow> ('w st, reply) act" where
  "search_memory P ctx query sc limit threshold =
     seq (policy_search P ctx query sc limit threshold) (\<lambda>results.
     ret (Results (map serialize_memory results)))"

definition delete_memory :: "'w policy \<Rightarrow> key option \<Rightarrow> pystr \<Rightarrow> ('w st, reply) act" where
  "delete_memory P ctx memory_id =
     seq (policy_delete P ctx memory_id) (\<lambda>deleted. ret (Deleted_flag deleted))"

definition get_memory :: "'w policy \<Rightarrow> key option \<Rightarrow> pystr \<Rightarrow> ('w st, reply) act" where
  "get_memory P ctx memory_id =
     seq (policy_get P ctx memory_id) (\<lambda>m. ret (One_memory (serialize_memory m)))"

definition update_memory ::
  "'w policy \<Rightarrow> key option \<Rightarrow> pystr \<Rightarrow> pystr option \<Rightarrow> metadata option \<Rightarrow> ('w st, reply) act" where
  "update_memory P ctx memory_id content md =
     seq (policy_update P ctx memory_id content md) (\<lambda>m. ret (One_memory (serialize_memory m)))"

definition delete_all_memories :: "'w policy \<Rightarrow> key option \<Rightarrow> scope \<Rightarrow> ('w st, reply) act" where
  "delete_all_memories P ctx sc =
     seq (policy_delete_all P ctx sc) (\<lambda>n. ret (Deleted_count n))"

definition list_memories_tool ::
  "'w policy \<Rightarrow> key option \<Rightarrow> scope option \<Rightarrow> int \<Rightarrow> pystr option \<Rightarrow> ('w st, reply) act" where
  "list_memories_tool P ctx sc limit cursor =
     seq (policy_list P ctx sc limit cursor) (\<lambda>result.
     ret (Page (map serialize_memory (l_memories result)) (l_next_cursor result) (l_incomplete result)))"

definition export_memories_tool :: "'w policy \<Rightarrow> key option \<Rightarrow> ('w st, reply) act" where
  "export_memories_tool P ctx =
     seq (policy_export P ctx) (\<lambda>payload.
     ret (Export_of (x_memories payload) (x_count payload) (x_truncated payload)))"

definition import_memories_tool ::
  "'w policy \<Rightarrow> key option \<Rightarrow> (pystr, json) dict list \<Rightarrow> pystr \<Rightarrow> ('w st, reply) act" where
  "import_memories_tool P ctx memories on_conflict =
     seq (policy_import P ctx memories on_conflict) (\<lambda>outcome.
     ret (Import_of (length (imported outcome)) (length (skipped outcome)) (errors outcome)
       (imported outcome) (skipped outcome) (dedup_incomplete outcome)))"

definition memory_history :: "'w policy \<Rightarrow> key option \<Rightarrow> pystr \<Rightarrow> ('w st, reply) act" where
  "memory_history P ctx memory_id =
     seq (policy_history P ctx memory_id) (\<lambda>entries. ret (History_of entries))"

definition memory_entities ::
  "'w policy \<Rightarrow> key option \<Rightarrow> scope option \<Rightarrow> int \<Rightarrow> ('w st, reply) act" where
  "memory_entities P ctx sc limit =
     seq (policy_entities P ctx sc limit) (\<lambda>result.
     ret (Entities_of (er_entities result) (er_relationships result) (er_incomplete result)))"

definition TOOL_FOR :: "(pystr, pystr) dict" where
  "TOOL_FOR =
     [(u ''update'', u ''update_memory''), (u ''list'', u ''list_memories''),
      (u ''history'', u ''memory_history''), (u ''entities'', u ''memory_entities'')]"

text \<open>\<open>capabilities()\<close> is a set: a list without the repetitions. A missing name is KeyError.\<close>

definition memory_status :: "'w policy \<Rightarrow> config \<Rightarrow> ('w st, reply) act" where
  "memory_status P cfg =
     (case all_some (map (map_of TOOL_FOR) (pol_capabilities P)) of
        None \<Rightarrow> raise KeyError
      | Some tools \<Rightarrow>
          ret (Status
            \<lparr>sr_backend = backend_name (memcp_backend cfg), sr_version = version,
             sr_capabilities = sort (fromkeys (u ''get_memory'' # tools)),
             sr_scope_keys = pol_scope_keys P,
             sr_extracts_facts = b_extracts_facts (pol_backend P),
             sr_retrieval = b_retrieval (pol_backend P)\<rparr>))"

fun handler :: "'w policy \<Rightarrow> config \<Rightarrow> key option \<Rightarrow> tool_call \<Rightarrow> ('w st, reply) act" where
  "handler P cfg ctx (Ask (Add content sc md infer)) = add_memory P ctx content sc md infer"
| "handler P cfg ctx (Ask (Search query sc limit threshold)) =
     search_memory P ctx query sc limit threshold"
| "handler P cfg ctx (Ask (Get i)) = get_memory P ctx i"
| "handler P cfg ctx (Ask (Update i content md)) = update_memory P ctx i content md"
| "handler P cfg ctx (Ask (Delete i)) = delete_memory P ctx i"
| "handler P cfg ctx (Ask (Delete_all sc)) = delete_all_memories P ctx sc"
| "handler P cfg ctx (Ask (List sc limit cursor)) = list_memories_tool P ctx sc limit cursor"
| "handler P cfg ctx (Ask (History i)) = memory_history P ctx i"
| "handler P cfg ctx (Ask (Entities sc limit)) = memory_entities P ctx sc limit"
| "handler P cfg ctx (Ask Export) = export_memories_tool P ctx"
| "handler P cfg ctx (Ask (Import memories on_conflict)) =
     import_memories_tool P ctx memories on_conflict"
| "handler P cfg ctx Memory_status = memory_status P cfg"

section \<open>Errors and the call log\<close>

definition backend_error :: "int \<Rightarrow> message \<Rightarrow> pystr \<Rightarrow> ('w st, error_reply) act" where
  "backend_error status body tool =
     seq (log_event (log_backend_error status body (Raw tool))) (\<lambda>_.
     if timed_out status
     then ret (canonical_error (u ''timeout'') (client_message status) True)
     else ret (canonical_error (u ''backend_error'') (client_message status) (status \<ge> 500)))"

definition translate_errors :: "pystr \<Rightarrow> ('w st, reply) act \<Rightarrow> ('w st, reply) act" where
  "translate_errors tool fn =
     catch fn (\<lambda>e.
       case e of
         PolicyError code m \<Rightarrow> ret (Failed (canonical_error (code_text code) m False))
       | MemoryAPIError status body \<Rightarrow>
           seq (backend_error status body tool) (\<lambda>err. ret (Failed err))
       | _ \<Rightarrow> raise e)"

text \<open>Whether a reply is an object with an \<open>error\<close> field: only the canonical error has one.\<close>

definition is_error :: "reply \<Rightarrow> bool" where
  "is_error r = (case r of Failed e \<Rightarrow> True | _ \<Rightarrow> False)"

text \<open>\<open>except Exception\<close> does not catch a cancellation, which passes without a line.\<close>

definition log_tool_call :: "pystr \<Rightarrow> ('w st, reply) act \<Rightarrow> ('w st, reply) act" where
  "log_tool_call tool fn =
     catch (seq fn (\<lambda>result. seq (log_event (Tool_called tool (is_error result))) (\<lambda>_. ret result)))
       (\<lambda>e. if e = CancelledError then raise e
            else seq (log_event (Tool_raised tool)) (\<lambda>_. raise e))"

section \<open>Registration\<close>

text \<open>
  The signature of a handler, from which the SDK derives the tool's schema: each parameter's name,
  the type it is annotated with and its default. \<open>Metadata_arg\<close> and \<open>Metadata_changes_arg\<close> are the
  annotated types of \<open>tools/memories.py\<close>, both \<open>dict[str, Any] | None\<close> with a schema of their own.
\<close>

datatype annotation =
    Str_arg | Int_arg | Float_arg | Bool_arg | Object_arg | Objects_arg
  | Metadata_arg | Metadata_changes_arg | Optional_arg annotation

record parameter =
  pa_name :: pystr
  pa_type :: annotation
  pa_default :: "json option"

definition required :: "string \<Rightarrow> annotation \<Rightarrow> parameter" where
  "required name ty = \<lparr>pa_name = u name, pa_type = ty, pa_default = None\<rparr>"

definition defaulting :: "string \<Rightarrow> annotation \<Rightarrow> json \<Rightarrow> parameter" where
  "defaulting name ty v = \<lparr>pa_name = u name, pa_type = ty, pa_default = Some v\<rparr>"

record tool =
  t_name :: pystr
  t_parameters :: "parameter list"
  t_hints :: "(pystr \<times> bool) list"
  t_description :: pystr

definition READ_ONLY :: "(pystr \<times> bool) list" where
  "READ_ONLY = [(u ''readOnlyHint'', True), (u ''idempotentHint'', True)]"

definition DESTRUCTIVE :: "(pystr \<times> bool) list" where
  "DESTRUCTIVE = [(u ''destructiveHint'', True)]"

definition tool_of ::
  "string \<Rightarrow> parameter list \<Rightarrow> (pystr \<times> bool) list \<Rightarrow> pystr \<Rightarrow> tool" where
  "tool_of name parameters hints description =
     \<lparr>t_name = u name, t_parameters = parameters, t_hints = hints, t_description = description\<rparr>"

text \<open>What each tool says of itself.\<close>

definition add_memory_text :: "bool \<Rightarrow> pystr" where
  "add_memory_text extracts_facts =
     (if extracts_facts
      then u ''Store a fact/preference/decision. Extracts salient facts by default (may store ''
           @ u ''nothing); infer=false for verbatim. Each result's event says whether extraction ''
           @ u ''added, updated or deleted that memory. Bulk: use import_memories.''
      else u ''Store a fact/preference/decision. This backend has no model behind it, so ''
           @ u ''content is stored verbatim and the infer argument is accepted but has no ''
           @ u ''effect. Bulk: use import_memories.'')"

definition search_memory_text :: pystr where
  "search_memory_text =
     u ''Semantic search ranked by relevance. threshold: minimum similarity (0-1). ''
     @ u ''Unranked browsing: use list_memories.''"

definition delete_memory_text :: pystr where
  "delete_memory_text =
     u ''Delete one memory by memory_id. Confirm with user first.''"

definition get_memory_text :: pystr where
  "get_memory_text =
     u ''Fetch a single memory by ID. Returns full content, scope, and metadata.''"

definition update_memory_text :: pystr where
  "update_memory_text =
     u ''Update a memory by memory_id. Give `content`, `metadata` or both. `content` ''
     @ u ''replaces its text. `metadata` is a patch: keys you list are set, a key set to ''
     @ u ''null is removed, keys you leave out are kept. Returns the updated memory. Scope ''
     @ u ''is immutable; to change it, add a new memory and delete the old one.''"

definition delete_all_memories_text :: pystr where
  "delete_all_memories_text =
     u ''Bulk-delete memories matching a scope (e.g. agent_id, run_id). Deletes by scope ''
     @ u ''structure, not content. Requires at least one scope key, each with a concrete ''
     @ u ''value. Confirm with user first.''"

definition list_memories_text :: pystr where
  "list_memories_text =
     u ''Browse memories, optionally filtered by scope. Unranked, paginated. incomplete: ''
     @ u ''true, on any page, means memories may exist that no page reaches. Semantic ''
     @ u ''queries: use search_memory.''"

definition export_memories_text :: pystr where
  "export_memories_text =
     u ''Export all memories as JSON. For backup/migration ''
     @ [8212]
     @ u '' output compatible with import_memories. truncated: true means some memories ''
     @ u ''may have been left out. Browsing: list_memories; search: search_memory.''"

definition import_memories_text :: pystr where
  "import_memories_text =
     u ''Batch-import from JSON array. Each entry needs 'content'; optional ''
     @ u '''scope'/'metadata'. Stored verbatim (no extraction). Deduped by content within ''
     @ u ''the same scope ''
     @ [8212]
     @ u '' identical content in a different scope is a distinct memory. on_conflict: skip ''
     @ u ''(default), overwrite, duplicate. overwrite replaces the memory's metadata when ''
     @ u ''the entry has 'metadata', and keeps it otherwise. dedup_incomplete: true means ''
     @ u ''dedup may have missed existing memories, so duplicates are possible.''"

definition memory_status_text :: pystr where
  "memory_status_text =
     u ''Returns server version, backend type, capabilities, and valid scope keys. No ''
     @ u ''memory content.''"

definition memory_history_text :: pystr where
  "memory_history_text =
     u ''Change log for a memory: timestamps and previous/current content per ''
     @ u ''create/update event.''"

definition memory_entities_text :: pystr where
  "memory_entities_text =
     u ''Knowledge graph: entities and relationships from memories. incomplete: true ''
     @ u ''means the counts may miss some memories. Not a search tool ''
     @ [8212]
     @ u '' use search_memory for topics.''"

text \<open>The signatures.\<close>

definition scope_parameter :: parameter where
  "scope_parameter = defaulting ''scope'' (Optional_arg Object_arg) JNull"

definition add_memory_parameters :: "parameter list" where
  "add_memory_parameters =
     [required ''content'' Str_arg, scope_parameter, defaulting ''metadata'' Metadata_arg JNull,
      defaulting ''infer'' Bool_arg (JBool True)]"

definition search_memory_parameters :: "parameter list" where
  "search_memory_parameters =
     [required ''query'' Str_arg, scope_parameter, defaulting ''limit'' Int_arg (JInt 10),
      defaulting ''threshold'' Float_arg (JFloat (Finite (u ''0.0'')))]"

definition by_id_parameters :: "parameter list" where
  "by_id_parameters = [required ''memory_id'' Str_arg]"

definition update_memory_parameters :: "parameter list" where
  "update_memory_parameters =
     [required ''memory_id'' Str_arg, defaulting ''content'' (Optional_arg Str_arg) JNull,
      defaulting ''metadata'' Metadata_changes_arg JNull]"

definition delete_all_memories_parameters :: "parameter list" where
  "delete_all_memories_parameters = [required ''scope'' Object_arg]"

definition list_memories_parameters :: "parameter list" where
  "list_memories_parameters =
     [scope_parameter, defaulting ''limit'' Int_arg (JInt 100),
      defaulting ''cursor'' (Optional_arg Str_arg) JNull]"

definition import_memories_parameters :: "parameter list" where
  "import_memories_parameters =
     [required ''memories'' Objects_arg, defaulting ''on_conflict'' Str_arg (JStr (u ''skip''))]"

definition memory_entities_parameters :: "parameter list" where
  "memory_entities_parameters = [scope_parameter, defaulting ''limit'' Int_arg (JInt 100)]"

definition register_memories :: "pystr list \<Rightarrow> bool \<Rightarrow> tool list" where
  "register_memories caps extracts_facts =
     [tool_of ''add_memory'' add_memory_parameters [] (add_memory_text extracts_facts),
      tool_of ''search_memory'' search_memory_parameters READ_ONLY search_memory_text,
      tool_of ''delete_memory'' by_id_parameters DESTRUCTIVE delete_memory_text,
      tool_of ''get_memory'' by_id_parameters READ_ONLY get_memory_text]
     @ (if u ''update'' \<in> set caps
        then [tool_of ''update_memory'' update_memory_parameters
                [(u ''idempotentHint'', True), (u ''destructiveHint'', True)] update_memory_text]
        else [])"

definition register_bulk :: "pystr list \<Rightarrow> tool list" where
  "register_bulk caps =
     tool_of ''delete_all_memories'' delete_all_memories_parameters DESTRUCTIVE delete_all_memories_text
     # (if u ''list'' \<in> set caps
        then [tool_of ''list_memories'' list_memories_parameters READ_ONLY list_memories_text] else [])"

definition register_transfer :: "pystr list \<Rightarrow> tool list" where
  "register_transfer caps =
     (if u ''list'' \<in> set caps
      then [tool_of ''export_memories'' [] READ_ONLY export_memories_text,
            tool_of ''import_memories'' import_memories_parameters [] import_memories_text] else [])"

definition register_insight :: "pystr list \<Rightarrow> tool list" where
  "register_insight caps =
     tool_of ''memory_status'' [] READ_ONLY memory_status_text
     # (if u ''history'' \<in> set caps
        then [tool_of ''memory_history'' by_id_parameters READ_ONLY memory_history_text] else [])
     @ (if u ''entities'' \<in> set caps
        then [tool_of ''memory_entities'' memory_entities_parameters READ_ONLY memory_entities_text] else [])"

definition register_tools :: "'w policy \<Rightarrow> tool list" where
  "register_tools P =
     (let caps = pol_capabilities P
      in register_memories caps (b_extracts_facts (pol_backend P)) @ register_bulk caps
         @ register_transfer caps @ register_insight caps)"

text \<open>A call of a tool by its name: \<open>None\<close> when no tool of that name is registered.\<close>

definition call_tool ::
  "'w policy \<Rightarrow> config \<Rightarrow> key option \<Rightarrow> tool_call \<Rightarrow> ('w st, reply) act option" where
  "call_tool P cfg ctx c =
     (if tool_name c \<in> set (map t_name (register_tools P))
      then Some (log_tool_call (tool_name c) (translate_errors (tool_name c) (handler P cfg ctx c)))
      else None)"

section \<open>What the client sees\<close>

definition add_reply :: "add_return \<Rightarrow> reply" where
  "add_reply result = (if add_truthy result then serialize_add_result result else Nothing_extracted)"

fun reply_for :: "response \<Rightarrow> reply" where
  "reply_for (Added result) = add_reply result"
| "reply_for (Found ms) = Results (map serialize_memory ms)"
| "reply_for (Got m) = One_memory (serialize_memory m)"
| "reply_for (Updated_memory m) = One_memory (serialize_memory m)"
| "reply_for (Deleted b) = Deleted_flag b"
| "reply_for (Deleted_all n) = Deleted_count n"
| "reply_for (Listed page) =
     Page (map serialize_memory (l_memories page)) (l_next_cursor page) (l_incomplete page)"
| "reply_for (Trail es) = History_of es"
| "reply_for (Entity_counts r) = Entities_of (er_entities r) (er_relationships r) (er_incomplete r)"
| "reply_for (Exported x) = Export_of (x_memories x) (x_count x) (x_truncated x)"
| "reply_for (Import_done o') =
     Import_of (length (imported o')) (length (skipped o')) (errors o') (imported o') (skipped o')
       (dedup_incomplete o')"

lemma mapped_mapped: "mapped g (mapped f m) = mapped (\<lambda>x. g (f x)) m"
  by (rule ext) (simp add: mapped_run map_sum.compositionality comp_def id_def split: prod.splits)

lemmas handler_defs = add_memory_def search_memory_def delete_memory_def get_memory_def
  update_memory_def delete_all_memories_def list_memories_tool_def export_memories_tool_def
  import_memories_tool_def memory_history_def memory_entities_def

lemma handler_perform: "handler P cfg ctx (Ask r) = mapped reply_for (perform P ctx r)"
proof -
  have add: "seq m (\<lambda>result. if \<not> add_truthy result then ret Nothing_extracted
      else ret (serialize_add_result result)) = mapped add_reply m" for m :: "('w st, add_return) act"
    unfolding mapped_def by (rule arg_cong [where f = "seq m"]) (auto simp: add_reply_def)
  show ?thesis
    by (cases r) (simp_all add: handler_defs mapped_mapped add, simp_all add: mapped_def)
qed

definition error_of_status :: "int \<Rightarrow> error_reply" where
  "error_of_status status =
     \<lparr>ce_code = (if status = 408 then u ''timeout'' else u ''backend_error''),
      ce_message = client_message status, ce_retry = (status = 408 \<or> 500 \<le> status)\<rparr>"

lemma backend_error_run:
  "backend_error status body tool s =
     (Inr (error_of_status status),
      s\<lparr>server_log := server_log s @ [Backend_error_logged status (Raw tool) (Cut MAX_LOGGED_BODY body)]\<rparr>)"
  by (simp add: backend_error_def act_simps log_backend_error_def timed_out_def canonical_error_def
      error_of_status_def)

lemma no_is_error: "\<not> is_error (reply_for y)"
  by (cases y) (simp_all add: is_error_def add_reply_def serialize_add_result_def split: add_return.splits)

lemma tool_outcome:
  assumes "call_tool P cfg ctx (Ask r) = Some m" and "perform P ctx r s = (x, t)"
  shows "m s =
    (let logged = (\<lambda>evs. t\<lparr>server_log := server_log t @ evs\<rparr>); tool = tool_name (Ask r)
     in case x of
          Inr y \<Rightarrow> (Inr (reply_for y), logged [Tool_called tool False])
        | Inl (PolicyError code msg) \<Rightarrow>
            (Inr (Failed \<lparr>ce_code = code_text code, ce_message = msg, ce_retry = False\<rparr>),
             logged [Tool_called tool True])
        | Inl (MemoryAPIError status body) \<Rightarrow>
            (Inr (Failed (error_of_status status)),
             logged [Backend_error_logged status (Raw tool) (Cut MAX_LOGGED_BODY body),
                     Tool_called tool True])
        | Inl CancelledError \<Rightarrow> (Inl CancelledError, t)
        | Inl e \<Rightarrow> (Inl e, logged [Tool_raised tool]))"
proof -
  have m: "m = log_tool_call (tool_name (Ask r)) (translate_errors (tool_name (Ask r))
      (mapped reply_for (perform P ctx r)))"
    using assms(1) by (simp add: call_tool_def handler_perform split: if_splits)
  show ?thesis
  proof (cases x)
    case (Inr y)
    with assms(2) show ?thesis
      by (simp add: m log_tool_call_def translate_errors_def mapped_run act_simps no_is_error)
  next
    case (Inl e)
    with assms(2) show ?thesis
      by (cases e) (simp_all add: m log_tool_call_def translate_errors_def mapped_run act_simps
          backend_error_run canonical_error_def is_error_def Let_def)
  qed
qed

text \<open>
  Property C34: what a tool makes of each outcome of policy. A result becomes the tool's
  reply; a refusal becomes the error with policy's code and message, not retryable; a store's
  failure becomes \<open>timeout\<close> or \<open>backend_error\<close> with a message that depends on the status alone,
  retryable for a 408 or a 5xx, while the store's own text goes, cut, to the server log; any other
  exception leaves the tool. Each call logs one line more, a cancelled one none.
\<close>

theorem tool_call_outcome:
  assumes "call_tool P cfg ctx (Ask r) = Some m" and "perform P ctx r s = (x, t)"
  shows "m s =
    (let logged = (\<lambda>evs. t\<lparr>server_log := server_log t @ evs\<rparr>); tool = tool_name (Ask r)
     in case x of
          Inr y \<Rightarrow> (Inr (reply_for y), logged [Tool_called tool False])
        | Inl (PolicyError code msg) \<Rightarrow>
            (Inr (Failed \<lparr>ce_code = code_text code, ce_message = msg, ce_retry = False\<rparr>),
             logged [Tool_called tool True])
        | Inl (MemoryAPIError status body) \<Rightarrow>
            (Inr (Failed (error_of_status status)),
             logged [Backend_error_logged status (Raw tool) (Cut MAX_LOGGED_BODY body),
                     Tool_called tool True])
        | Inl CancelledError \<Rightarrow> (Inl CancelledError, t)
        | Inl e \<Rightarrow> (Inl e, logged [Tool_raised tool]))"
  by (rule tool_outcome [OF assms])

text \<open>A reader that tries to write, through the tool.\<close>

lemma call_add: "call_tool P cfg ctx (Ask (Add c sc md infer)) =
    Some (log_tool_call (u ''add_memory'') (translate_errors (u ''add_memory'')
      (handler P cfg ctx (Ask (Add c sc md infer)))))"
  by (simp add: call_tool_def register_tools_def Let_def register_memories_def tool_of_def)

theorem tool_call_outcome_witness:
  "\<exists>m. call_tool demo_policy (config_defaults Kind_in_memory) (Some ray) (Ask add_hi) = Some m
     \<and> fst (m (start demo_env)) =
       Inr (Failed \<lparr>ce_code = u ''forbidden'', ce_message = Policy_msg Forbidden_write, ce_retry = False\<rparr>)"
proof -
  obtain m where m: "call_tool demo_policy (config_defaults Kind_in_memory) (Some ray) (Ask add_hi) = Some m"
    unfolding add_hi_def call_add by blast
  have "fst (perform demo_policy (Some ray) add_hi (start demo_env)) =
      Inl (PolicyError Forbidden (Policy_msg Forbidden_write))"
    by (simp add: demo_defs eval_simps)
  then obtain t where "perform demo_policy (Some ray) add_hi (start demo_env) =
      (Inl (PolicyError Forbidden (Policy_msg Forbidden_write)), t)"
    by (metis prod.collapse)
  from tool_call_outcome [OF m this] m show ?thesis by (simp add: Let_def)
qed

section \<open>Replies have their tool's shape\<close>

definition documented_codes :: "pystr set" where
  "documented_codes =
     {u ''validation_error'', u ''invalid_scope'', u ''nested_filter'', u ''scope_required'',
      u ''forbidden'', u ''not_found'', u ''not_supported'', u ''internal_error'', u ''timeout'',
      u ''backend_error''}"

text \<open>The wire form of memories in the space \<open>p\<close>.\<close>

definition wires_of :: "pystr \<Rightarrow> wire list \<Rightarrow> bool" where
  "wires_of p ws \<longleftrightarrow> (\<exists>ms. list_all (\<lambda>m. in_space m p) ms \<and> ws = map serialize_memory ms)"

fun reply_fits :: "pystr \<Rightarrow> tool_call \<Rightarrow> reply \<Rightarrow> bool" where
  "reply_fits p c (Failed e) \<longleftrightarrow> ce_code e \<in> documented_codes"
| "reply_fits p c Nothing_extracted \<longleftrightarrow> tool_name c = u ''add_memory''"
| "reply_fits p c (One_added x) \<longleftrightarrow> tool_name c = u ''add_memory''"
| "reply_fits p c (Many_added xs) \<longleftrightarrow> tool_name c = u ''add_memory'' \<and> xs \<noteq> []"
| "reply_fits p c (Results ws) \<longleftrightarrow> tool_name c = u ''search_memory'' \<and> wires_of p ws"
| "reply_fits p c (Deleted_flag b) \<longleftrightarrow> tool_name c = u ''delete_memory''"
| "reply_fits p c (One_memory w) \<longleftrightarrow>
     tool_name c \<in> {u ''get_memory'', u ''update_memory''} \<and> wires_of p [w]"
| "reply_fits p c (Deleted_count n) \<longleftrightarrow> tool_name c = u ''delete_all_memories''"
| "reply_fits p c (Page ws next_cursor incomplete) \<longleftrightarrow>
     tool_name c = u ''list_memories'' \<and> wires_of p ws"
| "reply_fits p c (History_of es) \<longleftrightarrow> tool_name c = u ''memory_history''"
| "reply_fits p c (Entities_of es rs incomplete) \<longleftrightarrow> tool_name c = u ''memory_entities''"
| "reply_fits p c (Export_of ws n truncated) \<longleftrightarrow> tool_name c = u ''export_memories'' \<and> wires_of p ws"
| "reply_fits p c (Import_of n k es rs sk incomplete) \<longleftrightarrow>
     tool_name c = u ''import_memories'' \<and> n = length rs \<and> k = length sk"
| "reply_fits p c (Status st) \<longleftrightarrow> c = Memory_status"

text \<open>Each operation answers with its own kind of response.\<close>

fun response_kind :: "response \<Rightarrow> string" where
  "response_kind (Added x) = ''add''"
| "response_kind (Found x) = ''search''"
| "response_kind (Got x) = ''get''"
| "response_kind (Updated_memory x) = ''update''"
| "response_kind (Deleted x) = ''delete''"
| "response_kind (Deleted_all x) = ''delete_all''"
| "response_kind (Listed x) = ''list_memories''"
| "response_kind (Trail x) = ''history''"
| "response_kind (Entity_counts x) = ''entities''"
| "response_kind (Exported x) = ''export_memories''"
| "response_kind (Import_done x) = ''import_memories''"

lemma mapped_Inr: "mapped f m s = (Inr y, t) \<Longrightarrow> \<exists>x. y = f x"
  by (cases "fst (m s)") (auto simp: mapped_run split: prod.splits)

lemma perform_kind: "perform P ctx r s = (Inr y, t) \<Longrightarrow> u (response_kind y) = operation_name r"
  by (cases r) (auto dest!: mapped_Inr)

lemma code_text_documented: "code_text code \<in> documented_codes"
  by (cases code) (simp_all add: documented_codes_def)

lemma reply_for_fits:
  assumes "perform P (Some key) r s = (Inr y, t)"
  shows "reply_fits (g_space (k_grant key)) (Ask r) (reply_for y)"
proof -
  let ?p = "g_space (k_grant key)"
  have kind: "u (response_kind y) = operation_name r" by (rule perform_kind [OF assms])
  have "response_in_space ?p y" by (rule ensuresD [OF ensures_response assms])
  then show ?thesis
    using kind
    by (cases y; cases r)
      (auto simp: wires_of_def add_reply_def serialize_add_result_def add_truthy_def
        split: add_return.splits intro: exI [of _ "[m]" for m])
qed

lemma error_of_status_documented: "ce_code (error_of_status status) \<in> documented_codes"
  by (simp add: error_of_status_def documented_codes_def)

text \<open>
  Property C33: the type of a reply. Over any backend, what a tool returns has the shape of
  that tool or is an error with a documented code, and every memory it shows is the wire form of
  one in the caller's space.
\<close>

theorem tool_reply_typed:
  assumes "call_tool P cfg (Some key) c = Some m" and "m s = (Inr y, t)"
  shows "reply_fits (g_space (k_grant key)) c y"
proof (cases c)
  case Memory_status
  with assms show ?thesis
    by (auto simp: call_tool_def log_tool_call_def translate_errors_def memory_status_def act_simps
        split: if_splits option.splits)
next
  case (Ask r)
  obtain x s' where run: "perform P (Some key) r s = (x, s')" by fastforce
  note out = tool_outcome [OF assms(1) [unfolded Ask] run, unfolded assms(2)]
  show ?thesis
  proof (cases x)
    case (Inr z)
    with out run reply_for_fits show ?thesis by (auto simp: Ask Let_def)
  next
    case (Inl e)
    with out show ?thesis
      by (cases e) (auto simp: Let_def code_text_documented error_of_status_documented)
  qed
qed

theorem tool_reply_typed_witness:
  "\<exists>m y. call_tool demo_policy (config_defaults Kind_in_memory) (Some ray) (Ask (Get [97])) = Some m
     \<and> fst (m (start demo_one)) = Inr y \<and> reply_fits (u ''red'') (Ask (Get [97])) y"
proof -
  obtain m where m: "call_tool demo_policy (config_defaults Kind_in_memory) (Some ray) (Ask (Get [97])) = Some m"
    by (simp add: call_tool_def register_tools_def Let_def register_memories_def tool_of_def)
  obtain x t where "perform demo_policy (Some ray) (Get [97]) (start demo_one) = (Inr x, t)"
    using demo_get by (metis prod.collapse)
  from tool_outcome [OF m this] obtain y t' where "m (start demo_one) = (Inr y, t')"
    by (simp add: Let_def)
  with tool_reply_typed [OF m this] m show ?thesis by (auto simp: ray_def)
qed

section \<open>Which tools are offered\<close>

definition BASIC_TOOLS :: "pystr set" where
  "BASIC_TOOLS = {u ''add_memory'', u ''search_memory'', u ''delete_memory'', u ''get_memory'',
     u ''delete_all_memories'', u ''memory_status''}"

text \<open>The optional tools, by the capability that brings them (the table of \<open>docs/reference.md\<close>).\<close>

definition optional_tools :: "pystr \<Rightarrow> pystr set" where
  "optional_tools capability =
     (if capability = u ''update'' then {u ''update_memory''}
      else if capability = u ''list'' then {u ''list_memories'', u ''export_memories'', u ''import_memories''}
      else if capability = u ''history'' then {u ''memory_history''}
      else if capability = u ''entities'' then {u ''memory_entities''}
      else {})"

lemma all_some_map: "(\<forall>x \<in> set xs. f x \<noteq> None) \<Longrightarrow> all_some (map f xs) = Some (map (the \<circ> f) xs)"
  by (induction xs) auto

lemma all_capabilities:
  "set ALL_CAPABILITIES = {u ''update'', u ''list'', u ''history'', u ''entities''}"
  by (auto simp: ALL_CAPABILITIES_def OPTIONAL_CAPABILITIES_def dict_keys_def)

lemma known_capabilities: "policy_init B = Inr P \<Longrightarrow> set (pol_capabilities P) \<subseteq> set ALL_CAPABILITIES"
  by (auto simp: policy_init_def Let_def filter_empty_conv split: if_splits)

lemma tool_for_names:
  "the (map_of TOOL_FOR (u ''update'')) = u ''update_memory''"
  "the (map_of TOOL_FOR (u ''list'')) = u ''list_memories''"
  "the (map_of TOOL_FOR (u ''history'')) = u ''memory_history''"
  "the (map_of TOOL_FOR (u ''entities'')) = u ''memory_entities''"
  by (simp_all add: TOOL_FOR_def)

lemma registered_names:
  "map t_name (register_tools P) =
     (let caps = set (pol_capabilities P)
      in [u ''add_memory'', u ''search_memory'', u ''delete_memory'', u ''get_memory'']
         @ (if u ''update'' \<in> caps then [u ''update_memory''] else []) @ [u ''delete_all_memories'']
         @ (if u ''list'' \<in> caps then [u ''list_memories'', u ''export_memories'', u ''import_memories''] else [])
         @ [u ''memory_status'']
         @ (if u ''history'' \<in> caps then [u ''memory_history''] else [])
         @ (if u ''entities'' \<in> caps then [u ''memory_entities''] else []))"
  by (simp add: register_tools_def register_memories_def register_bulk_def register_transfer_def
      register_insight_def Let_def tool_of_def)

lemma registered_distinct: "distinct (map t_name (register_tools P))"
  unfolding registered_names Let_def by simp

lemma registered_basic: "BASIC_TOOLS \<subseteq> set (map t_name (register_tools P))"
  unfolding registered_names Let_def BASIC_TOOLS_def by simp

lemma tools_for:
  assumes "set caps \<subseteq> set ALL_CAPABILITIES"
  shows "(the \<circ> map_of TOOL_FOR) ` set caps =
     (if u ''update'' \<in> set caps then {u ''update_memory''} else {})
     \<union> (if u ''list'' \<in> set caps then {u ''list_memories''} else {})
     \<union> (if u ''history'' \<in> set caps then {u ''memory_history''} else {})
     \<union> (if u ''entities'' \<in> set caps then {u ''memory_entities''} else {})"
proof -
  have "set caps = set caps \<inter> set ALL_CAPABILITIES" using assms by blast
  then have "(the \<circ> map_of TOOL_FOR) ` set caps = (the \<circ> map_of TOOL_FOR) ` (set caps \<inter> set ALL_CAPABILITIES)"
    by simp
  also have "\<dots> = (if u ''update'' \<in> set caps then {u ''update_memory''} else {})
     \<union> (if u ''list'' \<in> set caps then {u ''list_memories''} else {})
     \<union> (if u ''history'' \<in> set caps then {u ''memory_history''} else {})
     \<union> (if u ''entities'' \<in> set caps then {u ''memory_entities''} else {})"
    unfolding all_capabilities Int_insert_right by (simp add: tool_for_names insert_commute)
  finally show ?thesis .
qed

lemma registered_set:
  assumes "set (pol_capabilities P) \<subseteq> set ALL_CAPABILITIES"
  shows "set (map t_name (register_tools P)) =
    BASIC_TOOLS \<union> (\<Union>c \<in> set (pol_capabilities P). optional_tools c)"
proof -
  have "(\<Union>c \<in> set (pol_capabilities P). optional_tools c) =
      (\<Union>c \<in> {c \<in> set ALL_CAPABILITIES. c \<in> set (pol_capabilities P)}. optional_tools c)"
    using assms by blast
  also have "\<dots> = (if u ''update'' \<in> set (pol_capabilities P) then optional_tools (u ''update'') else {})
      \<union> (if u ''list'' \<in> set (pol_capabilities P) then optional_tools (u ''list'') else {})
      \<union> (if u ''history'' \<in> set (pol_capabilities P) then optional_tools (u ''history'') else {})
      \<union> (if u ''entities'' \<in> set (pol_capabilities P) then optional_tools (u ''entities'') else {})"
    unfolding all_capabilities by auto
  finally show ?thesis
    unfolding registered_names Let_def BASIC_TOOLS_def
    by (simp add: optional_tools_def) blast
qed

lemma accepted_capabilities:
  "policy_init B = Inr P \<Longrightarrow> set (pol_capabilities P) = set (b_capabilities B)"
  by (auto simp: policy_init_def Let_def split: if_splits)

text \<open>
  Property C35: the tools on offer. For every backend policy accepts, the registered
  tools are the six basic ones and those its declared capabilities bring, no other and none twice: \<open>list\<close>
  brings \<open>list_memories\<close>, \<open>export_memories\<close> and \<open>import_memories\<close>, each other capability its one tool.
  \<open>memory_status\<close> answers, changing nothing, with \<open>get_memory\<close> and for each capability the tool named
  after it, sorted and without repetition: of the optional tools that are registered it leaves out
  \<open>export_memories\<close> and \<open>import_memories\<close>.
\<close>

theorem tools_offered:
  assumes "policy_init B = Inr P"
  shows "distinct (map t_name (register_tools P))
    \<and> set (map t_name (register_tools P)) =
        BASIC_TOOLS \<union> (\<Union>c \<in> set (b_capabilities B). optional_tools c)
    \<and> (\<exists>st. memory_status P cfg s = (Inr (Status st), s)
        \<and> set (sr_capabilities st) = insert (u ''get_memory'')
            (set (map t_name (register_tools P)) - BASIC_TOOLS - {u ''export_memories'', u ''import_memories''})
        \<and> sorted (sr_capabilities st) \<and> distinct (sr_capabilities st))"
proof -
  note caps = known_capabilities [OF assms]
  have "\<forall>c \<in> set (pol_capabilities P). map_of TOOL_FOR c \<noteq> None"
    using caps by (auto simp: all_capabilities TOOL_FOR_def)
  note found = all_some_map [OF this]
  have same: "(the \<circ> map_of TOOL_FOR) ` set (pol_capabilities P) =
      set (map t_name (register_tools P)) - BASIC_TOOLS - {u ''export_memories'', u ''import_memories''}"
    unfolding tools_for [OF caps] registered_names Let_def BASIC_TOOLS_def by (intro set_eqI) auto
  have offered: "set (map t_name (register_tools P)) =
      BASIC_TOOLS \<union> (\<Union>c \<in> set (b_capabilities B). optional_tools c)"
    using registered_set [OF caps] accepted_capabilities [OF assms] by simp
  have "\<exists>st. memory_status P cfg s = (Inr (Status st), s)
      \<and> set (sr_capabilities st) = insert (u ''get_memory'') ((the \<circ> map_of TOOL_FOR) ` set (pol_capabilities P))
      \<and> sorted (sr_capabilities st) \<and> distinct (sr_capabilities st)"
    unfolding memory_status_def found by (simp add: ret_run)
  then show ?thesis
    using registered_distinct [of P] offered unfolding same by blast
qed

theorem tools_offered_witness:
  "\<exists>P st. policy_init (in_memory_backend plain_ucd) = Inr P
     \<and> memory_status P (config_defaults Kind_in_memory) (start demo_env) = (Inr (Status st), start demo_env)
     \<and> u ''export_memories'' \<in> set (map t_name (register_tools P))"
proof -
  obtain P where P: "policy_init (in_memory_backend plain_ucd) = Inr P"
    by (simp add: policy_init_def in_memory_backend_def all_capabilities RETRIEVAL_KINDS_def)
  have "u ''list'' \<in> set (b_capabilities (in_memory_backend plain_ucd))"
    by (simp add: in_memory_backend_def)
  then have "u ''export_memories'' \<in> (\<Union>c \<in> set (b_capabilities (in_memory_backend plain_ucd)). optional_tools c)"
    by (rule UN_I) (simp add: optional_tools_def)
  with P tools_offered [OF P, of "config_defaults Kind_in_memory" "start demo_env"] show ?thesis
    by blast
qed

end
