(* ===== verification/Gate.thy ===== *)
theory Gate
  imports Auth
begin

text \<open>
  The ASGI side of \<open>memcp/http\<close>: \<open>BearerGate\<close> of \<open>auth.py\<close> and \<open>_ensure_accept\<close> of \<open>app.py\<close>. An ASGI
  application is an action on a state that holds the context variable of the current key, the
  events sent to the client, the warnings logged, and whatever the application keeps
  (\<open>app_state\<close>). Bytes are lists of their values. The lemmas: as whom each request of a sequence is
  served, what a refused one gets, and that the key never outlives its request.
\<close>

section \<open>Scopes, events and state\<close>

record asgi_scope =
  as_type :: pystr
  as_path :: "pystr option"
  as_headers :: "(pystr \<times> pystr) list option"

datatype asgi_body = Error_body error_reply | Other_body pystr

datatype asgi_event =
    Response_start int "(pystr \<times> pystr) list"
  | Response_body asgi_body bool

datatype gate_warning = Missing_prefix "pystr option" | Bad_token "pystr option"

record 'w asgi =
  cur_key :: "key option"
  app_state :: 'w
  sent :: "asgi_event list"
  gate_log :: "gate_warning list"

type_synonym 'w asgi_app = "asgi_scope \<Rightarrow> ('w asgi, unit) act"

definition as_headers_list :: "asgi_scope \<Rightarrow> (pystr \<times> pystr) list" where
  "as_headers_list sc = (case as_headers sc of None \<Rightarrow> [] | Some hs \<Rightarrow> hs)"

section \<open>The bearer gate\<close>

definition send_401 :: "('w asgi, unit) act" where
  "send_401 =
     (let err = canonical_error (u ''unauthorized'') Invalid_token False
      in seq (modify (\<lambda>s. s\<lparr>sent := sent s @
           [Response_start 401
              [(u ''content-type'', u ''application/json''), (u ''www-authenticate'', u ''Bearer'')]]\<rparr>)) (\<lambda>_.
         modify (\<lambda>s. s\<lparr>sent := sent s @ [Response_body (Error_body err) False]\<rparr>)))"

definition warn :: "gate_warning \<Rightarrow> ('w asgi, unit) act" where
  "warn w = modify (\<lambda>s. s\<lparr>gate_log := gate_log s @ [w]\<rparr>)"

text \<open>\<open>set_key\<close> before, \<open>reset_key\<close> in the \<open>finally\<close>: also when the application raises.\<close>

definition serve_as :: "key \<Rightarrow> ('w asgi, 'a) act \<Rightarrow> ('w asgi, 'a) act" where
  "serve_as key m = (\<lambda>s.
     let (token, ctx) = set_key key (cur_key s);
         (r, t) = m (s\<lparr>cur_key := ctx\<rparr>)
     in (r, t\<lparr>cur_key := reset_key token\<rparr>))"

definition provided :: "(pystr \<Rightarrow> pystr) \<Rightarrow> asgi_scope \<Rightarrow> pystr" where
  "provided decode sc =
     (let headers = dict_update [] (as_headers_list sc)
      in decode (case map_of headers (u ''authorization'') of None \<Rightarrow> [] | Some v \<Rightarrow> v))"

definition bearer_gate ::
  "(pystr \<Rightarrow> pystr) \<Rightarrow> (pystr \<Rightarrow> pystr) \<Rightarrow> key_table option \<Rightarrow> 'w asgi_app \<Rightarrow> 'w asgi_app" where
  "bearer_gate sha256 decode keys app sc =
     (if as_type sc \<noteq> u ''http'' then app sc
      else
        case keys of
          None \<Rightarrow> serve_as LOCAL_KEY (app sc)
        | Some T \<Rightarrow>
            (let text = provided decode sc
             in if \<not> prefix (u ''Bearer '') text
                then seq (warn (Missing_prefix (as_path sc))) (\<lambda>_. send_401)
                else
                  (case resolve sha256 T (drop 7 text) of
                     None \<Rightarrow> seq (warn (Bad_token (as_path sc))) (\<lambda>_. send_401)
                   | Some key \<Rightarrow> serve_as key (app sc))))"

section \<open>The Accept header\<close>

definition byte_space :: "uchar \<Rightarrow> bool" where
  "byte_space c \<longleftrightarrow> c = 32 \<or> (9 \<le> c \<and> c \<le> 13)"

definition REQUIRED_ACCEPT :: pystr where
  "REQUIRED_ACCEPT = u ''text/event-stream, application/json''"

definition accept_parts :: "(pystr \<times> pystr) list \<Rightarrow> pystr set" where
  "accept_parts headers =
     set (concat (map (\<lambda>(k, v).
       if k = u ''accept''
       then map (\<lambda>p. hd (split_on 59 (strip_by byte_space p))) (split_on 44 v)
       else []) headers))"

definition with_accept :: "asgi_scope \<Rightarrow> asgi_scope" where
  "with_accept sc =
     (if as_type sc = u ''http''
         \<and> prefix (u ''/mcp'') (case as_path sc of None \<Rightarrow> [] | Some p \<Rightarrow> p)
      then
        let headers = as_headers_list sc
        in if u ''text/event-stream'' \<notin> accept_parts headers
           then sc\<lparr>as_headers := Some (filter (\<lambda>(k, v). k \<noteq> u ''accept'') headers
                  @ [(u ''accept'', REQUIRED_ACCEPT)])\<rparr>
           else sc
      else sc)"

definition ensure_accept :: "'w asgi_app \<Rightarrow> 'w asgi_app" where
  "ensure_accept mcp_starlette sc = mcp_starlette (with_accept sc)"

lemma accept_parts_required:
  "u ''text/event-stream'' \<in> accept_parts [(u ''accept'', REQUIRED_ACCEPT)]
   \<and> u ''application/json'' \<in> accept_parts [(u ''accept'', REQUIRED_ACCEPT)]"
  by (simp add: accept_parts_def REQUIRED_ACCEPT_def u_def strip_by_def byte_space_def)

lemma accept_parts_append: "accept_parts (hs @ hs') = accept_parts hs \<union> accept_parts hs'"
  by (simp add: accept_parts_def)

text \<open>The MCP endpoint always sees the event-stream media type accepted; nothing else changes.\<close>

lemma with_accept_streams:
  "as_type sc = u ''http'' \<Longrightarrow> as_path sc = Some p \<Longrightarrow> prefix (u ''/mcp'') p \<Longrightarrow>
   u ''text/event-stream'' \<in> accept_parts (as_headers_list (with_accept sc))"
  using accept_parts_required
  by (simp add: with_accept_def Let_def as_headers_list_def accept_parts_append split: option.splits)

lemma with_accept_keeps:
  "as_type (with_accept sc) = as_type sc \<and> as_path (with_accept sc) = as_path sc"
  "k \<noteq> u ''accept'' \<Longrightarrow>
     filter (\<lambda>(k', v). k' = k) (as_headers_list (with_accept sc)) =
     filter (\<lambda>(k', v). k' = k) (as_headers_list sc)"
proof -
  show "as_type (with_accept sc) = as_type sc \<and> as_path (with_accept sc) = as_path sc"
    by (simp add: with_accept_def Let_def)
  assume "k \<noteq> u ''accept''"
  then have "filter (\<lambda>(k', v). k' = k) (filter (\<lambda>(k', v). k' \<noteq> u ''accept'') hs) =
      filter (\<lambda>(k', v). k' = k) hs" for hs :: "(pystr \<times> pystr) list"
    by (induction hs) auto
  with \<open>k \<noteq> u ''accept''\<close> show "filter (\<lambda>(k', v). k' = k) (as_headers_list (with_accept sc)) =
     filter (\<lambda>(k', v). k' = k) (as_headers_list sc)"
    by (auto simp: with_accept_def Let_def as_headers_list_def)
qed

section \<open>Whom the gate serves\<close>

lemma serve_as_run:
  "serve_as key m s =
     (fst (m (s\<lparr>cur_key := Some key\<rparr>)), (snd (m (s\<lparr>cur_key := Some key\<rparr>)))\<lparr>cur_key := cur_key s\<rparr>)"
  by (simp add: serve_as_def set_key_def reset_key_def case_prod_beta Let_def)

definition unauthorized :: "asgi_event list" where
  "unauthorized =
     [Response_start 401
        [(u ''content-type'', u ''application/json''), (u ''www-authenticate'', u ''Bearer'')],
      Response_body (Error_body (canonical_error (u ''unauthorized'') Invalid_token False)) False]"

lemma refusal_run:
  "seq (warn w) (\<lambda>_. send_401) s =
     (Inr (), s\<lparr>sent := sent s @ unauthorized, gate_log := gate_log s @ [w]\<rparr>)"
  by (simp add: warn_def send_401_def unauthorized_def act_simps Let_def)

text \<open>The key a request presents a token of, under the entries of the keys file.\<close>

definition presented ::
  "(pystr \<Rightarrow> pystr) \<Rightarrow> (pystr \<Rightarrow> pystr) \<Rightarrow> key_entry list \<Rightarrow> asgi_scope \<Rightarrow> key option" where
  "presented sha256 decode es sc =
     (if prefix (u ''Bearer '') (provided decode sc)
      then holder sha256 es (drop 7 (provided decode sc)) else None)"

definition gate_refusal :: "(pystr \<Rightarrow> pystr) \<Rightarrow> asgi_scope \<Rightarrow> gate_warning" where
  "gate_refusal decode sc =
     (if prefix (u ''Bearer '') (provided decode sc) then Bad_token (as_path sc)
      else Missing_prefix (as_path sc))"

lemma bearer_gate_run:
  assumes "load_keys problems path src = Inr T" and "accepted_entries src = Some es"
    and "as_type sc = u ''http''"
  shows "bearer_gate sha256 decode (Some T) app sc s =
     (case presented sha256 decode es sc of
        Some k \<Rightarrow> serve_as k (app sc) s
      | None \<Rightarrow> (Inr (), s\<lparr>sent := sent s @ unauthorized,
                         gate_log := gate_log s @ [gate_refusal decode sc]\<rparr>))"
proof -
  have "T = concat (map table_rows es)" using assms(1,2) by (simp add: load_keys_ok)
  then have "resolve sha256 T token = holder sha256 es token" for token
    by (simp add: resolve_holder)
  with assms(3) show ?thesis
    by (simp add: bearer_gate_def presented_def gate_refusal_def refusal_run Let_def split: option.split)
qed

lemma cur_key_restored: "as_type sc = u ''http'' \<Longrightarrow> cur_key (snd (bearer_gate sha256 decode keys app sc s)) = cur_key s"
  by (simp add: bearer_gate_def refusal_run serve_as_run Let_def split: option.split)

text \<open>Requests one after another; an exception ends its own request only.\<close>

fun serve_requests :: "'w asgi_app \<Rightarrow> asgi_scope list \<Rightarrow> 'w asgi \<Rightarrow> 'w asgi" where
  "serve_requests app [] s = s"
| "serve_requests app (sc # scs) s = serve_requests app scs (snd (app sc s))"

text \<open>An application that notes under which key it was entered.\<close>

definition noting ::
  "'w asgi_app \<Rightarrow> ('w \<times> key option list) asgi_app" where
  "noting app sc = (\<lambda>s.
     let (r, t) = app sc \<lparr>cur_key = cur_key s, app_state = fst (app_state s), sent = sent s,
                          gate_log = gate_log s\<rparr>
     in (r, \<lparr>cur_key = cur_key t, app_state = (app_state t, snd (app_state s) @ [cur_key s]),
             sent = sent t, gate_log = gate_log t\<rparr>))"

lemma noting_run:
  "snd (app_state (snd (noting app sc s))) = snd (app_state s) @ [cur_key s]"
  by (simp add: noting_def case_prod_beta Let_def)

lemma entered_as:
  assumes "load_keys problems path src = Inr T" and "accepted_entries src = Some es"
    and "list_all (\<lambda>sc. as_type sc = u ''http'') scs"
  shows "snd (app_state (serve_requests (bearer_gate sha256 decode (Some T) (noting app)) scs s))
      = snd (app_state s) @ map Some (List.map_filter (presented sha256 decode es) scs)"
  using assms(3)
proof (induction scs arbitrary: s)
  case (Cons sc scs)
  then show ?case
    by (cases "presented sha256 decode es sc")
      (simp_all add: bearer_gate_run [OF assms(1,2)] serve_as_run noting_run map_filter_simps)
qed (simp add: map_filter_simps)

lemma requests_restore:
  "list_all (\<lambda>sc. as_type sc = u ''http'') scs \<Longrightarrow>
   cur_key (serve_requests (bearer_gate sha256 decode keys app) scs t) = cur_key t"
  by (induction scs arbitrary: t) (simp_all add: cur_key_restored)

text \<open>
  Property C2: the gate. Over the table of a keys file that loads, the application behind
  the gate is entered exactly for the requests that present a listed token, in their order, and
  with the current key of that token's entry; after any sequence of requests, whether they return
  or raise, the current key is what it was before. A request without such a token leaves the
  application's state as it was, and gets one 401 and nothing else.
\<close>

theorem bearer_gate_guards:
  assumes "load_keys problems path src = Inr T" and "accepted_entries src = Some es"
    and "list_all (\<lambda>sc. as_type sc = u ''http'') scs"
  shows "snd (app_state (serve_requests (bearer_gate sha256 decode (Some T) (noting app)) scs s))
      = snd (app_state s) @ map Some (List.map_filter (presented sha256 decode es) scs)
    \<and> cur_key (serve_requests (bearer_gate sha256 decode (Some T) app) scs t) = cur_key t
    \<and> list_all (\<lambda>sc. presented sha256 decode es sc = None \<longrightarrow>
        bearer_gate sha256 decode (Some T) app sc t =
          (Inr (), t\<lparr>sent := sent t @ unauthorized,
                    gate_log := gate_log t @ [gate_refusal decode sc]\<rparr>)) scs"
proof (intro conjI)
  show "snd (app_state (serve_requests (bearer_gate sha256 decode (Some T) (noting app)) scs s))
      = snd (app_state s) @ map Some (List.map_filter (presented sha256 decode es) scs)"
    by (rule entered_as [OF assms])
  show "cur_key (serve_requests (bearer_gate sha256 decode (Some T) app) scs t) = cur_key t"
    by (rule requests_restore [OF assms(3)])
  show "list_all (\<lambda>sc. presented sha256 decode es sc = None \<longrightarrow>
      bearer_gate sha256 decode (Some T) app sc t =
        (Inr (), t\<lparr>sent := sent t @ unauthorized,
                  gate_log := gate_log t @ [gate_refusal decode sc]\<rparr>)) scs"
    using assms(3) by (auto simp: list_all_iff bearer_gate_run [OF assms(1,2)])
qed

text \<open>A keys file with one key, whose token is \<open>tok\<close> under a hash that knows two tokens.\<close>

definition example_hash :: "pystr \<Rightarrow> pystr" where
  "example_hash token = replicate 64 (if token = u ''tok'' then 97 else 98)"

definition example_file :: keys_source where
  "example_file = Toml (JObj [(u ''keys'', JList [JObj [
     (u ''name'', JStr (u ''alice'')),
     (u ''secrets'', JList [JStr (SECRET_PREFIX @ replicate 64 97)]),
     (u ''grants'', JList [JObj [(u ''space'', JStr (u ''a'')), (u ''relation'', JStr (u ''writer''))]])]])])"

definition example_entry :: key_entry where
  "example_entry = \<lparr>ke_name = u ''alice'', ke_secrets = [SECRET_PREFIX @ replicate 64 97],
     ke_grants = [\<lparr>g_space = u ''a'', g_relation = Writer\<rparr>]\<rparr>"

definition request_with :: "pystr \<Rightarrow> asgi_scope" where
  "request_with text = \<lparr>as_type = u ''http'', as_path = Some (u ''/mcp''),
     as_headers = Some [(u ''authorization'', text)]\<rparr>"

lemma example_accepted: "accepted_entries example_file = Some [example_entry]"
  by (simp add: accepted_entries_def example_file_def example_entry_def keys_file_def fields_of_def
      dict_keys_def list_of_def key_entry_of_def string_where_def grant_entry_def relation_of_def
      key_name_ok_def name_char_def is_id_char_def secret_ok_def hex_char_def list_all_iff
      insert_commute u_def digests_def)

lemma example_digests: "digests example_entry = [replicate 64 97]"
  by (simp add: digests_def example_entry_def digest_of_def SECRET_PREFIX_def)

text \<open>The gate at work: two of four requests are served, as \<open>alice\<close>, the second raises.\<close>

definition example_app :: "nat asgi_app" where
  "example_app sc s = (if app_state s = 0 then Inr () else Inl LookupError, s\<lparr>app_state := app_state s + 1\<rparr>)"

definition example_requests :: "asgi_scope list" where
  "example_requests = map (\<lambda>t. request_with (u t))
     [''Bearer tok'', ''Bearer no'', ''Bearer tok'', ''tok'']"

definition gate_start :: "'w \<Rightarrow> 'w asgi" where
  "gate_start w = \<lparr>cur_key = None, app_state = w, sent = [], gate_log = []\<rparr>"

lemma example_presented:
  "presented example_hash id [example_entry] (request_with (u ''Bearer tok'')) = Some (entry_key example_entry)"
  "presented example_hash id [example_entry] (request_with (u ''Bearer no'')) = None"
  "presented example_hash id [example_entry] (request_with (u ''tok'')) = None"
  by (simp_all add: presented_def provided_def request_with_def as_headers_list_def holder_def
      example_digests example_hash_def u_def)

lemma example_http: "list_all (\<lambda>sc. as_type sc = u ''http'') example_requests"
  by (simp add: example_requests_def request_with_def)

lemma bearer_gate_guards_witness:
  "\<exists>T. load_keys (\<lambda>_. []) [] example_file = Inr T
    \<and> snd (app_state (serve_requests (bearer_gate example_hash id (Some T) (noting example_app))
          example_requests (gate_start (0, []))))
        = [Some (entry_key example_entry), Some (entry_key example_entry)]
    \<and> cur_key (serve_requests (bearer_gate example_hash id (Some T) example_app)
          example_requests (gate_start 0)) = None"
proof -
  obtain T where T: "load_keys (\<lambda>_. []) [] example_file = Inr T"
    using example_accepted by (simp add: load_keys_ok)
  note guards = bearer_gate_guards [OF T example_accepted example_http, of example_hash id
      example_app "gate_start (0, [])" "gate_start 0"]
  have "List.map_filter (presented example_hash id [example_entry]) example_requests =
      [entry_key example_entry, entry_key example_entry]"
    by (simp add: example_requests_def map_filter_simps example_presented)
  with T guards show ?thesis by (simp add: gate_start_def)
qed

end
