(* ===== verification/Logging.thy ===== *)
theory Logging
  imports Audit_Log Metadata
begin

text \<open>
  \<open>memcp/http/logging.py\<close>: the JSON and the plain formatter, the filter that names the current
  key, and the logger table. \<open>Formatter.format\<close> and \<open>json.dumps\<close> of the standard library are
  written out as far as the formatters use them. The lemmas: a JSON line is printable ASCII, a
  plain line holds no control character below U+0080 but the tab unless an exception is attached, and the audit
  logger records at every configured level.
\<close>

section \<open>Records\<close>

text \<open>\<open>lr_message\<close> is \<open>getMessage()\<close>, \<open>lr_exc\<close> is \<open>formatException\<close> of the attached exception;
  an attribute that no filter has set is \<open>None\<close>.\<close>

record log_record =
  lr_timestamp :: pystr
  lr_asctime :: pystr
  lr_level :: pystr
  lr_name :: pystr
  lr_message :: pystr
  lr_key :: "pystr option"
  lr_space :: "pystr option"
  lr_audit :: "json option"
  lr_exc :: "pystr option"

definition key_context_filter :: "key option \<Rightarrow> log_record \<Rightarrow> log_record" where
  "key_context_filter ctx r =
     (case current_key ctx of
        Inl e \<Rightarrow> r
      | Inr key \<Rightarrow> r\<lparr>lr_key := Some (k_name key), lr_space := Some (g_space (k_grant key))\<rparr>)"

section \<open>The JSON formatter\<close>

text \<open>\<open>json.dumps\<close> with its defaults: ASCII only, a blank after each separator.\<close>

definition hex4 :: "int \<Rightarrow> pystr" where
  "hex4 n = map hex_digit [n div 4096 mod 16, n div 256 mod 16, n div 16 mod 16, n mod 16]"

definition escape_ascii :: "uchar \<Rightarrow> pystr" where
  "escape_ascii c =
     (if c = 34 then [92, 34]
      else if c = 92 then [92, 92]
      else if c = 10 then [92, 110]
      else if c = 13 then [92, 114]
      else if c = 9 then [92, 116]
      else if c = 12 then [92, 102]
      else if c = 8 then [92, 98]
      else if 32 \<le> c \<and> c \<le> 126 then [c]
      else if c < 0x10000 then [92, 117] @ hex4 c
      else [92, 117] @ hex4 (0xd800 + (c - 0x10000) div 1024)
         @ [92, 117] @ hex4 (0xdc00 + (c - 0x10000) mod 1024))"

definition ascii_str :: "pystr \<Rightarrow> pystr" where
  "ascii_str s = [34] @ concat (map escape_ascii s) @ [34]"

fun json_line :: "json \<Rightarrow> pystr" where
  "json_line JNull = u ''null''"
| "json_line (JBool b) = (if b then u ''true'' else u ''false'')"
| "json_line (JInt i) = int_str i"
| "json_line (JFloat f) = dumps_float f"
| "json_line (JStr s) = ascii_str s"
| "json_line (JList vs) = [91] @ join (u '', '') (map json_line vs) @ [93]"
| "json_line (JObj d) =
     [123] @ join (u '', '') (map (\<lambda>(k, v). ascii_str k @ u '': '' @ json_line v) d) @ [125]"

definition or_null :: "pystr option \<Rightarrow> json" where
  "or_null v = (case v of None \<Rightarrow> JNull | Some s \<Rightarrow> JStr s)"

definition json_payload :: "log_record \<Rightarrow> json" where
  "json_payload r =
     JObj ([(u ''timestamp'', JStr (lr_timestamp r)), (u ''level'', JStr (lr_level r)),
        (u ''logger'', JStr (lr_name r)), (u ''message'', JStr (lr_message r)),
        (u ''key'', or_null (lr_key r)), (u ''space'', or_null (lr_space r))]
      @ (case lr_audit r of None \<Rightarrow> [] | Some a \<Rightarrow> [(u ''audit'', a)])
      @ (case lr_exc r of None \<Rightarrow> [] | Some e \<Rightarrow> [(u ''exc'', JStr e)]))"

definition json_format :: "log_record \<Rightarrow> pystr" where
  "json_format r = json_line (json_payload r)"

section \<open>The plain formatter\<close>

definition plain_escape :: "uchar \<Rightarrow> pystr" where
  "plain_escape c =
     (if c = 10 then [92, 110]
      else if c = 13 then [92, 114]
      else if c = 127 then [92, 120, 55, 102]
      else if 0 \<le> c \<and> c < 32 \<and> c \<noteq> 9 then [92, 120, hex_digit (c div 16), hex_digit (c mod 16)]
      else [c])"

definition or_dash :: "pystr option \<Rightarrow> pystr" where
  "or_dash v = (case v of None \<Rightarrow> u ''-'' | Some s \<Rightarrow> s)"

text \<open>\<open>Formatter.formatMessage\<close> with the plain format, then \<open>translate\<close>.\<close>

definition plain_fields :: "log_record \<Rightarrow> pystr" where
  "plain_fields r =
     lr_asctime r @ u '' '' @ lr_level r @ u '' '' @ lr_name r
     @ u '' key='' @ or_dash (lr_key r) @ u '' space='' @ or_dash (lr_space r)
     @ u '' '' @ lr_message r"

definition format_message :: "log_record \<Rightarrow> pystr" where
  "format_message r = concat (map plain_escape (plain_fields r))"

text \<open>\<open>Formatter.format\<close> puts the exception's text on the lines below, as it is.\<close>

definition plain_format :: "log_record \<Rightarrow> pystr" where
  "plain_format r =
     (let s = format_message r
      in case lr_exc r of
           None \<Rightarrow> s
         | Some e \<Rightarrow>
             if e = [] then s else (if s \<noteq> [] \<and> last s = 10 then s else s @ [10]) @ e)"

section \<open>The logger table\<close>

text \<open>A logger's level, whether it propagates; each has the one handler \<open>stdout\<close>, at level 0.\<close>

record logger_conf =
  lc_level :: pystr
  lc_propagate :: bool

definition uvicorn_config :: logger_conf where
  "uvicorn_config = \<lparr>lc_level = u ''WARNING'', lc_propagate = False\<rparr>"

definition setup_loggers :: "pystr \<Rightarrow> (pystr, logger_conf) dict" where
  "setup_loggers level =
     [(u ''memcp'', \<lparr>lc_level = level, lc_propagate = False\<rparr>),
      (u ''memcp.audit'', \<lparr>lc_level = u ''INFO'', lc_propagate = False\<rparr>),
      (u ''uvicorn'', uvicorn_config), (u ''uvicorn.error'', uvicorn_config),
      (u ''uvicorn.access'', uvicorn_config),
      ([], \<lparr>lc_level = level, lc_propagate = False\<rparr>)]"

definition formatter_name :: "pystr \<Rightarrow> pystr" where
  "formatter_name fmt = (if fmt = u ''json'' then u ''json'' else u ''plain'')"

definition format_as :: "pystr \<Rightarrow> log_record \<Rightarrow> pystr" where
  "format_as fmt r =
     (if formatter_name fmt = u ''json'' then json_format r else plain_format r)"

definition level_numbers :: "(pystr, int) dict" where
  "level_numbers =
     [(u ''DEBUG'', 10), (u ''INFO'', 20), (u ''WARNING'', 30), (u ''ERROR'', 40),
      (u ''CRITICAL'', 50)]"

definition enabled_for_info :: "pystr \<Rightarrow> pystr \<Rightarrow> bool" where
  "enabled_for_info level name =
     (case map_of (setup_loggers level) name of
        None \<Rightarrow> False
      | Some c \<Rightarrow> (case map_of level_numbers (lc_level c) of None \<Rightarrow> False | Some n \<Rightarrow> n \<le> 20))"

definition handler_chain :: "pystr \<Rightarrow> pystr list \<Rightarrow> ((bool \<times> int) list \<times> bool) list" where
  "handler_chain level names =
     map (\<lambda>name. ([(False, 0)], lc_propagate (the (map_of (setup_loggers level) name)))) names"

text \<open>Audit records reach a handler at every level; the program's own log does not.\<close>

lemma audit_recorded:
  "can_record (enabled_for_info level (u ''memcp.audit''))
     (handler_chain level [u ''memcp.audit'', u ''memcp'', []])"
  by (simp add: can_record_def enabled_for_info_def setup_loggers_def level_numbers_def
      handler_chain_def)

lemma program_log_silenced:
  "\<not> can_record (enabled_for_info (u ''ERROR'') (u ''memcp''))
     (handler_chain (u ''ERROR'') [u ''memcp'', []])"
  by (simp add: can_record_def enabled_for_info_def setup_loggers_def level_numbers_def)

section \<open>One record, one line\<close>

definition printable :: "uchar \<Rightarrow> bool" where
  "printable c \<longleftrightarrow> 32 \<le> c \<and> c \<le> 126"

text \<open>\<open>repr\<close> of a float is printable ASCII.\<close>

fun floats_printable :: "json \<Rightarrow> bool" where
  "floats_printable (JFloat (Finite r)) = list_all printable r"
| "floats_printable (JList vs) = list_all floats_printable vs"
| "floats_printable (JObj d) = list_all (\<lambda>(k, v). floats_printable v) d"
| "floats_printable v = True"

definition or_no_audit :: "json option \<Rightarrow> json" where
  "or_no_audit a = (case a of None \<Rightarrow> JNull | Some v \<Rightarrow> v)"

lemma hex_digit_printable: "0 \<le> n \<Longrightarrow> n < 16 \<Longrightarrow> printable (hex_digit n)"
  by (simp add: hex_digit_def printable_def)

lemma hex4_printable: "list_all printable (hex4 n)"
  by (simp add: hex4_def hex_digit_printable)

lemma escape_ascii_printable: "list_all printable (escape_ascii c)"
  by (simp add: escape_ascii_def printable_def [of "_ :: int"] hex4_printable)

lemma list_all_concat: "list_all P (concat xss) \<longleftrightarrow> list_all (list_all P) xss"
  by (auto simp: list_all_iff)

lemma ascii_str_printable: "list_all printable (ascii_str s)"
  using escape_ascii_printable
  by (simp add: ascii_str_def list_all_concat list_all_iff [of _ "map _ _"] printable_def [of 34])

lemma join_printable:
  "list_all P sep \<Longrightarrow> list_all (list_all P) ss \<Longrightarrow> list_all P (join sep ss)"
  by (induction sep ss rule: join.induct) auto

lemma int_str_printable: "list_all printable (int_str z)"
  using nat_digits_range
  by (fastforce simp: int_str_def list_all_iff printable_def)

lemma json_line_printable: "floats_printable v \<Longrightarrow> list_all printable (json_line v)"
proof (induction v rule: json_line.induct)
  case (4 f)
  show ?case
  proof (cases f)
    case (Finite r)
    with 4 show ?thesis by simp
  qed (simp_all add: u_def printable_def)
next
  case (6 vs)
  then show ?case
    by (auto simp: list_all_iff [of _ vs] list_all_iff [of _ "map _ _"] printable_def u_def
        intro!: join_printable)
next
  case (7 d)
  then show ?case
    by (auto simp: list_all_iff [of _ d] list_all_iff [of _ "map _ _"] printable_def [of 123]
        printable_def [of 125] u_def ascii_str_printable intro!: join_printable)
       (auto simp: printable_def)
qed (simp_all add: u_def printable_def int_str_printable ascii_str_printable)

text \<open>
  The control characters of Unicode are U+0000 to U+001F and U+007F to U+009F. \<open>_ESCAPES\<close> holds those up
  to U+007F but the tab; the rest, the C1 controls, among them NEL (a line break to
  \<open>str.splitlines\<close>) and CSI (the start of a terminal escape), are not in it.
\<close>

definition is_c0 :: "uchar \<Rightarrow> bool" where
  "is_c0 c \<longleftrightarrow> (0 \<le> c \<and> c < 32 \<and> c \<noteq> 9) \<or> c = 127"

definition is_c1 :: "uchar \<Rightarrow> bool" where
  "is_c1 c \<longleftrightarrow> 128 \<le> c \<and> c < 160"

lemma plain_escape_c0: "list_all (\<lambda>x. \<not> is_c0 x) (plain_escape c)"
  by (auto simp: is_c0_def plain_escape_def hex_digit_def)

lemma plain_escape_c1: "filter is_c1 (plain_escape c) = filter is_c1 [c]"
  by (auto simp: is_c1_def plain_escape_def hex_digit_def)

lemma format_message_c0: "list_all (\<lambda>c. \<not> is_c0 c) (format_message r)"
  using plain_escape_c0
  by (simp add: format_message_def list_all_concat list_all_iff [of _ "map _ _"])

lemma format_message_c1: "filter is_c1 (format_message r) = filter is_c1 (plain_fields r)"
proof -
  have "filter is_c1 (concat (map plain_escape s)) = filter is_c1 s" for s
    by (induction s) (simp_all add: plain_escape_c1)
  then show ?thesis by (simp add: format_message_def)
qed

lemma format_message_last: "format_message r \<noteq> [] \<Longrightarrow> last (format_message r) \<noteq> 10"
  using format_message_c0 [of r] last_in_set [of "format_message r"]
  by (force simp: is_c0_def list_all_iff)

text \<open>
  Property C40: log injection. A JSON line is printable ASCII whatever the record carries,
  so it is one line. A plain line holds no control character below U+0080 but the tab, so no line
  feed or carriage return of a message breaks it; the C1 controls of its fields, U+0080 to U+009F,
  pass as they are, and so does the text of an attached exception, which follows on lines of its own.
\<close>

theorem log_lines:
  assumes "floats_printable (or_no_audit (lr_audit r))"
  shows "list_all printable (json_format r)
    \<and> list_all (\<lambda>c. \<not> is_c0 c) (format_message r)
    \<and> filter is_c1 (format_message r) = filter is_c1 (plain_fields r)
    \<and> plain_format r = format_message r
        @ (case lr_exc r of None \<Rightarrow> [] | Some e \<Rightarrow> if e = [] then [] else [10] @ e)"
proof (intro conjI)
  have "floats_printable (json_payload r)"
    using assms by (auto simp: json_payload_def or_null_def or_no_audit_def split: option.splits)
  then show "list_all printable (json_format r)"
    unfolding json_format_def by (rule json_line_printable)
  show "plain_format r = format_message r
      @ (case lr_exc r of None \<Rightarrow> [] | Some e \<Rightarrow> if e = [] then [] else [10] @ e)"
    using format_message_last [of r] by (auto simp: plain_format_def Let_def split: option.splits)
qed (simp_all add: format_message_c0 format_message_c1)

text \<open>
  An exception whose text quotes a request: the plain log gets a second line that reads like a
  record of its own, the JSON log does not. A message with a line feed and a NEL: the first is escaped,
  the second is not.
\<close>

definition forged :: log_record where
  "forged =
     \<lparr>lr_timestamp = u ''t'', lr_asctime = u ''t'', lr_level = u ''ERROR'', lr_name = u ''memcp.tools'',
      lr_message = u ''tool=add_memory'', lr_key = None, lr_space = None, lr_audit = None,
      lr_exc = Some (u ''KeyError: x'' @ [10] @ u ''t INFO memcp.audit key=root space=all ok'')\<rparr>"

definition two_breaks :: log_record where
  "two_breaks = forged\<lparr>lr_message := [10, 0x85], lr_exc := None\<rparr>"

theorem log_lines_witness:
  "plain_format forged =
     u ''t ERROR memcp.tools key=- space=- tool=add_memory'' @ [10] @ u ''KeyError: x''
     @ [10] @ u ''t INFO memcp.audit key=root space=all ok''
   \<and> list_all printable (json_format forged)
   \<and> filter is_c1 (plain_format two_breaks) = [0x85] \<and> 10 \<notin> set (plain_format two_breaks)"
proof -
  have line: "format_message forged = u ''t ERROR memcp.tools key=- space=- tool=add_memory''"
    by (simp add: format_message_def plain_fields_def forged_def or_dash_def u_def plain_escape_def)
  have exc: "lr_exc forged = Some (u ''KeyError: x'' @ [10] @ u ''t INFO memcp.audit key=root space=all ok'')"
    "lr_exc two_breaks = None"
    by (simp_all add: forged_def two_breaks_def)
  have c1: "filter is_c1 (plain_fields two_breaks) = [0x85]"
    by (simp add: plain_fields_def two_breaks_def forged_def or_dash_def u_def is_c1_def)
  have no_audit: "floats_printable (or_no_audit (lr_audit forged))" "floats_printable (or_no_audit (lr_audit two_breaks))"
    by (simp_all add: two_breaks_def forged_def or_no_audit_def)
  have two: "plain_format two_breaks = format_message two_breaks" "filter is_c1 (format_message two_breaks) = [0x85]"
    "list_all (\<lambda>c. \<not> is_c0 c) (format_message two_breaks)"
    using log_lines [OF no_audit(2)] exc(2) c1 by simp_all
  have "10 \<notin> set (format_message two_breaks)"
    using two(3) by (auto simp: list_all_iff is_c0_def)
  with log_lines [OF no_audit(1)] line exc(1) two(1,2) show ?thesis
    by simp
qed

end
