(* ===== verification/Json.thy ===== *)
theory Json
  imports Logging
begin

text \<open>
  \<open>json.dumps\<close> and \<open>json.loads\<close> of the standard library, as \<open>backends/sqlite.py\<close> uses them for its
  columns, \<open>http/logging.py\<close> for a log line and \<open>tools/surface.py\<close> for its snapshot. The lemmas: what
  \<open>dumps\<close> writes with any blank layout, \<open>loads\<close> reads back.
\<close>

section \<open>Strings\<close>

definition json_space :: "uchar \<Rightarrow> bool" where
  "json_space c \<longleftrightarrow> c = 32 \<or> c = 9 \<or> c = 10 \<or> c = 13"

definition skip_ws :: "pystr \<Rightarrow> pystr" where
  "skip_ws s = dropWhile json_space s"

definition hex_value :: "uchar \<Rightarrow> int option" where
  "hex_value c =
     (if 48 \<le> c \<and> c \<le> 57 then Some (c - 48)
      else if 97 \<le> c \<and> c \<le> 102 then Some (c - 87)
      else if 65 \<le> c \<and> c \<le> 70 then Some (c - 55)
      else None)"

definition hex4_value :: "pystr \<Rightarrow> int option" where
  "hex4_value s =
     (case s of
        a # b # c # d # t \<Rightarrow>
          (case (hex_value a, hex_value b, hex_value c, hex_value d) of
             (Some a, Some b, Some c, Some d) \<Rightarrow> Some (4096 * a + 256 * b + 16 * c + d)
           | _ \<Rightarrow> None)
      | _ \<Rightarrow> None)"

definition simple_escape :: "uchar \<Rightarrow> uchar option" where
  "simple_escape e =
     map_of [(34, 34), (92, 92), (47, 47), (98, 8), (102, 12), (110, 10), (114, 13), (116, 9)] e"

text \<open>The low surrogate written as an escape at the start, if there is one.\<close>

definition low_escape :: "pystr \<Rightarrow> int option" where
  "low_escape s =
     (case s of
        a # b # t \<Rightarrow>
          (case hex4_value t of
             Some l \<Rightarrow> if a = 92 \<and> b = 117 \<and> 0xdc00 \<le> l \<and> l \<le> 0xdfff then Some l else None
           | None \<Rightarrow> None)
      | _ \<Rightarrow> None)"

definition prepend :: "'a \<Rightarrow> ('a list \<times> pystr) option \<Rightarrow> ('a list \<times> pystr) option" where
  "prepend x r = map_option (\<lambda>(xs, s). (x # xs, s)) r"

text \<open>A string, from behind its opening quote; \<open>None\<close> is JSONDecodeError, here and below.\<close>

fun scan_string :: "pystr \<Rightarrow> (pystr \<times> pystr) option" where
  "scan_string [] = None"
| "scan_string (c # s) =
     (if c = 34 then Some ([], s)
      else if c < 32 then None
      else if c \<noteq> 92 then prepend c (scan_string s)
      else
        (case s of
           [] \<Rightarrow> None
         | e # t \<Rightarrow>
             if e \<noteq> 117 then
               (case simple_escape e of None \<Rightarrow> None | Some x \<Rightarrow> prepend x (scan_string t))
             else
               (case hex4_value t of
                  None \<Rightarrow> None
                | Some h \<Rightarrow>
                    (case (if 0xd800 \<le> h \<and> h \<le> 0xdbff then low_escape (drop 4 t) else None) of
                       None \<Rightarrow> prepend h (scan_string (drop 4 t))
                     | Some l \<Rightarrow>
                         prepend (0x10000 + 1024 * (h - 0xd800) + (l - 0xdc00))
                           (scan_string (drop 10 t))))))"

declare scan_string.simps(2) [simp del]

section \<open>Numbers and words\<close>

definition is_digit :: "uchar \<Rightarrow> bool" where
  "is_digit c \<longleftrightarrow> 48 \<le> c \<and> c \<le> 57"

definition sign_of :: "pystr \<Rightarrow> pystr" where
  "sign_of s = (case s of [] \<Rightarrow> [] | c # t \<Rightarrow> if c = 45 then [45] else [])"

definition whole_of :: "pystr \<Rightarrow> pystr" where
  "whole_of s =
     (case takeWhile is_digit s of [] \<Rightarrow> [] | c # ds \<Rightarrow> if c = 48 then [48] else c # ds)"

definition fraction_of :: "pystr \<Rightarrow> pystr" where
  "fraction_of s =
     (case s of
        [] \<Rightarrow> []
      | c # t \<Rightarrow> if c = 46 \<and> takeWhile is_digit t \<noteq> [] then 46 # takeWhile is_digit t else [])"

definition exponent_of :: "pystr \<Rightarrow> pystr" where
  "exponent_of s =
     (case s of
        [] \<Rightarrow> []
      | c # t \<Rightarrow>
          let sg = (case t of [] \<Rightarrow> [] | x # _ \<Rightarrow> if x = 43 \<or> x = 45 then [x] else []);
              ds = takeWhile is_digit (drop (length sg) t)
          in if (c = 101 \<or> c = 69) \<and> ds \<noteq> [] then c # sg @ ds else [])"

text \<open>
  The longest number the text starts with, and its text: \<open>float(text)\<close> with a fraction or an
  exponent, otherwise \<open>int(text)\<close>, which raises past 4300 digits.
\<close>

definition number_parts :: "pystr \<Rightarrow> pystr \<times> pystr \<times> pystr \<times> pystr" where
  "number_parts s =
     (let sg = sign_of s; t = drop (length sg) s;
          wh = whole_of t; t = drop (length wh) t;
          fr = fraction_of t; t = drop (length fr) t
      in (sg, wh, fr, exponent_of t))"

definition scan_number :: "(pystr \<Rightarrow> pyfloat) \<Rightarrow> pystr \<Rightarrow> (json \<times> pystr) option" where
  "scan_number F s =
     (case number_parts s of (sg, wh, fr, ex) \<Rightarrow>
        let text = sg @ wh @ fr @ ex; rest = drop (length text) s
        in if wh = [] then None
           else if fr = [] \<and> ex = [] then
             (if length wh > max_str_digits then None
              else
                let n = digits_value (map (\<lambda>c. c - 48) wh)
                in Some (JInt (if sg = [] then n else - n), rest))
           else Some (JFloat (F text), rest))"

fun after_prefix :: "pystr \<Rightarrow> pystr \<Rightarrow> pystr option" where
  "after_prefix [] s = Some s"
| "after_prefix (p # ps) [] = None"
| "after_prefix (p # ps) (c # s) = (if c = p then after_prefix ps s else None)"

fun scan_word :: "(pystr \<times> json) list \<Rightarrow> pystr \<Rightarrow> (json \<times> pystr) option" where
  "scan_word [] s = None"
| "scan_word ((w, v) # ws) s =
     (case after_prefix w s of None \<Rightarrow> scan_word ws s | Some r \<Rightarrow> Some (v, r))"

definition json_words :: "(pystr \<times> json) list" where
  "json_words =
     [(u ''null'', JNull), (u ''true'', JBool True), (u ''false'', JBool False),
      (u ''NaN'', JFloat Not_a_number), (u ''Infinity'', JFloat Infinite),
      (u ''-Infinity'', JFloat Neg_infinite)]"

definition scan_atom :: "(pystr \<Rightarrow> pyfloat) \<Rightarrow> pystr \<Rightarrow> (json \<times> pystr) option" where
  "scan_atom F s = (case scan_word json_words s of None \<Rightarrow> scan_number F s | Some r \<Rightarrow> Some r)"

section \<open>Values\<close>

text \<open>
  The fuel counts the calls inside one another; twice the length of the text is enough, since every
  second one reads a character. A later duplicate of a key takes the place of the first.
\<close>

fun scan_value :: "(pystr \<Rightarrow> pyfloat) \<Rightarrow> nat \<Rightarrow> pystr \<Rightarrow> (json \<times> pystr) option"
and scan_items :: "(pystr \<Rightarrow> pyfloat) \<Rightarrow> nat \<Rightarrow> pystr \<Rightarrow> (json list \<times> pystr) option"
and scan_members :: "(pystr \<Rightarrow> pyfloat) \<Rightarrow> nat \<Rightarrow> pystr \<Rightarrow> ((pystr \<times> json) list \<times> pystr) option" where
  "scan_value F 0 s = None"
| "scan_value F (Suc n) s =
     (case s of
        [] \<Rightarrow> None
      | c # t \<Rightarrow>
          if c = 34 then map_option (\<lambda>(x, r). (JStr x, r)) (scan_string t)
          else if c = 91 then
            (case skip_ws t of
               [] \<Rightarrow> None
             | d # r \<Rightarrow>
                 if d = 93 then Some (JList [], r)
                 else map_option (\<lambda>(vs, r). (JList vs, r)) (scan_items F n (d # r)))
          else if c = 123 then
            (case skip_ws t of
               [] \<Rightarrow> None
             | d # r \<Rightarrow>
                 if d = 125 then Some (JObj [], r)
                 else map_option (\<lambda>(kvs, r). (JObj (dict_update [] kvs), r)) (scan_members F n (d # r)))
          else scan_atom F (c # t))"
| "scan_items F 0 s = None"
| "scan_items F (Suc n) s =
     (case scan_value F n s of
        None \<Rightarrow> None
      | Some (v, r) \<Rightarrow>
          (case skip_ws r of
             [] \<Rightarrow> None
           | c # t \<Rightarrow>
               if c = 93 then Some ([v], t)
               else if c = 44 then prepend v (scan_items F n (skip_ws t))
               else None))"
| "scan_members F 0 s = None"
| "scan_members F (Suc n) s =
     (case s of
        [] \<Rightarrow> None
      | q # s \<Rightarrow>
          if q \<noteq> 34 then None
          else
            (case scan_string s of
               None \<Rightarrow> None
             | Some (k, r) \<Rightarrow>
                 (case skip_ws r of
                    [] \<Rightarrow> None
                  | c # t \<Rightarrow>
                      if c \<noteq> 58 then None
                      else
                        (case scan_value F n (skip_ws t) of
                           None \<Rightarrow> None
                         | Some (v, r) \<Rightarrow>
                             (case skip_ws r of
                                [] \<Rightarrow> None
                              | c # t \<Rightarrow>
                                  if c = 125 then Some ([(k, v)], t)
                                  else if c = 44 then prepend (k, v) (scan_members F n (skip_ws t))
                                  else None)))))"

declare scan_value.simps [simp del] scan_items.simps [simp del] scan_members.simps [simp del]

text \<open>\<open>json.loads\<close>: a byte order mark and anything behind the value but blanks are refused.\<close>

definition json_loads :: "(pystr \<Rightarrow> pyfloat) \<Rightarrow> pystr \<Rightarrow> json option" where
  "json_loads F s =
     (if s \<noteq> [] \<and> hd s = 0xfeff then None
      else
        (case scan_value F (Suc (2 * length s)) (skip_ws s) of
           None \<Rightarrow> None
         | Some (v, r) \<Rightarrow> if skip_ws r = [] then Some v else None))"

section \<open>Enough fuel\<close>

lemma skip_ws_length: "length (skip_ws s) \<le> length s"
  by (simp add: skip_ws_def length_dropWhile_le)

lemma skip_ws_Cons_length: "skip_ws s = c # t \<Longrightarrow> length t < length s"
  using skip_ws_length [of s] by simp

lemma less_skip_ws: "n < length (skip_ws s) \<Longrightarrow> n < length s"
  using skip_ws_length [of s] by simp

lemma prepend_Some [simp]: "prepend x r = Some (ys, t) \<longleftrightarrow> (\<exists>xs. r = Some (xs, t) \<and> ys = x # xs)"
  by (auto simp: prepend_def)

lemma scan_string_shorter: "scan_string s = Some (x, r) \<Longrightarrow> length r < length s"
proof (induction s arbitrary: x r rule: length_induct)
  case (1 s)
  then have IH: "length r < length t" if "scan_string t = Some (x, r)" "length t < length s" for x t r
    using that by blast
  have trans: "length r < length s" if "length r < length t" "length t < length s" for r t :: pystr
    using that by simp
  show ?case
  proof (cases s)
    case (Cons c t)
    with 1(2) show ?thesis
      by (auto simp: scan_string.simps(2) split: if_splits list.splits option.splits
          dest!: IH intro: less_trans)
  qed (use 1(2) in simp)
qed

lemma after_prefix_length: "after_prefix w s = Some r \<Longrightarrow> length s = length w + length r"
  by (induction w s rule: after_prefix.induct) (auto split: if_splits)

lemma scan_word_shorter:
  "scan_word ws s = Some (v, r) \<Longrightarrow> (\<And>w x. (w, x) \<in> set ws \<Longrightarrow> w \<noteq> []) \<Longrightarrow> length r < length s"
  by (induction ws s rule: scan_word.induct) (fastforce split: option.splits dest: after_prefix_length)+

lemma sign_of_le: "length (sign_of s) \<le> length s"
  by (auto simp: sign_of_def split: list.splits)

lemma whole_of_le: "length (whole_of s) \<le> length s"
  using length_takeWhile_le [of is_digit s] by (auto simp: whole_of_def split: list.splits)

lemma scan_number_shorter:
  assumes "scan_number F s = Some (v, r)"
  shows "length r < length s"
proof -
  obtain sg wh fr ex where parts: "number_parts s = (sg, wh, fr, ex)" by (metis prod_cases4)
  with assms have r: "r = drop (length (sg @ wh @ fr @ ex)) s" and "wh \<noteq> []"
    by (auto simp: scan_number_def Let_def split: if_splits)
  moreover have "s \<noteq> []"
    using parts \<open>wh \<noteq> []\<close> by (auto simp: number_parts_def Let_def whole_of_def)
  ultimately show ?thesis by (cases wh) auto
qed

lemma scan_atom_shorter: "scan_atom F s = Some (v, r) \<Longrightarrow> length r < length s"
  using scan_number_shorter scan_word_shorter [of json_words s v r]
  by (auto simp: scan_atom_def json_words_def u_def split: option.splits)

lemma scan_shorter:
  "scan_value F n s = Some (v, r) \<Longrightarrow> length r < length s"
  "scan_items F n s = Some (vs, r) \<Longrightarrow> length r < length s"
  "scan_members F n s = Some (kvs, r) \<Longrightarrow> length r < length s"
proof (induction n arbitrary: s v r vs kvs)
  case (Suc n)
  {
    case 1
    then show ?case
      by (auto simp: scan_value.simps split: list.splits if_splits
          dest!: Suc.IH skip_ws_Cons_length scan_string_shorter scan_atom_shorter)
  next
    case 2
    then show ?case
      by (auto simp: scan_items.simps split: option.splits list.splits if_splits
          dest!: Suc.IH skip_ws_Cons_length less_skip_ws)
  next
    case 3
    then show ?case
      by (auto simp: scan_members.simps split: option.splits list.splits if_splits
          dest!: Suc.IH skip_ws_Cons_length scan_string_shorter less_skip_ws)
  }
qed (simp_all add: scan_value.simps scan_items.simps scan_members.simps)

lemma scan_fuel:
  "2 * length s < n \<Longrightarrow> n \<le> m \<Longrightarrow> scan_value F m s = scan_value F n s"
  "2 * length s + 1 < n \<Longrightarrow> n \<le> m \<Longrightarrow> scan_items F m s = scan_items F n s"
  "2 * length s < n \<Longrightarrow> n \<le> m \<Longrightarrow> scan_members F m s = scan_members F n s"
proof (induction n arbitrary: s m)
  case (Suc n)
  have le: "length (skip_ws t) \<le> length t" for t by (rule skip_ws_length)
  {
    case 1
    then obtain k where m: "m = Suc k" "n \<le> k" by (cases m) auto
    have "scan_items F k (d # r) = scan_items F n (d # r) \<and> scan_members F k (d # r) = scan_members F n (d # r)"
      if "s = c # t" "skip_ws t = d # r" for c t d r
      using that 1(1) le [of t] by (intro conjI Suc.IH(2,3) m(2)) auto
    then show ?case unfolding m(1) scan_value.simps by (auto split: list.splits)
  next
    case 2
    then obtain k where m: "m = Suc k" "n \<le> k" by (cases m) auto
    have v: "scan_value F k s = scan_value F n s" using 2(1) by (intro Suc.IH(1) m(2)) simp
    have "scan_items F k (skip_ws t) = scan_items F n (skip_ws t)"
      if "scan_value F n s = Some (v, r)" "skip_ws r = c # t" for v r c t
      using scan_shorter(1) [OF that(1)] skip_ws_Cons_length [OF that(2)] le [of t] 2(1)
      by (intro Suc.IH(2) m(2)) simp
    then show ?case unfolding m(1) scan_items.simps v by (auto split: option.splits list.splits)
  next
    case 3
    then obtain k where m: "m = Suc k" "n \<le> k" by (cases m) auto
    have "scan_value F k (skip_ws t) = scan_value F n (skip_ws t)"
      if "s = q # x" "scan_string x = Some (y, r)" "skip_ws r = c # t" for q x y r c t
      using that(1) scan_string_shorter [OF that(2)] skip_ws_Cons_length [OF that(3)] le [of t] 3(1)
      by (intro Suc.IH(1) m(2)) simp
    moreover have "scan_members F k (skip_ws t') = scan_members F n (skip_ws t')"
      if "s = q # x" "scan_string x = Some (y, r)" "skip_ws r = c # t"
        "scan_value F n (skip_ws t) = Some (v, r')" "skip_ws r' = c' # t'" for q x y r c t v r' c' t'
      using that(1) scan_string_shorter [OF that(2)] skip_ws_Cons_length [OF that(3)] le [of t] le [of t']
        scan_shorter(1) [OF that(4)] skip_ws_Cons_length [OF that(5)] 3(1)
      by (intro Suc.IH(3) m(2)) simp
    ultimately show ?case
      unfolding m(1) scan_members.simps by (auto split: option.splits list.splits)
  }
qed simp_all

section \<open>Writing\<close>

text \<open>
  \<open>json.dumps\<close> for any choice of separators and indentation: what stands behind an opening bracket,
  behind a comma and before a closing bracket, by the level, and behind a colon.
\<close>

record json_style =
  js_open :: "nat \<Rightarrow> pystr"
  js_comma :: "nat \<Rightarrow> pystr"
  js_close :: "nat \<Rightarrow> pystr"
  js_colon :: pystr

definition default_style :: json_style where
  "default_style =
     \<lparr>js_open = (\<lambda>l. []), js_comma = (\<lambda>l. [32]), js_close = (\<lambda>l. []), js_colon = [32]\<rparr>"

lemma default_style_sel [simp]:
  "js_open default_style l = []" "js_comma default_style l = [32]"
  "js_close default_style l = []" "js_colon default_style = [32]"
  by (simp_all add: default_style_def)

definition indented :: "nat \<Rightarrow> json_style" where
  "indented n =
     \<lparr>js_open = (\<lambda>l. 10 # replicate (n * Suc l) 32), js_comma = (\<lambda>l. 10 # replicate (n * Suc l) 32),
      js_close = (\<lambda>l. 10 # replicate (n * l) 32), js_colon = [32]\<rparr>"

fun json_written :: "json_style \<Rightarrow> nat \<Rightarrow> json \<Rightarrow> pystr" where
  "json_written st l JNull = u ''null''"
| "json_written st l (JBool b) = (if b then u ''true'' else u ''false'')"
| "json_written st l (JInt i) = int_str i"
| "json_written st l (JFloat f) = dumps_float f"
| "json_written st l (JStr s) = ascii_str s"
| "json_written st l (JList vs) =
     (if vs = [] then [91, 93]
      else [91] @ js_open st l @ join (44 # js_comma st l) (map (json_written st (Suc l)) vs)
        @ js_close st l @ [93])"
| "json_written st l (JObj d) =
     (if d = [] then [123, 125]
      else [123] @ js_open st l
        @ join (44 # js_comma st l)
            (map (\<lambda>(k, v). ascii_str k @ [58] @ js_colon st @ json_written st (Suc l) v) d)
        @ js_close st l @ [125])"

lemma json_line_written: "json_line v = json_written default_style l v"
proof (induction v arbitrary: l rule: json_line.induct)
  case (6 vs)
  then have "map json_line vs = map (json_written default_style (Suc l)) vs" by simp
  then show ?case by (simp add: u_def del: map_eq_conv)
next
  case (7 d)
  then have "map (\<lambda>(k, v). ascii_str k @ u '': '' @ json_line v) d =
      map (\<lambda>(k, v). ascii_str k @ [58] @ js_colon default_style @ json_written default_style (Suc l) v) d"
    by (auto simp: u_def)
  then show ?case by (simp add: u_def del: map_eq_conv)
qed simp_all

definition blank :: "pystr \<Rightarrow> bool" where
  "blank s \<longleftrightarrow> list_all json_space s"

definition blank_style :: "json_style \<Rightarrow> bool" where
  "blank_style st \<longleftrightarrow>
     (\<forall>l. blank (js_open st l) \<and> blank (js_comma st l) \<and> blank (js_close st l)) \<and> blank (js_colon st)"

lemma styles_blank [simp]: "blank_style default_style" "blank_style (indented n)"
  by (auto simp: blank_style_def blank_def default_style_def indented_def json_space_def list_all_iff)

lemma skip_blank [simp]: "blank s \<Longrightarrow> skip_ws (s @ t) = skip_ws t"
  by (auto simp: blank_def skip_ws_def list_all_iff dropWhile_append)

lemma skip_ws_Cons: "\<not> json_space c \<Longrightarrow> skip_ws (c # t) = c # t"
  by (simp add: skip_ws_def)

section \<open>What is written is read back\<close>

text \<open>Text without surrogates, and numbers \<open>int\<close> and \<open>float\<close> read back.\<close>

definition plain_text :: "pystr \<Rightarrow> bool" where
  "plain_text s \<longleftrightarrow> list_all (\<lambda>c. 0 \<le> c \<and> c < 0x110000 \<and> \<not> is_surrogate c) s"

definition float_text :: "pystr \<Rightarrow> bool" where
  "float_text r \<longleftrightarrow>
     (case number_parts r of (sg, wh, fr, ex) \<Rightarrow> r = sg @ wh @ fr @ ex \<and> wh \<noteq> [] \<and> (fr \<noteq> [] \<or> ex \<noteq> []))"

fun readable :: "(pystr \<Rightarrow> pyfloat) \<Rightarrow> json \<Rightarrow> bool" where
  "readable F (JInt i) = (length (nat_digits (nat \<bar>i\<bar>)) \<le> max_str_digits)"
| "readable F (JFloat (Finite r)) = (float_text r \<and> F r = Finite r)"
| "readable F (JStr s) = plain_text s"
| "readable F (JList vs) = list_all (readable F) vs"
| "readable F (JObj d) = (wf_dict d \<and> list_all (\<lambda>(k, v). plain_text k \<and> readable F v) d)"
| "readable F v = True"

lemma hex_value_digit: "0 \<le> n \<Longrightarrow> n < 16 \<Longrightarrow> hex_value (hex_digit n) = Some n"
  by (simp add: hex_value_def hex_digit_def)

lemma hex4_digits:
  fixes n :: int
  shows "4096 * (n div 4096) + 256 * (n div 256 mod 16) + 16 * (n div 16 mod 16) + n mod 16 = n"
proof -
  have digits: "4096 * c + 256 * rb + 16 * ra + rn = n"
    if "16 * c + rb = b" "16 * b + ra = a" "16 * a + rn = n" for a b c ra rb rn :: int
    using that by linarith
  have "n div 16 div 16 = n div 256" "n div 256 div 16 = n div 4096"
    by (simp_all flip: zdiv_zmult2_eq)
  with mult_div_mod_eq [of 16 "n div 256"] mult_div_mod_eq [of 16 "n div 16"]
  have "16 * (n div 4096) + n div 256 mod 16 = n div 256" "16 * (n div 256) + n div 16 mod 16 = n div 16"
    by (simp_all only:)
  from digits [OF this mult_div_mod_eq] show ?thesis .
qed

lemma hex4_value_hex4: "0 \<le> n \<Longrightarrow> n < 0x10000 \<Longrightarrow> hex4_value (hex4 n @ t) = Some n"
proof -
  assume "0 \<le> n" "n < 0x10000"
  then have "hex4_value (hex4 n @ t) =
      Some (4096 * (n div 4096) + 256 * (n div 256 mod 16) + 16 * (n div 16 mod 16) + n mod 16)"
    by (simp add: hex4_value_def hex4_def hex_value_digit)
  then show ?thesis by (simp only: hex4_digits)
qed

lemma length_hex4 [simp]: "length (hex4 n) = 4"
  by (simp add: hex4_def)

lemma scan_unicode:
  assumes "0 \<le> h" "h < 0x10000" "\<not> (0xd800 \<le> h \<and> h \<le> 0xdbff)"
  shows "scan_string (92 # 117 # hex4 h @ t) = prepend h (scan_string t)"
  using assms by (cases "0xd800 \<le> h") (simp_all add: scan_string.simps(2) hex4_value_hex4)

lemma scan_pair:
  assumes "0xd800 \<le> h" "h \<le> 0xdbff" "0xdc00 \<le> l" "l \<le> 0xdfff"
  shows "scan_string (92 # 117 # hex4 h @ 92 # 117 # hex4 l @ t) =
    prepend (0x10000 + 1024 * (h - 0xd800) + (l - 0xdc00)) (scan_string t)"
proof -
  show ?thesis
    using assms by (simp add: scan_string.simps(2) hex4_value_hex4 low_escape_def)
qed

lemma scan_escaped:
  assumes "0 \<le> c" "c < 0x110000" "\<not> is_surrogate c"
  shows "scan_string (escape_ascii c @ t) = prepend c (scan_string t)"
proof -
  have "c < 0x10000 \<or> 0x10000 \<le> c" by linarith
  then show ?thesis
  proof
    assume small: "c < 0x10000"
    then have "scan_string (92 # 117 # hex4 c @ t) = prepend c (scan_string t)"
      using assms by (intro scan_unicode) (auto simp: is_surrogate_def)
    with small show ?thesis
      by (auto simp: escape_ascii_def scan_string.simps(2) simple_escape_def)
  next
    assume big: "0x10000 \<le> c"
    have q: "0 \<le> (c - 0x10000) div 1024" "(c - 0x10000) div 1024 \<le> 0x3ff"
      using assms(2) big by auto
    have r: "0 \<le> (c - 0x10000) mod 1024" "(c - 0x10000) mod 1024 \<le> 0x3ff"
      by (simp_all add: pos_mod_bound [THEN zle_diff1_eq [THEN iffD2]])
    have "0x10000 + 1024 * ((c - 0x10000) div 1024) + (c - 0x10000) mod 1024 = c"
      by (simp add: mult_div_mod_eq add.assoc)
    then show ?thesis
      using q r big scan_pair [of "0xd800 + (c - 0x10000) div 1024" "0xdc00 + (c - 0x10000) mod 1024" t]
      by (simp add: escape_ascii_def)
  qed
qed

lemma scan_string_written:
  "plain_text s \<Longrightarrow> scan_string (concat (map escape_ascii s) @ 34 # t) = Some (s, t)"
  by (induction s) (auto simp: plain_text_def scan_escaped scan_string.simps(2) [of 34] prepend_def)

text \<open>What may follow a value: nothing, a blank, a comma or a closing bracket.\<close>

definition value_end :: "pystr \<Rightarrow> bool" where
  "value_end s \<longleftrightarrow> (case s of [] \<Rightarrow> True | c # t \<Rightarrow> json_space c \<or> c = 44 \<or> c = 93 \<or> c = 125)"

lemma value_end_Nil [simp]: "value_end []"
  by (simp add: value_end_def)

lemma value_end_hd:
  "value_end (c # t) \<Longrightarrow> \<not> is_digit c \<and> c \<noteq> 45 \<and> c \<noteq> 43 \<and> c \<noteq> 46 \<and> c \<noteq> 101 \<and> c \<noteq> 69"
  by (auto simp: value_end_def json_space_def is_digit_def)

lemma takeWhile_end [simp]:
  assumes "value_end rest"
  shows "takeWhile is_digit (s @ rest) = takeWhile is_digit s"
proof -
  have "takeWhile is_digit rest = []" using assms by (cases rest) (simp_all add: value_end_hd)
  then show ?thesis by (simp add: takeWhile_append takeWhile_eq_all_conv [THEN iffD2])
qed

lemma sign_of_end: "value_end rest \<Longrightarrow> sign_of (s @ rest) = sign_of s"
  by (cases s; cases rest) (auto simp: sign_of_def dest: value_end_hd)

lemma whole_of_end: "value_end rest \<Longrightarrow> whole_of (s @ rest) = whole_of s"
  by (simp add: whole_of_def)

lemma fraction_of_end: "value_end rest \<Longrightarrow> fraction_of (s @ rest) = fraction_of s"
  by (cases s; cases rest) (auto simp: fraction_of_def dest: value_end_hd)

lemma fraction_of_le: "length (fraction_of s) \<le> length s"
  using length_takeWhile_le [of is_digit "tl s"] by (auto simp: fraction_of_def split: list.splits)

lemma exponent_of_end:
  assumes "value_end rest"
  shows "exponent_of (s @ rest) = exponent_of s"
proof (cases s)
  case Nil
  with assms show ?thesis by (cases rest) (auto simp: exponent_of_def dest: value_end_hd)
next
  case (Cons c t)
  have "takeWhile is_digit (drop k (t @ rest)) = takeWhile is_digit (drop k t)" if "k \<le> length t" for k
    using that assms by simp
  then show ?thesis
    using assms Cons
    by (cases t; cases rest) (auto simp: exponent_of_def Let_def dest: value_end_hd)
qed

lemma number_parts_end:
  assumes "value_end rest"
  shows "number_parts (s @ rest) = number_parts s"
proof -
  have part: "drop (length x) (t @ rest) = drop (length x) t @ rest" if "length x \<le> length t" for x t :: pystr
    using that by simp
  show ?thesis
    unfolding number_parts_def Let_def
    by (simp only: sign_of_end [OF assms] whole_of_end [OF assms] fraction_of_end [OF assms]
        exponent_of_end [OF assms] part [OF sign_of_le] part [OF whole_of_le] part [OF fraction_of_le])
qed

lemma scan_number_covers:
  assumes "number_parts r = (sg, wh, fr, ex)" and r: "r = sg @ wh @ fr @ ex" and "wh \<noteq> []" and "value_end rest"
  shows "scan_number F (r @ rest) =
    (if fr = [] \<and> ex = [] then
       (if length wh > max_str_digits then None
        else let n = digits_value (map (\<lambda>c. c - 48) wh) in Some (JInt (if sg = [] then n else - n), rest))
     else Some (JFloat (F r), rest))"
proof -
  have "drop (length r) (r @ rest) = rest" by simp
  then show ?thesis
    unfolding scan_number_def number_parts_end [OF assms(4)] assms(1) prod.case Let_def r [symmetric]
    using assms(3) by simp
qed

lemma scan_float:
  assumes "float_text r" and "value_end rest"
  shows "scan_number F (r @ rest) = Some (JFloat (F r), rest)"
proof -
  obtain sg wh fr ex where parts: "number_parts r = (sg, wh, fr, ex)" by (metis prod_cases4)
  with assms(1) have "r = sg @ wh @ fr @ ex" "wh \<noteq> []" "fr \<noteq> [] \<or> ex \<noteq> []"
    by (simp_all add: float_text_def)
  with scan_number_covers [OF parts this(1,2) assms(2)] show ?thesis by auto
qed

lemma nat_digits_hd: "0 < n \<Longrightarrow> hd (nat_digits n) \<noteq> 48"
proof (induction n rule: nat_digits.induct)
  case (1 n)
  then show ?case by (cases "n < 10") (simp_all add: nat_digits.simps [of n])
qed

lemma nat_digits_0: "nat_digits 0 = [48]"
  by (simp add: nat_digits.simps [of 0])

lemma whole_of_nat_digits: "whole_of (nat_digits n) = nat_digits n"
proof -
  have "takeWhile is_digit (nat_digits n) = nat_digits n"
    using nat_digits_range by (auto simp: takeWhile_eq_all_conv is_digit_def)
  then have "whole_of (nat_digits n) = (case nat_digits n of [] \<Rightarrow> [] | c # ds \<Rightarrow> if c = 48 then [48] else c # ds)"
    by (simp only: whole_of_def)
  then show ?thesis
    using nat_digits_hd [of n] by (cases "n = 0") (auto simp: nat_digits_0 split: list.splits)
qed

lemma number_parts_int:
  "number_parts (int_str i) = (if i < 0 then [45] else [], nat_digits (nat \<bar>i\<bar>), [], [])"
proof -
  have "sign_of (nat_digits n) = []" for n
    using nat_digits_range [of "hd (nat_digits n)" n] by (auto simp: sign_of_def split: list.splits)
  then show ?thesis
    by (simp add: number_parts_def int_str_def sign_of_def [of "45 # _"] Let_def whole_of_nat_digits
        fraction_of_def exponent_of_def)
qed

lemma scan_int:
  assumes "length (nat_digits (nat \<bar>i\<bar>)) \<le> max_str_digits" and "value_end rest"
  shows "scan_number F (int_str i @ rest) = Some (JInt i, rest)"
proof -
  have "int_str i = (if i < 0 then [45] else []) @ nat_digits (nat \<bar>i\<bar>) @ [] @ []"
    by (simp add: int_str_def)
  from scan_number_covers [OF number_parts_int this nat_digits_Nil assms(2)] assms(1) show ?thesis
    by (simp add: digits_value_nat_digits)
qed

lemma no_word:
  assumes "is_digit c \<or> (c = 45 \<and> (case t of [] \<Rightarrow> True | d # _ \<Rightarrow> is_digit d))"
  shows "scan_word json_words (c # t) = None"
  using assms by (auto simp: json_words_def u_def is_digit_def split: list.splits)

text \<open>A number starts with a digit, or with a minus sign and a digit.\<close>

definition number_start :: "pystr \<Rightarrow> bool" where
  "number_start s \<longleftrightarrow>
     (case s of [] \<Rightarrow> False
      | c # t \<Rightarrow> is_digit c \<or> (c = 45 \<and> (case t of [] \<Rightarrow> False | d # _ \<Rightarrow> is_digit d)))"

lemma whole_of_start: "whole_of s \<noteq> [] \<Longrightarrow> s \<noteq> [] \<and> is_digit (hd s)"
  by (cases s) (auto simp: whole_of_def split: if_splits)

lemma number_start:
  assumes "number_parts s = (sg, wh, fr, ex)" and "wh \<noteq> []"
  shows "number_start s"
proof -
  have "sg = sign_of s" and "wh = whole_of (drop (length sg) s)"
    using assms(1) by (auto simp: number_parts_def Let_def)
  with assms(2) whole_of_start [of "drop (length sg) s"] show ?thesis
    by (auto simp: number_start_def sign_of_def split: list.splits if_splits)
qed

lemma scan_atom_number:
  assumes "number_start s"
  shows "scan_value F (Suc n) (s @ rest) = scan_number F (s @ rest)"
proof (cases s)
  case (Cons c t)
  with assms have "is_digit c \<or> (c = 45 \<and> (case t @ rest of [] \<Rightarrow> True | d # _ \<Rightarrow> is_digit d))"
    by (auto simp: number_start_def split: list.splits)
  from no_word [OF this] assms Cons show ?thesis
    by (auto simp: scan_value.simps scan_atom_def number_start_def is_digit_def)
qed (use assms in \<open>simp add: number_start_def\<close>)

lemma scan_words:
  "scan_value F (Suc n) (u ''null'' @ rest) = Some (JNull, rest)"
  "scan_value F (Suc n) (u ''true'' @ rest) = Some (JBool True, rest)"
  "scan_value F (Suc n) (u ''false'' @ rest) = Some (JBool False, rest)"
  "scan_value F (Suc n) (u ''NaN'' @ rest) = Some (JFloat Not_a_number, rest)"
  "scan_value F (Suc n) (u ''Infinity'' @ rest) = Some (JFloat Infinite, rest)"
  "scan_value F (Suc n) (u ''-Infinity'' @ rest) = Some (JFloat Neg_infinite, rest)"
  by (simp_all add: scan_value.simps scan_atom_def json_words_def u_def)

lemma readable_number_start:
  "readable F (JInt i) \<Longrightarrow> number_start (int_str i)"
  "readable F (JFloat (Finite r)) \<Longrightarrow> number_start r"
  by (auto simp: float_text_def split: prod.splits intro: number_start number_start [OF number_parts_int])

text \<open>The text of a value starts with no blank, and ends where its value does.\<close>

lemma written_start:
  assumes "readable F v"
  obtains c t where "json_written st l v = c # t" and "\<not> json_space c" and "c \<noteq> 93" and "c \<noteq> 0xfeff"
proof -
  have num: "\<exists>c t. s = c # t \<and> \<not> json_space c \<and> c \<noteq> 93 \<and> c \<noteq> 0xfeff" if "number_start s" for s
    using that by (auto simp: number_start_def is_digit_def json_space_def split: list.splits)
  have "\<exists>c t. json_written st l v = c # t \<and> \<not> json_space c \<and> c \<noteq> 93 \<and> c \<noteq> 0xfeff"
  proof (cases v)
    case (JInt i)
    with assms num [OF readable_number_start(1)] show ?thesis by simp
  next
    case (JFloat f)
    with assms num [OF readable_number_start(2)] show ?thesis
      by (cases f) (simp_all add: u_def json_space_def)
  qed (simp_all add: u_def json_space_def ascii_str_def)
  with that show thesis by blast
qed

lemma value_end_blank: "blank s \<Longrightarrow> value_end t \<Longrightarrow> value_end (s @ t)"
  by (cases s) (auto simp: blank_def value_end_def)

lemma value_end_punctuation [simp]:
  "value_end (44 # t)" "value_end (93 # t)" "value_end (125 # t)"
  by (simp_all add: value_end_def)

definition reads_back :: "(pystr \<Rightarrow> pyfloat) \<Rightarrow> pystr \<Rightarrow> json \<Rightarrow> bool" where
  "reads_back F text v \<longleftrightarrow>
     (\<forall>n rest. length text \<le> n \<longrightarrow> value_end rest \<longrightarrow> scan_value F n (text @ rest) = Some (v, rest))"

lemma reads_backD:
  "reads_back F text v \<Longrightarrow> length text \<le> n \<Longrightarrow> value_end rest \<Longrightarrow> scan_value F n (text @ rest) = Some (v, rest)"
  by (simp add: reads_back_def)

text \<open>The text of some items with what stands between them and before the bracket.\<close>

lemma items_back:
  assumes "\<And>v. v \<in> set vs \<Longrightarrow> reads_back F (f v) v"
    and start: "\<And>v. v \<in> set vs \<Longrightarrow> \<exists>c t. f v = c # t \<and> \<not> json_space c"
    and "blank gap" and "blank tail" and "vs \<noteq> []"
    and "length (join (44 # gap) (map f vs)) < n"
  shows "scan_items F n (join (44 # gap) (map f vs) @ tail @ 93 # rest) = Some (vs, rest)"
  using assms
proof (induction vs arbitrary: n)
  case (Cons v vs)
  then obtain m where n: "n = Suc m" by (cases n) auto
  show ?case
  proof (cases "vs = []")
    case True
    with Cons.prems(6) n have len: "length (f v) \<le> m" by simp
    have stop: "value_end (tail @ 93 # rest)" using Cons.prems(4) by (intro value_end_blank) simp_all
    have "scan_value F m (f v @ tail @ 93 # rest) = Some (v, tail @ 93 # rest)"
      using Cons.prems(1) by (intro reads_backD len stop) simp
    with True n Cons.prems(4) show ?thesis
      by (simp add: scan_items.simps skip_ws_Cons json_space_def)
  next
    case False
    let ?more = "join (44 # gap) (map f vs) @ tail @ 93 # rest"
    have both: "join (44 # gap) (map f (v # vs)) @ tail @ 93 # rest = f v @ 44 # gap @ ?more"
      using False by (simp add: join_Cons)
    have len: "length (f v) \<le> m" "length (join (44 # gap) (map f vs)) < m"
      using Cons.prems(6) False n by (simp_all add: join_Cons)
    have v: "scan_value F m (f v @ 44 # gap @ ?more) = Some (v, 44 # gap @ ?more)"
      using Cons.prems(1) by (intro reads_backD len(1)) simp_all
    obtain w ws where vs: "vs = w # ws" using False by (cases vs) auto
    obtain c t where c: "f w = c # t" "\<not> json_space c" using Cons.prems(2) [of w] vs by auto
    have more: "skip_ws (gap @ ?more) = ?more"
      using Cons.prems(3) vs c by (simp add: join_Cons skip_ws_Cons)
    have "scan_items F m ?more = Some (vs, rest)"
      using Cons.prems False len(2) by (intro Cons.IH) auto
    then show ?thesis
      unfolding both n scan_items.simps v by (simp add: skip_ws_Cons json_space_def more prepend_def)
  qed
qed simp

definition member_text :: "pystr \<Rightarrow> (json \<Rightarrow> pystr) \<Rightarrow> pystr \<times> json \<Rightarrow> pystr" where
  "member_text colon f = (\<lambda>(k, v). ascii_str k @ [58] @ colon @ f v)"

lemma scan_member:
  assumes k: "plain_text k" and v: "reads_back F (f v) v" and colon: "blank colon"
    and start: "f v = c # t" "\<not> json_space c"
    and len: "length (member_text colon f (k, v)) \<le> Suc m" and after: "value_end rest"
  shows "scan_members F (Suc m) (member_text colon f (k, v) @ rest) =
    (case skip_ws rest of
       [] \<Rightarrow> None
     | c # t \<Rightarrow>
         if c = 125 then Some ([(k, v)], t)
         else if c = 44 then prepend (k, v) (scan_members F m (skip_ws t))
         else None)"
proof -
  have key: "scan_string (concat (map escape_ascii k) @ 34 # x) = Some (k, x)" for x
    by (rule scan_string_written [OF k])
  have "scan_value F m (f v @ rest) = Some (v, rest)"
    using len by (intro reads_backD [OF v _ after]) (simp add: member_text_def ascii_str_def)
  moreover have "skip_ws (colon @ f v @ rest) = f v @ rest"
    using colon start by (simp add: skip_ws_Cons)
  moreover have "member_text colon f (k, v) @ rest =
      34 # concat (map escape_ascii k) @ 34 # 58 # colon @ f v @ rest"
    by (simp add: member_text_def ascii_str_def)
  ultimately show ?thesis
    by (simp add: scan_members.simps key skip_ws_Cons json_space_def)
qed

lemma members_back:
  assumes "\<And>k v. (k, v) \<in> set d \<Longrightarrow> plain_text k \<and> reads_back F (f v) v"
    and start: "\<And>k v. (k, v) \<in> set d \<Longrightarrow> \<exists>c t. f v = c # t \<and> \<not> json_space c"
    and "blank gap" and "blank tail" and "blank colon" and "d \<noteq> []"
    and "length (join (44 # gap) (map (member_text colon f) d)) < n"
  shows "scan_members F n (join (44 # gap) (map (member_text colon f) d) @ tail @ 125 # rest) = Some (d, rest)"
  using assms
proof (induction d arbitrary: n)
  case (Cons p d)
  obtain k v where p: "p = (k, v)" by (cases p)
  obtain m where n: "n = Suc m" using Cons.prems(7) by (cases n) auto
  obtain c t where c: "f v = c # t" "\<not> json_space c" using Cons.prems(2) [of k v] p by auto
  have kv: "plain_text k" "reads_back F (f v) v" using Cons.prems(1) [of k v] p by simp_all
  show ?case
  proof (cases "d = []")
    case True
    with Cons.prems(7) n p have len: "length (member_text colon f (k, v)) \<le> Suc m" by simp
    have stop: "value_end (tail @ 125 # rest)" using Cons.prems(4) by (intro value_end_blank) simp_all
    from scan_member [OF kv Cons.prems(5) c len stop] True n p Cons.prems(4) show ?thesis
      by (simp add: skip_ws_Cons json_space_def)
  next
    case False
    let ?more = "join (44 # gap) (map (member_text colon f) d) @ tail @ 125 # rest"
    have both: "join (44 # gap) (map (member_text colon f) (p # d)) @ tail @ 125 # rest =
        member_text colon f (k, v) @ 44 # gap @ ?more"
      using False p by (simp add: join_Cons)
    have len: "length (member_text colon f (k, v)) \<le> Suc m"
        "length (join (44 # gap) (map (member_text colon f) d)) < m"
      using Cons.prems(7) False n p by (simp_all add: join_Cons)
    obtain q ds where d: "d = q # ds" using False by (cases d) auto
    then have "\<exists>s. ?more = 34 # s" by (cases q) (auto simp: join_Cons member_text_def ascii_str_def)
    then have more: "skip_ws (gap @ ?more) = ?more"
      using Cons.prems(3) by (auto simp: skip_ws_Cons json_space_def)
    have "scan_members F m ?more = Some (d, rest)"
    proof (rule Cons.IH)
      fix k v
      assume "(k, v) \<in> set d"
      then show "plain_text k \<and> reads_back F (f v) v" "\<exists>c t. f v = c # t \<and> \<not> json_space c"
        using Cons.prems(1,2) [of k v] by simp_all
    qed (use Cons.prems(3,4,5) False len(2) in simp_all)
    with more show ?thesis
      unfolding both n scan_member [OF kv Cons.prems(5) c len(1) value_end_punctuation(1)]
      by (simp add: skip_ws_Cons json_space_def prepend_def p)
  qed
qed simp

lemma dict_update_wf: "wf_dict d \<Longrightarrow> dict_update [] d = d"
proof -
  have "wf_dict (e @ d) \<Longrightarrow> dict_update e d = e @ d" for e :: "('a, 'b) dict"
  proof (induction d arbitrary: e)
    case (Cons p d)
    obtain k v where p: "p = (k, v)" by (cases p)
    then have "k \<notin> fst ` set e" using Cons.prems by (auto simp: wf_dict_def)
    then have "dict_set k v e = e @ [(k, v)]" by (rule dict_set_fresh)
    with Cons.IH [of "e @ [(k, v)]"] Cons.prems p show ?case by simp
  qed simp
  from this [of "[]"] show "wf_dict d \<Longrightarrow> dict_update [] d = d" by simp
qed

lemma list_back:
  assumes style: "blank_style st" and vs: "\<And>v. v \<in> set vs \<Longrightarrow> readable F v"
    and parts: "\<And>v. v \<in> set vs \<Longrightarrow> reads_back F (json_written st (Suc l) v) v"
  shows "reads_back F (json_written st l (JList vs)) (JList vs)"
  unfolding reads_back_def
proof (intro allI impI)
  fix n rest
  assume len: "length (json_written st l (JList vs)) \<le> n"
  then obtain m where n: "n = Suc m" by (cases n) (auto split: if_splits)
  have blanks: "blank (js_open st l)" "blank (js_comma st l)" "blank (js_close st l)"
    using style by (simp_all add: blank_style_def)
  show "scan_value F n (json_written st l (JList vs) @ rest) = Some (JList vs, rest)"
  proof (cases vs)
    case Nil
    then show ?thesis by (simp add: n scan_value.simps skip_ws_Cons json_space_def)
  next
    case (Cons w ws)
    let ?items = "join (44 # js_comma st l) (map (json_written st (Suc l)) vs)"
    have "readable F w" using vs Cons by simp
    then obtain c t where c: "json_written st (Suc l) w = c # t" "\<not> json_space c" "c \<noteq> 93"
      by (metis written_start)
    then obtain t' where t: "?items @ js_close st l @ 93 # rest = c # t'"
      using Cons by (simp add: join_Cons)
    have start: "\<exists>c t. json_written st (Suc l) v = c # t \<and> \<not> json_space c" if "v \<in> set vs" for v
      using written_start [OF vs [OF that]] by metis
    have "scan_items F m (?items @ js_close st l @ 93 # rest) = Some (vs, rest)"
      by (rule items_back [OF parts start blanks(2,3)]) (use len n Cons in simp_all)
    moreover have "json_written st l (JList vs) @ rest = 91 # js_open st l @ ?items @ js_close st l @ 93 # rest"
      using Cons by simp
    ultimately show ?thesis
      using c blanks(1) by (simp only: t) (simp add: n scan_value.simps skip_ws_Cons)
  qed
qed

lemma json_written_members:
  "d \<noteq> [] \<Longrightarrow> json_written st l (JObj d) =
    [123] @ js_open st l
      @ join (44 # js_comma st l) (map (member_text (js_colon st) (json_written st (Suc l))) d)
      @ js_close st l @ [125]"
  by (simp add: member_text_def)

lemma object_back:
  assumes style: "blank_style st" and d: "wf_dict d" "\<And>k v. (k, v) \<in> set d \<Longrightarrow> plain_text k \<and> readable F v"
    and parts: "\<And>k v. (k, v) \<in> set d \<Longrightarrow> reads_back F (json_written st (Suc l) v) v"
  shows "reads_back F (json_written st l (JObj d)) (JObj d)"
  unfolding reads_back_def
proof (intro allI impI)
  fix n rest
  assume len: "length (json_written st l (JObj d)) \<le> n"
  then obtain m where n: "n = Suc m" by (cases n) (auto split: if_splits)
  have blanks: "blank (js_open st l)" "blank (js_comma st l)" "blank (js_close st l)" "blank (js_colon st)"
    using style by (simp_all add: blank_style_def)
  show "scan_value F n (json_written st l (JObj d) @ rest) = Some (JObj d, rest)"
  proof (cases d)
    case Nil
    then show ?thesis by (simp add: n scan_value.simps skip_ws_Cons json_space_def)
  next
    case (Cons p ps)
    let ?members = "join (44 # js_comma st l) (map (member_text (js_colon st) (json_written st (Suc l))) d)"
    obtain t where t: "?members @ js_close st l @ 125 # rest = 34 # t"
      using Cons by (cases p) (auto simp: join_Cons member_text_def ascii_str_def)
    have start: "\<exists>c t. json_written st (Suc l) v = c # t \<and> \<not> json_space c" if "(k, v) \<in> set d" for k v
      using d(2) [OF that] by (metis written_start)
    have "scan_members F m (?members @ js_close st l @ 125 # rest) = Some (d, rest)"
      by (rule members_back [OF _ start blanks(2,3,4)])
        (use len n Cons d parts json_written_members [of d st l] in simp_all)
    moreover have "json_written st l (JObj d) @ rest = 123 # js_open st l @ ?members @ js_close st l @ 125 # rest"
      using Cons json_written_members [of d st l] by simp
    ultimately show ?thesis
      using blanks(1) d(1) by (simp only: t) (simp add: n scan_value.simps skip_ws_Cons json_space_def dict_update_wf)
  qed
qed

lemma readable_sub:
  "readable F (JList vs) \<Longrightarrow> v \<in> set vs \<Longrightarrow> readable F v"
  "readable F (JObj d) \<Longrightarrow> (k, v) \<in> set d \<Longrightarrow> plain_text k \<and> readable F v"
  by (auto simp: list_all_iff)

lemma string_back: "plain_text s \<Longrightarrow> reads_back F (ascii_str s) (JStr s)"
proof (unfold reads_back_def, intro allI impI)
  fix n rest
  assume "plain_text s" and "length (ascii_str s) \<le> n"
  then obtain m where "n = Suc m" by (cases n) (simp_all add: ascii_str_def)
  with scan_string_written [OF \<open>plain_text s\<close>, of rest]
  show "scan_value F n (ascii_str s @ rest) = Some (JStr s, rest)"
    by (simp add: scan_value.simps ascii_str_def)
qed

lemma number_back:
  assumes "number_start s" and "\<And>rest. value_end rest \<Longrightarrow> scan_number F (s @ rest) = Some (v, rest)"
  shows "reads_back F s v"
proof (unfold reads_back_def, intro allI impI)
  fix n rest
  assume "length s \<le> n" and "value_end rest"
  with assms(1) obtain m where "n = Suc m" by (cases n) (auto simp: number_start_def)
  with assms \<open>value_end rest\<close> show "scan_value F n (s @ rest) = Some (v, rest)"
    by (simp add: scan_atom_number)
qed

lemma word_back:
  assumes "s \<noteq> []" and "\<And>n rest. scan_value F (Suc n) (s @ rest) = Some (v, rest)"
  shows "reads_back F s v"
proof (unfold reads_back_def, intro allI impI)
  fix n rest
  assume "length s \<le> n"
  with assms(1) obtain m where "n = Suc m" by (cases n) auto
  with assms(2) show "scan_value F n (s @ rest) = Some (v, rest)" by simp
qed

lemma words_back:
  "reads_back F (u ''null'') JNull"
  "reads_back F (u ''true'') (JBool True)"
  "reads_back F (u ''false'') (JBool False)"
  "reads_back F (u ''NaN'') (JFloat Not_a_number)"
  "reads_back F (u ''Infinity'') (JFloat Infinite)"
  "reads_back F (u ''-Infinity'') (JFloat Neg_infinite)"
  by (rule word_back, simp add: u_def, rule scan_words)+

lemma written_reads_back:
  assumes "blank_style st"
  shows "readable F v \<Longrightarrow> reads_back F (json_written st l v) v"
proof (induction v arbitrary: l)
  case (JList vs)
  then show ?case by (intro list_back assms) (blast dest: readable_sub)+
next
  case (JObj d)
  have "reads_back F (json_written st (Suc l) v) v" if "(k, v) \<in> set d" for k v
    using JObj.IH [OF that] readable_sub(2) [OF JObj.prems that] by simp
  then show ?case
    using JObj.prems by (intro object_back assms) (blast dest: readable_sub | simp)+
next
  case (JInt i)
  then have "length (nat_digits (nat \<bar>i\<bar>)) \<le> max_str_digits" by simp
  then have "reads_back F (int_str i) (JInt i)"
    by (intro number_back scan_int readable_number_start(1) [OF JInt])
  then show ?case by simp
next
  case (JFloat f)
  then show ?case
  proof (cases f)
    case (Finite r)
    with JFloat have "float_text r" "F r = Finite r" "number_start r"
      using readable_number_start(2) [of F r] by simp_all
    then have "reads_back F r (JFloat (Finite r))" by (intro number_back) (simp_all add: scan_float)
    with Finite show ?thesis by simp
  qed (simp_all add: words_back)
qed (simp_all add: words_back string_back)

text \<open>\<open>json.loads(json.dumps(v, ...))\<close>, for any of the layouts, with blanks behind it.\<close>

lemma json_loads_written:
  assumes "blank_style st" and "readable F v" and "blank tail"
  shows "json_loads F (json_written st l v @ tail) = Some v"
proof -
  obtain c t where c: "json_written st l v = c # t" "\<not> json_space c" "c \<noteq> 0xfeff"
    using written_start [OF assms(2)] by metis
  have "skip_ws (json_written st l v @ tail) = json_written st l v @ tail"
    using c by (simp add: skip_ws_Cons)
  moreover have "value_end tail" using value_end_blank [OF assms(3) value_end_Nil] by simp
  then have "scan_value F (Suc (2 * length (json_written st l v @ tail))) (json_written st l v @ tail) = Some (v, tail)"
    by (intro reads_backD [OF written_reads_back [OF assms(1,2)]]) simp_all
  moreover have "skip_ws tail = []" using skip_blank [OF assms(3), of "[]"] by (simp add: skip_ws_def)
  ultimately show ?thesis using c by (simp add: json_loads_def)
qed

lemma json_loads_line: "readable F v \<Longrightarrow> json_loads F (json_line v) = Some v"
  using json_loads_written [of default_style F v "[]"] by (simp add: json_line_written [of _ 0] blank_def)

section \<open>What the store's columns hold\<close>

text \<open>
  A Python value of JSON's types: its characters are code points, its dictionaries have distinct
  keys, and a float is what \<open>float\<close> makes of its \<open>repr\<close>.
\<close>

definition python_text :: "pystr \<Rightarrow> bool" where
  "python_text s \<longleftrightarrow> list_all (\<lambda>c. 0 \<le> c \<and> c < 0x110000) s"

fun python_value :: "(pystr \<Rightarrow> pyfloat) \<Rightarrow> json \<Rightarrow> bool" where
  "python_value F (JFloat (Finite r)) = (float_text r \<and> F r = Finite r)"
| "python_value F (JStr s) = python_text s"
| "python_value F (JList vs) = list_all (python_value F) vs"
| "python_value F (JObj d) = (wf_dict d \<and> list_all (\<lambda>(k, v). python_text k \<and> python_value F v) d)"
| "python_value F v = True"

lemma surrogate_dumped: "is_surrogate c \<Longrightarrow> c \<in> set s \<Longrightarrow> c \<in> set (dumps_str s)"
  by (force simp: dumps_str_def escape_char_def is_surrogate_def)

lemma plain_text_dumped:
  "python_text s \<Longrightarrow> (\<And>c. c \<in> set (dumps_str s) \<Longrightarrow> \<not> is_surrogate c) \<Longrightarrow> plain_text s"
  using surrogate_dumped by (auto simp: plain_text_def python_text_def list_all_iff)

lemma join_mem: "c \<in> set s \<Longrightarrow> s \<in> set ss \<Longrightarrow> c \<in> set (join sep ss)"
  using set_join_supset [of ss sep] by blast

lemma readable_dumped:
  "python_value F v \<Longrightarrow> \<not> too_long_int v \<Longrightarrow> (\<And>c. c \<in> set (json_dumps v) \<Longrightarrow> \<not> is_surrogate c)
   \<Longrightarrow> readable F v"
proof (induction v)
  case (JFloat f)
  then show ?case by (cases f) simp_all
next
  case (JStr s)
  then show ?case by (auto intro!: plain_text_dumped)
next
  case (JList vs)
  have "readable F v" if v: "v \<in> set vs" for v
  proof (rule JList.IH [OF v])
    show "python_value F v" "\<not> too_long_int v"
      using JList.prems v by (auto simp: list_all_iff list_ex_iff)
    fix c
    assume "c \<in> set (json_dumps v)"
    then have "c \<in> set (join [44] (map json_dumps vs))" by (rule join_mem) (use v in simp)
    with JList.prems(3) show "\<not> is_surrogate c" by simp
  qed
  then show ?case by (simp add: list_all_iff)
next
  case (JObj d)
  have "plain_text k \<and> readable F v" if kv: "(k, v) \<in> set d" for k v
  proof -
    have "\<not> is_surrogate c" if "c \<in> set (dumps_str k @ [58] @ json_dumps v)" for c
    proof -
      from that have "c \<in> set (join [44] (map (\<lambda>(k, v). dumps_str k @ [58] @ json_dumps v) d))"
        by (rule join_mem) (use kv in force)
      with JObj.prems(3) show ?thesis by simp
    qed
    moreover have "python_text k" "python_value F v" "\<not> too_long_int v"
      using JObj.prems kv by (auto simp: list_all_iff list_ex_iff)
    ultimately show ?thesis using JObj.IH [OF kv] by (auto intro!: plain_text_dumped)
  qed
  then show ?case using JObj.prems(1) by (auto simp: list_all_iff)
qed simp_all

text \<open>The scope column: every value its text.\<close>

lemma scope_column_reads_back:
  assumes "wf_dict sc" and "\<And>k v. (k, v) \<in> set sc \<Longrightarrow> plain_text k \<and> plain_text (scope_text v)"
  shows "json_loads F (json_line (JObj (scope_as_text sc))) = Some (JObj (scope_as_text sc))"
  using assms by (intro json_loads_line) (auto simp: scope_as_text_def list_all_iff)

text \<open>
  Property C28: the SQLite backend keeps metadata as JSON text. Whatever metadata passes the
  size check, for an add or for an update over what was stored, \<open>json.loads\<close> gives back from the
  column as it was: no character, number, key or order is lost.
\<close>

theorem stored_metadata_reads_back:
  assumes "check_metadata_size md stored = Inr ()" and "python_value F (JObj md)"
  shows "json_loads F (json_line (JObj md)) = Some (JObj md)"
proof -
  from assms(1) obtain n where "json_size md = Inr n" by (auto simp: check_metadata_size_ok)
  then have "\<not> too_long_int (JObj md)" "\<And>c. c \<in> set (json_dumps (JObj md)) \<Longrightarrow> \<not> is_surrogate c"
    by (auto simp: json_size_def Let_def list_ex_iff simp del: too_long_int.simps json_dumps.simps
        split: if_splits)
  then show ?thesis by (intro json_loads_line readable_dumped assms(2))
qed

text \<open>Quotes, a line break, a character outside the first plane, a number below one.\<close>

definition tricky :: metadata where
  "tricky = [(u ''note'', JStr ([34, 10, 92, 128512] @ u ''x'')), (u ''p'', JFloat (Finite (u ''1e-05''))),
     (u ''tags'', JList [JStr [], JStr [233]]), (u ''n'', JInt (- 10))]"

theorem stored_metadata_reads_back_witness:
  "json_loads Finite (json_line (JObj tricky)) = Some (JObj tricky)"
proof -
  have "check_metadata_size tricky None = Inr ()"
    by (simp add: check_metadata_size_ok json_size_def Let_def tricky_def u_def dumps_str_def
        escape_char_def is_surrogate_def utf8_size_def utf8_len_def int_str_def nat_digits.simps
        MAX_METADATA_BYTES_def max_str_digits_def)
  moreover have "python_value Finite (JObj tricky)"
    by (simp add: tricky_def python_text_def u_def wf_dict_def float_text_def number_parts_def Let_def
        sign_of_def whole_of_def fraction_of_def exponent_of_def is_digit_def)
  ultimately show ?thesis by (rule stored_metadata_reads_back)
qed

text \<open>A line of the JSON log is read back as the record's fields, whatever the message holds.\<close>

lemma log_line_reads_back:
  "readable F (json_payload r) \<Longrightarrow> json_loads F (json_format r) = Some (json_payload r)"
  by (simp add: json_format_def json_loads_line)

text \<open>
  Two surrogates next to each other are the one case \<open>json\<close> does not keep: written as two escapes,
  they are read as the character they spell. Metadata with a surrogate never passes the size check.
\<close>

lemma surrogates_join: "json_loads F (json_line (JStr [0xd83d, 0xde00])) = Some (JStr [0x1f600])"
proof -
  have "ascii_str [0xd83d, 0xde00] = 34 # 92 # 117 # hex4 0xd83d @ 92 # 117 # hex4 0xde00 @ [34]"
    by (simp add: ascii_str_def escape_ascii_def)
  then show ?thesis
    using scan_pair [of "0xd83d" "0xde00" "[34]"]
    by (simp add: json_loads_def skip_ws_Cons json_space_def scan_value.simps(2) [of F 28, simplified]
        scan_string.simps(2) [of 34] prepend_def skip_ws_def)
qed

end
