(* ===== verification/Surface.thy ===== *)
theory Surface
  imports Json Tools
begin

text \<open>
  \<open>memcp/tools/surface.py\<close>: the tool contract that is committed to \<open>docs/tool-surface.json\<close>. The SDK's
  listing of the registered tools, with the schemas it derives from their signatures, is a
  parameter; \<open>argparse\<close> hands \<open>main\<close> its two options. The lemmas: the snapshot holds every tool any server
  registers, and \<open>load\<close> reads back what \<open>main --write\<close> wrote.
\<close>

section \<open>Collecting the surface\<close>

definition SNAPSHOT_PATH :: pystr where
  "SNAPSHOT_PATH = u ''docs/tool-surface.json''"

definition GENERATOR :: pystr where
  "GENERATOR = u ''python -m memcp.tools.surface --write''"

text \<open>A value of the SDK: JSON data, or a model with what \<open>model_dump(exclude_none=True)\<close> gives.\<close>

datatype sdk_value = Plain json | Model json

text \<open>A tool as the SDK lists it; an attribute that is missing or \<open>None\<close> is \<open>None\<close>.\<close>

record listed_tool =
  lt_name :: pystr
  lt_input_schema :: "sdk_value option"
  lt_inputSchema :: "sdk_value option"
  lt_annotations :: "sdk_value option"

datatype surface_error =
    Config_refused config_message | Backend_refused exc | No_input_schema pystr
  | Snapshot_missing | Snapshot_not_json | Snapshot_not_object | Snapshot_key_missing

fun json_true :: "json \<Rightarrow> bool" where
  "json_true JNull = False"
| "json_true (JBool b) = b"
| "json_true (JInt i) = (i \<noteq> 0)"
| "json_true (JFloat f) = (f \<noteq> Finite (u ''0.0'') \<and> f \<noteq> Finite (u ''-0.0''))"
| "json_true (JStr s) = (s \<noteq> [])"
| "json_true (JList vs) = (vs \<noteq> [])"
| "json_true (JObj d) = (d \<noteq> [])"

fun sdk_true :: "sdk_value option \<Rightarrow> bool" where
  "sdk_true None = False"
| "sdk_true (Some (Plain v)) = json_true v"
| "sdk_true (Some (Model v)) = True"

fun dumped :: "sdk_value \<Rightarrow> json" where
  "dumped (Plain v) = v"
| "dumped (Model v) = v"

definition tool_schema :: "listed_tool \<Rightarrow> surface_error + json" where
  "tool_schema t =
     (case (if sdk_true (lt_input_schema t) then lt_input_schema t else lt_inputSchema t) of
        None \<Rightarrow> Inl (No_input_schema (lt_name t))
      | Some v \<Rightarrow> Inr (dumped v))"

definition tool_annotations :: "listed_tool \<Rightarrow> json" where
  "tool_annotations t = (case lt_annotations t of None \<Rightarrow> JNull | Some v \<Rightarrow> dumped v)"

definition tool_entry :: "listed_tool \<Rightarrow> surface_error + json" where
  "tool_entry t =
     res_bind (tool_schema t) (\<lambda>sch.
     Inr (JObj [(u ''input_schema'', sch), (u ''annotations'', tool_annotations t)]))"

fun collect_from :: "(pystr, json) dict \<Rightarrow> listed_tool list \<Rightarrow> surface_error + (pystr, json) dict" where
  "collect_from d [] = Inr d"
| "collect_from d (t # ts) =
     res_bind (tool_entry t) (\<lambda>e. collect_from (dict_set (lt_name t) e d) ts)"

text \<open>The in-memory backend, declaring every capability.\<close>

definition every_capability :: "ucd \<Rightarrow> mem_store backend" where
  "every_capability U = (in_memory_backend U)\<lparr>b_capabilities := ALL_CAPABILITIES\<rparr>"

definition surface_config :: config where
  "surface_config = (config_defaults Kind_in_memory)\<lparr>cf_host := u ''127.0.0.1''\<rparr>"

definition current_surface ::
  "ucd \<Rightarrow> bool \<Rightarrow> (tool list \<Rightarrow> listed_tool list) \<Rightarrow> surface_error + (pystr, json) dict" where
  "current_surface U v4_mapped list_tools =
     (case make_config v4_mapped surface_config of
        Inl e \<Rightarrow> Inl (Config_refused e)
      | Inr cfg \<Rightarrow>
          (case policy_init (every_capability U) of
             Inl e \<Rightarrow> Inl (Backend_refused e)
           | Inr P \<Rightarrow> collect_from [] (list_tools (register_tools P))))"

section \<open>Writing and loading the snapshot\<close>

text \<open>\<open>sort_keys=True\<close>: strings compare by their code points.\<close>

fun sort_keys :: "json \<Rightarrow> json" where
  "sort_keys (JList vs) = JList (map sort_keys vs)"
| "sort_keys (JObj d) = JObj (sort_key fst (map (\<lambda>(k, v). (k, sort_keys v)) d))"
| "sort_keys v = v"

definition surface_payload :: "(pystr, json) dict \<Rightarrow> json" where
  "surface_payload tools =
     JObj [(u ''_comment'', JStr (u ''Generated by `'' @ GENERATOR @ u ''`. Frozen contract '' @ [8212]
             @ u '' see memcp/tools/surface.py.'')),
           (u ''tool_count'', JInt (int (length tools))),
           (u ''tools'', JObj tools)]"

definition render :: "(pystr, json) dict \<Rightarrow> pystr" where
  "render tools = json_written (indented 2) 0 (sort_keys (surface_payload tools)) @ [10]"

definition render_or_current ::
  "ucd \<Rightarrow> bool \<Rightarrow> (tool list \<Rightarrow> listed_tool list) \<Rightarrow> (pystr, json) dict option \<Rightarrow> surface_error + pystr" where
  "render_or_current U v4_mapped list_tools surface =
     (case surface of
        None \<Rightarrow> res_bind (current_surface U v4_mapped list_tools) (\<lambda>tools. Inr (render tools))
      | Some tools \<Rightarrow> Inr (render tools))"

definition load ::
  "(pystr \<Rightarrow> pyfloat) \<Rightarrow> (pystr \<Rightarrow> pystr option) \<Rightarrow> pystr \<Rightarrow> surface_error + json" where
  "load F files path =
     (case files path of
        None \<Rightarrow> Inl Snapshot_missing
      | Some text \<Rightarrow>
          (case json_loads F text of
             None \<Rightarrow> Inl Snapshot_not_json
           | Some (JObj d) \<Rightarrow>
               (case map_of d (u ''tools'') of None \<Rightarrow> Inl Snapshot_key_missing | Some v \<Rightarrow> Inr v)
           | Some v \<Rightarrow> Inl Snapshot_not_object))"

text \<open>The options, the files by their path, and what was printed.\<close>

record surface_args =
  sa_write :: bool
  sa_path :: pystr

definition no_options :: surface_args where
  "no_options = \<lparr>sa_write = False, sa_path = SNAPSHOT_PATH\<rparr>"

record workspace =
  ws_files :: "pystr \<Rightarrow> pystr option"
  ws_stdout :: pystr

definition surface_main ::
  "ucd \<Rightarrow> bool \<Rightarrow> (tool list \<Rightarrow> listed_tool list) \<Rightarrow> surface_args \<Rightarrow> workspace
   \<Rightarrow> (surface_error + int) \<times> workspace" where
  "surface_main U v4_mapped list_tools args w =
     (case current_surface U v4_mapped list_tools of
        Inl e \<Rightarrow> (Inl e, w)
      | Inr tools \<Rightarrow>
          let text = render tools
          in if sa_write args then
               (Inr 0, w\<lparr>ws_files := (ws_files w)(sa_path args \<mapsto> text),
                         ws_stdout := ws_stdout w @ u ''wrote '' @ sa_path args @ [10]\<rparr>)
             else (Inr 0, w\<lparr>ws_stdout := ws_stdout w @ text\<rparr>))"

section \<open>What the snapshot holds\<close>

definition full_policy :: "ucd \<Rightarrow> mem_store policy" where
  "full_policy U =
     \<lparr>pol_backend = every_capability U, pol_capabilities = ALL_CAPABILITIES,
      pol_scope_keys = b_scope_keys (in_memory_backend U)\<rparr>"

lemma full_policy: "policy_init (every_capability U) = Inr (full_policy U)"
  by (simp add: policy_init_def every_capability_def full_policy_def in_memory_backend_def
      RETRIEVAL_KINDS_def)

lemma surface_config_accepted: "\<exists>cfg. make_config v4_mapped surface_config = Inr cfg"
proof -
  have local: "is_loopback v4_mapped (u ''127.0.0.1'')"
    by (simp add: is_loopback_def ipv4_value_def ipv4_octet_def digit_char_def
        decimal_value_def digits_value_def ipv4_loopback_def u_def)
  show ?thesis
    by (simp add: make_config_def surface_config_def field_validators_def validate_backend_config_def
        refuse_replaced_variables_def refuse_unauthenticated_exposure_def config_defaults_def local
        falsy_def empty_is_none_def empty_hosts_is_none_def)
qed

lemma current_surface_collects:
  "current_surface U v4_mapped L = collect_from [] (L (register_tools (full_policy U)))"
  using surface_config_accepted [of v4_mapped] by (auto simp: current_surface_def full_policy)

lemma collect_from_ok:
  "distinct (map fst d @ map lt_name ts) \<Longrightarrow>
     collect_from d ts = Inr e \<longleftrightarrow>
       (\<exists>es. list_all2 (\<lambda>t x. tool_entry t = Inr x) ts es \<and> e = d @ zip (map lt_name ts) es)"
proof (induction ts arbitrary: d)
  case (Cons t ts)
  then have fresh: "dict_set (lt_name t) x d = d @ [(lt_name t, x)]" for x
    by (intro dict_set_fresh) (auto simp: image_iff)
  show ?case
  proof (cases "tool_entry t")
    case (Inr x)
    have "distinct (map fst (d @ [(lt_name t, x)]) @ map lt_name ts)" using Cons.prems by auto
    from Cons.IH [OF this] Inr fresh show ?thesis by (auto simp: list_all2_Cons1)
  qed (simp add: list_all2_Cons1)
qed auto

text \<open>What the contract freezes of a tool: its name, its signature and its annotations.\<close>

definition contract :: "tool \<Rightarrow> pystr \<times> parameter list \<times> (pystr \<times> bool) list" where
  "contract t = (t_name t, t_parameters t, t_hints t)"

lemma registered_contracts:
  "map contract (register_tools P) =
     (let caps = set (pol_capabilities P)
      in [(u ''add_memory'', add_memory_parameters, []),
          (u ''search_memory'', search_memory_parameters, READ_ONLY),
          (u ''delete_memory'', by_id_parameters, DESTRUCTIVE),
          (u ''get_memory'', by_id_parameters, READ_ONLY)]
         @ (if u ''update'' \<in> caps
            then [(u ''update_memory'', update_memory_parameters,
                   [(u ''idempotentHint'', True), (u ''destructiveHint'', True)])] else [])
         @ [(u ''delete_all_memories'', delete_all_memories_parameters, DESTRUCTIVE)]
         @ (if u ''list'' \<in> caps
            then [(u ''list_memories'', list_memories_parameters, READ_ONLY),
                  (u ''export_memories'', [], READ_ONLY),
                  (u ''import_memories'', import_memories_parameters, [])] else [])
         @ [(u ''memory_status'', [], READ_ONLY)]
         @ (if u ''history'' \<in> caps then [(u ''memory_history'', by_id_parameters, READ_ONLY)] else [])
         @ (if u ''entities'' \<in> caps then [(u ''memory_entities'', memory_entities_parameters, READ_ONLY)] else []))"
  by (simp add: register_tools_def register_memories_def register_bulk_def register_transfer_def
      register_insight_def Let_def tool_of_def contract_def)

lemma full_capabilities:
  "u ''update'' \<in> set (pol_capabilities (full_policy U))" "u ''list'' \<in> set (pol_capabilities (full_policy U))"
  "u ''history'' \<in> set (pol_capabilities (full_policy U))" "u ''entities'' \<in> set (pol_capabilities (full_policy U))"
  by (simp_all add: full_policy_def all_capabilities)

lemma registered_in_full:
  "set (map contract (register_tools P)) \<subseteq> set (map contract (register_tools (full_policy U)))"
  unfolding registered_contracts Let_def set_append full_capabilities [THEN eqTrueI] if_True
  by (intro Un_mono subset_refl; simp only: if_cancel split: if_split; simp)

lemma full_length: "length (register_tools (full_policy U)) = 12"
proof -
  have "length (map contract (register_tools (full_policy U))) = 12"
    unfolding registered_contracts Let_def full_capabilities [THEN eqTrueI] if_True by simp
  then show ?thesis by simp
qed

text \<open>
  Property C36: the frozen contract is every server's. Whatever backend a server runs on, each tool it
  registers has the name, the parameters (with their types and defaults) and the annotations of a tool
  the snapshot is made of; and if the SDK lists a tool by its name with a schema and annotations made
  from these, not from its description, the snapshot has exactly the twelve tools and for each
  tool of a server the entry the SDK lists for it.
\<close>

theorem surface_complete:
  fixes P :: "'w policy"
  assumes "\<And>t. lt_name (l t) = t_name t"
    and "\<And>t t'. contract t = contract t' \<Longrightarrow> tool_entry (l t) = tool_entry (l t')"
    and "current_surface U v4_mapped (map l) = Inr tools"
  shows "set (map contract (register_tools P)) \<subseteq> set (map contract (register_tools (full_policy U)))
    \<and> dict_keys tools = map t_name (register_tools (full_policy U))
    \<and> length tools = 12 \<and> distinct (dict_keys tools)
    \<and> (\<forall>t \<in> set (register_tools P).
          \<exists>e. tool_entry (l t) = Inr e \<and> map_of tools (t_name t) = Some e)"
proof -
  let ?ts = "register_tools (full_policy U)"
  have names: "map lt_name (map l ?ts) = map t_name ?ts" using assms(1) by (simp add: comp_def)
  have "collect_from [] (map l ?ts) = Inr tools"
    using assms(3) by (simp only: current_surface_collects)
  moreover have "distinct (map fst [] @ map lt_name (map l ?ts))"
    unfolding names by (simp add: registered_distinct)
  ultimately obtain es where es: "list_all2 (\<lambda>t x. tool_entry t = Inr x) (map l ?ts) es"
    and tools: "tools = zip (map t_name ?ts) es"
    by (auto simp: collect_from_ok names simp del: map_map)
  have len: "length es = length ?ts" using list_all2_lengthD [OF es] by simp
  have keys: "map fst tools = map t_name ?ts" using len by (simp add: tools)
  have entry: "\<exists>e. tool_entry (l t) = Inr e \<and> map_of tools (t_name t) = Some e"
    if t: "t \<in> set (register_tools P)" for t
  proof -
    obtain t' where t': "t' \<in> set ?ts" "contract t = contract t'"
      using registered_in_full [of P U] t by auto
    then obtain i where i: "i < length ?ts" "?ts ! i = t'" by (auto simp: in_set_conv_nth)
    then have "tool_entry (l t') = Inr (es ! i)" using list_all2_nthD [OF es, of i] by simp
    moreover have "(t_name t', es ! i) \<in> set tools"
      using i len unfolding tools in_set_zip by (intro exI [of _ i]) simp
    then have "map_of tools (t_name t') = Some (es ! i)"
      using registered_distinct [of "full_policy U"] by (simp add: keys)
    moreover have "tool_entry (l t) = tool_entry (l t')" "t_name t = t_name t'"
      using assms(2) [OF t'(2)] t'(2) by (simp, simp add: contract_def)
    ultimately show ?thesis by simp
  qed
  have "length tools = length (map fst tools)" by simp
  then have "length tools = 12" unfolding keys by (simp add: full_length)
  moreover have "distinct (dict_keys tools)"
    unfolding dict_keys_def keys by (rule registered_distinct)
  ultimately show ?thesis using entry registered_in_full [of P U] keys by (simp add: dict_keys_def)
qed

section \<open>What load reads back\<close>

text \<open>Equality of Python values, in which the order of a dictionary's keys does not count.\<close>

inductive same_value :: "json \<Rightarrow> json \<Rightarrow> bool" where
  same_refl: "same_value v v"
| same_list: "list_all2 same_value vs ws \<Longrightarrow> same_value (JList vs) (JList ws)"
| same_object:
    "distinct (map fst d) \<Longrightarrow> distinct (map fst e) \<Longrightarrow> (\<And>k. rel_option same_value (map_of d k) (map_of e k))
     \<Longrightarrow> same_value (JObj d) (JObj e)"

lemma wf_sorted: "wf_dict (sort_key fst d) \<longleftrightarrow> wf_dict d"
  by (simp add: wf_dict_def distinct_map)

lemma map_of_sorted: "wf_dict d \<Longrightarrow> map_of (sort_key fst d) = map_of d"
  using wf_sorted [of d] by (intro iffD2 [OF map_of_inject_set]) (simp_all add: wf_dict_def)

lemma readable_sort_keys: "readable F v \<Longrightarrow> readable F (sort_keys v)"
proof (induction v)
  case (JObj d)
  then show ?case by (auto simp: wf_sorted list_all_iff)
qed (auto simp: list_all_iff)

lemma same_sort_keys: "readable F v \<Longrightarrow> same_value (sort_keys v) v"
proof (induction v)
  case (JList vs)
  then have "list_all2 same_value (map sort_keys vs) vs"
    by (auto simp: list_all2_conv_all_nth list_all_iff)
  then show ?case by (simp add: same_list)
next
  case (JObj d)
  let ?e = "map (\<lambda>(k, v). (k, sort_keys v)) d"
  have wf: "wf_dict d" "wf_dict ?e" using JObj.prems by simp_all
  have "rel_option same_value (map_of (sort_key fst ?e) k) (map_of d k)" for k
  proof (cases "map_of d k")
    case None
    then show ?thesis by (simp add: map_of_sorted [OF wf(2)] map_of_map)
  next
    case (Some v)
    then have "(k, v) \<in> set d" by (rule map_of_SomeD)
    then have "same_value (sort_keys v) v"
      using JObj.IH [OF \<open>(k, v) \<in> set d\<close>] readable_sub(2) [OF JObj.prems] by simp
    with Some show ?thesis by (simp add: map_of_sorted [OF wf(2)] map_of_map)
  qed
  then show ?case
    using wf wf_sorted [of ?e] by (simp add: same_object wf_dict_def)
qed (simp_all add: same_refl)

lemma load_rendered:
  assumes tools: "readable F (JObj tools)" and short: "length tools < 10 ^ max_str_digits"
    and stored: "files path = Some (render tools)"
  shows "load F files path = Inr (sort_keys (JObj tools))"
proof -
  let ?payload = "surface_payload tools"
  have "length (nat_digits (length tools)) \<le> max_str_digits"
    using short max_str_digits_pos by (rule length_nat_digits)
  then have payload: "readable F ?payload"
    using tools
    by (simp add: surface_payload_def wf_dict_def plain_text_def is_surrogate_def u_def GENERATOR_def)
  have "json_loads F (render tools) = Some (sort_keys ?payload)"
    unfolding render_def
    by (rule json_loads_written) (simp_all add: readable_sort_keys payload blank_def json_space_def)
  moreover have "wf_dict (map (\<lambda>(k, v). (k, sort_keys v)) [(u ''_comment'', c), (u ''tool_count'', n), (u ''tools'', t)])"
    for c n t
    by (simp add: wf_dict_def)
  ultimately show ?thesis
    by (simp add: load_def stored surface_payload_def map_of_sorted)
qed

text \<open>
  Property C37: a regenerated snapshot is the current surface. After \<open>main --write\<close>, \<open>load\<close> of the
  file gives the surface it was run on, equal as Python compares values, with nothing lost in the
  sorting, the indentation and the escapes; the file holds what \<open>main\<close> without the option prints, and
  no other file changes.
\<close>

theorem snapshot_reads_back:
  assumes "current_surface U v4_mapped L = Inr tools" and "readable F (JObj tools)"
    and "length tools < 10 ^ max_str_digits"
  shows "\<exists>text w' v.
    surface_main U v4_mapped L \<lparr>sa_write = True, sa_path = path\<rparr> w = (Inr 0, w')
    \<and> ws_files w' = (ws_files w)(path \<mapsto> text)
    \<and> surface_main U v4_mapped L \<lparr>sa_write = False, sa_path = path\<rparr> w =
        (Inr 0, w\<lparr>ws_stdout := ws_stdout w @ text\<rparr>)
    \<and> load F (ws_files w') path = Inr v \<and> same_value v (JObj tools)"
proof -
  let ?w' = "w\<lparr>ws_files := (ws_files w)(path \<mapsto> render tools),
    ws_stdout := ws_stdout w @ u ''wrote '' @ path @ [10]\<rparr>"
  have "load F (ws_files ?w') path = Inr (sort_keys (JObj tools))"
    by (rule load_rendered [OF assms(2,3)]) simp
  then have "ws_files ?w' = (ws_files w)(path \<mapsto> render tools)
      \<and> load F (ws_files ?w') path = Inr (sort_keys (JObj tools))" by simp
  then show ?thesis
    using same_sort_keys [OF assms(2)]
    by (intro exI [of _ "render tools"] exI [of _ ?w'] exI [of _ "sort_keys (JObj tools)"])
      (simp add: surface_main_def assms(1) Let_def)
qed

text \<open>An SDK that lists each tool with its required arguments and its hints.\<close>

definition required_schema :: "tool \<Rightarrow> json" where
  "required_schema t =
     JObj [(u ''type'', JStr (u ''object'')),
       (u ''required'', JList (map (\<lambda>p. JStr (pa_name p)) (filter (\<lambda>p. pa_default p = None) (t_parameters t))))]"

definition listed_as :: "tool \<Rightarrow> listed_tool" where
  "listed_as t =
     \<lparr>lt_name = t_name t,
      lt_input_schema = Some (Plain (required_schema t)),
      lt_inputSchema = None,
      lt_annotations = Some (Model (JObj (map (\<lambda>(h, b). (h, JBool b)) (t_hints t))))\<rparr>"

definition listed_entry :: "tool \<Rightarrow> json" where
  "listed_entry t =
     JObj [(u ''input_schema'', required_schema t),
       (u ''annotations'', JObj (map (\<lambda>(h, b). (h, JBool b)) (t_hints t)))]"

lemma tool_entry_listed: "tool_entry (listed_as t) = Inr (listed_entry t)"
  by (simp add: tool_entry_def tool_schema_def tool_annotations_def listed_as_def listed_entry_def required_schema_def)

definition listed_surface :: "(pystr, json) dict" where
  "listed_surface =
     (let ts = register_tools (full_policy plain_ucd) in zip (map t_name ts) (map listed_entry ts))"

lemma listed_surface: "current_surface plain_ucd False (map listed_as) = Inr listed_surface"
proof -
  have names: "map lt_name (map listed_as ts) = map t_name ts" for ts
    by (simp add: listed_as_def)
  have "distinct (map fst [] @ map lt_name (map listed_as (register_tools (full_policy plain_ucd))))"
    unfolding names by (simp add: registered_distinct)
  then show ?thesis
    unfolding current_surface_collects
    by (intro iffD2 [OF collect_from_ok] exI [of _ "map listed_entry (register_tools (full_policy plain_ucd))"])
      (simp_all add: list_all2_conv_all_nth tool_entry_listed names listed_surface_def Let_def del: map_map)
qed

theorem surface_complete_witness:
  "length listed_surface = 12
   \<and> map (\<lambda>t. map_of listed_surface (t_name t)) (register_tools demo_policy) =
       map (\<lambda>t. Some (listed_entry t)) (register_tools demo_policy)
   \<and> set (map contract (register_tools demo_policy)) \<subseteq> set (map contract (register_tools (full_policy plain_ucd)))"
proof -
  have named: "lt_name (listed_as t) = t_name t" for t by (simp add: listed_as_def)
  have same: "tool_entry (listed_as t) = tool_entry (listed_as t')" if "contract t = contract t'" for t t'
    using that by (simp add: contract_def tool_entry_listed listed_entry_def required_schema_def)
  from surface_complete [OF named same listed_surface, of demo_policy] show ?thesis
    by (auto simp: tool_entry_listed)
qed

definition plain_shape :: "pystr \<times> parameter list \<times> (pystr \<times> bool) list \<Rightarrow> bool" where
  "plain_shape = (\<lambda>(k, ps, hs). plain_text k \<and> list_all (\<lambda>p. plain_text (pa_name p)) ps
     \<and> wf_dict hs \<and> list_all (\<lambda>(h, b). plain_text h) hs)"

lemmas signatures = add_memory_parameters_def search_memory_parameters_def by_id_parameters_def
  update_memory_parameters_def delete_all_memories_parameters_def list_memories_parameters_def
  import_memories_parameters_def memory_entities_parameters_def scope_parameter_def required_def
  defaulting_def

lemma plain_u [simp]: "plain_text (u s)"
proof -
  have "0 \<le> (of_char c :: int) \<and> (of_char c :: int) < 256" for c :: char
    by (cases c) (simp add: of_char_def horner_sum_simps split: bool.splits)
  then have "0 \<le> c \<and> c < 256" if "c \<in> set (u s)" for c
    using that by (auto simp: u_def)
  then show ?thesis by (force simp: plain_text_def list_all_iff is_surrogate_def)
qed

lemma plain_shapes: "list_all plain_shape (map contract (register_tools (full_policy U)))"
  unfolding registered_contracts Let_def full_capabilities [THEN eqTrueI] if_True
  by (simp add: plain_shape_def READ_ONLY_def DESTRUCTIVE_def wf_dict_def signatures)

lemma listed_entry_readable:
  assumes "plain_shape (contract t)"
  shows "plain_text (t_name t) \<and> readable F (listed_entry t)"
proof -
  have "list_all (\<lambda>(h, b). plain_text h) (t_hints t)" "wf_dict (t_hints t)" "plain_text (t_name t)"
    using assms by (simp_all add: plain_shape_def contract_def)
  moreover have "list_all (\<lambda>(k, v). plain_text k \<and> readable F v) (map (\<lambda>(h, b). (h, JBool b)) (t_hints t))"
    using calculation(1) by (auto simp: list_all_iff)
  moreover have "list_all (readable F) (map (\<lambda>p. JStr (pa_name p)) (filter (\<lambda>p. pa_default p = None) (t_parameters t)))"
    using assms by (auto simp: plain_shape_def contract_def list_all_iff)
  ultimately show ?thesis by (simp add: listed_entry_def required_schema_def wf_dict_def [of "[_, _]"])
qed

lemma listed_readable: "readable Finite (JObj listed_surface)"
proof -
  let ?ts = "register_tools (full_policy plain_ucd)"
  have "plain_text k \<and> readable Finite v" if "(k, v) \<in> set listed_surface" for k v
  proof -
    obtain t where "t \<in> set ?ts" "k = t_name t" "v = listed_entry t"
      using \<open>(k, v) \<in> set listed_surface\<close>
      by (auto simp: listed_surface_def Let_def zip_map_map zip_same_conv_map)
    moreover from this have "plain_shape (contract t)"
      using plain_shapes [of plain_ucd] by (simp add: list_all_iff)
    ultimately show ?thesis using listed_entry_readable by blast
  qed
  moreover have "wf_dict listed_surface"
    using registered_distinct [of "full_policy plain_ucd"] by (simp add: listed_surface_def Let_def wf_dict_def)
  ultimately show ?thesis by (auto simp: list_all_iff)
qed

theorem snapshot_reads_back_witness:
  "\<exists>v. load Finite (ws_files (snd (surface_main plain_ucd False (map listed_as)
         \<lparr>sa_write = True, sa_path = SNAPSHOT_PATH\<rparr> \<lparr>ws_files = Map.empty, ws_stdout = []\<rparr>))) SNAPSHOT_PATH = Inr v
     \<and> same_value v (JObj listed_surface)"
proof -
  have "length listed_surface = 12" using full_length by (simp add: listed_surface_def Let_def)
  moreover have "(12 :: nat) < 10 ^ max_str_digits"
  proof -
    have "(12 :: nat) < 10 ^ 2" by simp
    also have "\<dots> \<le> 10 ^ max_str_digits" by (intro power_increasing) (simp_all add: max_str_digits_def)
    finally show ?thesis .
  qed
  ultimately have "length listed_surface < 10 ^ max_str_digits" by simp
  from snapshot_reads_back [OF listed_surface listed_readable this] show ?thesis
    by (metis snd_conv)
qed

end
