(* ===== verification/Spec2Isabelle.thy ===== *)
theory Spec2Isabelle
  imports Patch_Cap Migration Mem0_Wire Server Surface
begin

text \<open>
  A development about memcp, an MCP server that gives agents a memory (\<open>src/memcp\<close>, Python).

  Every request goes through one object, \<open>Policy\<close>: it decides whether the current key may do what
  it asks, checks the arguments, calls a backend in the key's space and checks that what comes
  back belongs there. The development models the server from the HTTP request to the stores, and shows
  that the spaces are kept apart, that each operation does what it promises, and that each leaves
  one audit record.

  Theories, from the bottom up:

  \<^item> \<open>Py\<close>: what the code uses of Python. Strings are lists of code points; a dictionary is an
    association list in insertion order; a computation takes a state and gives an exception or a
    value, and the state it leaves behind (an exception keeps the changes made before it). A
    weakest-precondition calculus, predicates a computation keeps, and what its results satisfy.
  \<^item> \<open>Types\<close>: \<open>types.py\<close> and \<open>identity.py\<close>. Limits, argument checks, the memory shapes, errors
    (\<open>PolicyError\<close>, \<open>MemoryAPIError\<close> and the built-in ones as one datatype \<open>exc\<close>, messages by their
    template), cursor pagination, the current key (\<open>None\<close> when no request runs).
  \<^item> \<open>Backend\<close>: \<open>backends/base.py\<close> and \<open>backends/capabilities.py\<close>. A backend is a record of operations
    over its own state; the reserved metadata keys and the metadata patch. Then the contracts:
    \<open>confined_backend\<close> (calls in one partition keep a predicate of the store) and \<open>storing_backend\<close>
    (the operations implement those of an abstract store), the second giving the first for every
    predicate that the abstract steps keep.
  \<^item> \<open>Keyword\<close>: \<open>backends/keyword.py\<close>, the scorer of the keyword backends. The Unicode database and
    ICU's word breaker are a parameter (\<open>ucd\<close>), what they say of ASCII a hypothesis (\<open>unicode_facts\<close>).
  \<^item> \<open>Local_Store\<close>: what the two local backends share; \<open>uuid.uuid4\<close> and the clock are sequences in the
    state.
  \<^item> \<open>InMemory\<close>: \<open>backends/in_memory.py\<close>, shown to be a \<open>storing_backend\<close> for an invariant and an
    abstraction of its two dictionaries.
  \<^item> \<open>Sqlite\<close>: \<open>backends/sqlite.py\<close>. The tables are lists of rows, a write is a transaction, the
    connection can be closed, and a statement that writes can fail (\<open>db_fails\<close>, a predicate of the
    tables it would leave); while none does it is a \<open>storing_backend\<close> too, up to the number of variables
    a bulk delete binds (\<open>vars\<close>, a parameter). A JSON column is represented by the value it holds; \<open>Json\<close>
    shows that the text reads back as that value.
  \<^item> \<open>Scope\<close>, \<open>Metadata\<close>: \<open>policy/scope.py\<close>, \<open>policy/metadata.py\<close>.
  \<^item> \<open>Audit_Log\<close>: \<open>policy/audit.py\<close>, and the state policy runs in: the backend's store, the audit
    entry of the running operation, the audit log and the server log.
  \<^item> \<open>Access\<close>: \<open>policy/access.py\<close> and \<open>policy/space.py\<close>; the locale \<open>partition_calls\<close>, in which each
    operation of policy is shown once to keep a predicate.
  \<^item> \<open>Export_Import\<close>: \<open>policy/transfer.py\<close>.
  \<^item> \<open>Policy\<close>: \<open>policy/__init__.py\<close>. Each operation is its audited body; \<open>perform\<close> collects the eleven.
  \<^item> \<open>Example\<close>: a small concrete run for the witnesses.
  \<^item> \<open>Isolation\<close>: what holds over any backend. \<open>spied\<close> is a backend with a record of its calls.
  \<^item> \<open>Behaviour\<close>, \<open>Guarantees\<close>: what each operation does over a storing backend, and some instances
    for the in-memory one.
  \<^item> \<open>History\<close>: sessions as sequences of the abstract store's steps (\<open>store_step\<close>) and the invariant of
    the trails.
  \<^item> \<open>Durable\<close>: the promises of the SQLite backend and of policy over it, failing statements
    included, and what both local backends answer to a read or a search.
  \<^item> \<open>Moving\<close>: import over any backend and over the two local ones. \<open>Migration\<close>: two stores side by
    side, and the migration from one into the other.
  \<^item> \<open>Alike\<close>, \<open>Twins\<close>: computations over two states kept in a relation, with a rule for each way of
    composing them; then the two local backends, whose sessions get the same replies.
  \<^item> \<open>Interleaved\<close>: requests that run at the same time. \<open>interfered B\<close> is a backend with calls of others
    pending between its own; what a request then keeps, and what it answers. \<open>Patch_Cap\<close>: what racing updates can make
    of the cap on metadata.

  \<^item> \<open>Mem0\<close>: \<open>backends/mem0/client.py\<close> and \<open>backends/mem0/adapter.py\<close>. The mem0 server, reached by
    \<open>httpx\<close>, is a parameter: any function of a request and its own state. \<open>Mem0_Wire\<close>: with the server's
    exchanges recorded, which requests policy can cause; how the adapter keeps the system fields in
    the metadata and removes keys by nulls.
  \<^item> \<open>Auth\<close>, \<open>Gate\<close>: \<open>http/auth.py\<close>, the keys file, the key table and the bearer gate, with the
    Accept header of \<open>http/app.py\<close>. SHA-256, the decoding of a header and the wording of pydantic's
    problems are parameters; which files the models accept is translated from them.
  \<^item> \<open>Config\<close>: \<open>config.py\<close> and \<open>http/hosts.py\<close>, from the fields as pydantic has read them; the address
    parsing of \<open>ipaddress\<close> is written out, the rule for IPv4-mapped addresses a flag (it changed with
    Python 3.13).
  \<^item> \<open>Tools\<close>: \<open>tools/\<close>. Handlers, error translation, call log and registration with each handler's
    signature; a \<open>tool_call\<close> is a call
    whose arguments the SDK has accepted.
  \<^item> \<open>Logging\<close>: \<open>http/logging.py\<close>, the two formatters, the key filter, the logger table.
  \<^item> \<open>Json\<close>: \<open>json.dumps\<close> with any separators and indentation, and \<open>json.loads\<close> as a parser with fuel,
    twice the length of the text (\<open>scan_fuel\<close>: more changes nothing); what is written is read back. The
    values of floats are a parameter (\<open>float\<close> of a numeral).
  \<^item> \<open>Surface\<close>: \<open>tools/surface.py\<close>, the snapshot of the tool contract. The SDK's listing is a parameter.
  \<^item> \<open>Server\<close>: \<open>http/app.py\<close> and \<open>__main__.py\<close>, start-up and the application put together: gate, Accept
    header, SDK, tools, policy, backend, behind Starlette's routes; the SDK and Starlette are parameters. Its properties are end to end: what a served
    request can reach, and which servers start.

  How the code is read. An operation is a computation from state to state. A coroutine gives way only
  where it awaits something that is not ready, and of what policy awaits that is a backend call: the
  in-memory backend never gives way, the SQLite one runs each call in a thread under its lock
  (\<open>_run\<close>), with nothing before the lock but checks, the new id and the clock. So requests interleave
  call by call, which \<open>Interleaved\<close> models for the SQLite backend; the other theories run one request
  after another. The files are shared by one process: another process writing the same SQLite file
  is not modelled. \<open>float\<close> appears as its text (\<open>repr\<close>) and, where it is compared or added, as a
  rational: a score is exact. The set of keys a patch removes, a set in the code, is a list. Log lines are values of \<open>log_event\<close>.

  Termination and bounds: the paged read (\<open>list_all_from\<close>) ends for every backend, because each
  round but the last adds a memory and the loop stops past the limit; everything else recurses on
  its input. \<open>follow_pages\<close> and \<open>list_pages\<close> take the number of pages as fuel; one more than the
  number of memories is enough, as \<open>paging_enumerates\<close> shows. Cursors are decimal text, so paging
  assumes fewer than \<open>10 ^ 4300\<close> memories, the most digits \<open>int()\<close> reads.

  Which backend: the properties of policy, tools and the gate that name no backend hold over any; those
  that say what is stored or found hold over the in-memory and the SQLite backend, or the one they
  name. Over mem0 the server decides that, and the properties are of the requests sent to it.

  Not modelled: the inside of the MCP SDK with its session manager, of Starlette and of uvicorn, and the
  printing of start-up errors; the schemas the SDK derives from the handlers' signatures; pydantic's
  reading of the environment; \<open>argparse\<close>; Python's recursion limit, which no value policy accepts
  comes near; a SQLite commit that fails; integers of more than 4300 digits in a scope.
\<close>

end
